(* ===== verification/WF_Prelude.thy ===== *)
theory WF_Prelude
  imports Main "HOL-Library.Word"
begin

text \<open>
  The prelude of the development: the integer types of the C and C++ sources, the
  conversion between bytes and machine words (the sources run on little-endian
  hosts and exchange packed structures), the generic step-system interface and the
  list lemmas the components share.  Facts that evaluate model code are collected in
  \<open>wf_eval\<close>, facts about sizes and bounds in \<open>wf_bounds\<close>.
\<close>

named_theorems wf_eval \<open>defining equations that evaluate model code\<close>
named_theorems wf_bounds \<open>length and range facts\<close>

section \<open>Machine integers and bytes\<close>

type_synonym u8 = "8 word"
type_synonym u16 = "16 word"
type_synonym u32 = "32 word"
type_synonym u64 = "64 word"

text \<open>A byte of memory is a HOL character, since the same buffers hold C strings.\<close>

definition byte_of :: "u8 \<Rightarrow> char" where
  "byte_of w = char_of (unat w)"

definition u8_of :: "char \<Rightarrow> u8" where
  "u8_of c = word_of_nat (of_char c)"

lemma of_char_less_256 [wf_bounds]: "(of_char c :: nat) < 256"
  by (rule nat_of_char_less_256)

lemma u8_of_byte_of [simp]: "u8_of (byte_of w) = w"
proof -
  have "unat w < 256"
    using unsigned_less [of w, where ?'a = nat] by simp
  then show ?thesis
    by (simp add: u8_of_def byte_of_def)
qed

lemma byte_of_u8_of [simp]: "byte_of (u8_of c) = c"
proof -
  have "unat (word_of_nat (of_char c) :: u8) = of_char c"
    using of_char_less_256 [of c] by (simp add: unat_of_nat)
  then show ?thesis
    by (simp add: u8_of_def byte_of_def)
qed

lemma byte_of_inject [simp]: "byte_of a = byte_of b \<longleftrightarrow> a = b"
  by (metis u8_of_byte_of)

section \<open>Little-endian words in memory\<close>

definition le16 :: "u16 \<Rightarrow> char list" where
  "le16 w = [byte_of (ucast w), byte_of (ucast (drop_bit 8 w))]"

definition un16 :: "char \<Rightarrow> char \<Rightarrow> u16" where
  "un16 b0 b1 = or (ucast (u8_of b0)) (push_bit 8 (ucast (u8_of b1)))"

definition le32 :: "u32 \<Rightarrow> char list" where
  "le32 w = [byte_of (ucast w), byte_of (ucast (drop_bit 8 w)),
             byte_of (ucast (drop_bit 16 w)), byte_of (ucast (drop_bit 24 w))]"

definition un32 :: "char \<Rightarrow> char \<Rightarrow> char \<Rightarrow> char \<Rightarrow> u32" where
  "un32 b0 b1 b2 b3 =
     or (ucast (u8_of b0))
       (or (push_bit 8 (ucast (u8_of b1)))
         (or (push_bit 16 (ucast (u8_of b2))) (push_bit 24 (ucast (u8_of b3)))))"

lemma length_le16 [simp, wf_bounds]: "length (le16 w) = 2"
  by (simp add: le16_def)

lemma length_le32 [simp, wf_bounds]: "length (le32 w) = 4"
  by (simp add: le32_def)

lemma u16_split: "or (ucast (ucast w :: u8)) (push_bit 8 (ucast (ucast (drop_bit 8 w) :: u8))) = (w :: u16)"
proof (rule bit_word_eqI)
  fix n assume n: "n < LENGTH(16)"
  show "bit (or (ucast (ucast w :: u8)) (push_bit 8 (ucast (ucast (drop_bit 8 w) :: u8))) :: u16) n = bit w n"
    using n by (cases "n < 8")
      (auto simp: bit_or_iff bit_ucast_iff bit_push_bit_iff bit_drop_bit_eq dest: bit_imp_le_length)
qed

lemma un16_le16 [simp]:
  "un16 (byte_of (ucast w)) (byte_of (ucast (drop_bit 8 w))) = w"
  by (simp add: un16_def u16_split)

lemma u32_split:
  "or (ucast (ucast w :: u8))
     (or (push_bit 8 (ucast (ucast (drop_bit 8 w) :: u8)))
       (or (push_bit 16 (ucast (ucast (drop_bit 16 w) :: u8)))
         (push_bit 24 (ucast (ucast (drop_bit 24 w) :: u8))))) = (w :: u32)"
proof (rule bit_word_eqI)
  fix n assume n: "n < LENGTH(32)"
  consider "n < 8" | "8 \<le> n" "n < 16" | "16 \<le> n" "n < 24" | "24 \<le> n" "n < 32"
    using n by force
  then show "bit (or (ucast (ucast w :: u8))
     (or (push_bit 8 (ucast (ucast (drop_bit 8 w) :: u8)))
       (or (push_bit 16 (ucast (ucast (drop_bit 16 w) :: u8)))
         (push_bit 24 (ucast (ucast (drop_bit 24 w) :: u8))))) :: u32) n = bit w n"
    by cases (auto simp: bit_or_iff bit_ucast_iff bit_push_bit_iff bit_drop_bit_eq
        dest: bit_imp_le_length)
qed

lemma un32_le32 [simp]:
  "un32 (byte_of (ucast w)) (byte_of (ucast (drop_bit 8 w)))
     (byte_of (ucast (drop_bit 16 w))) (byte_of (ucast (drop_bit 24 w))) = w"
  by (simp add: un32_def u32_split)

section \<open>Outcomes of a call\<close>

text \<open>
  A C call returns, blocks for ever (a receive on an empty queue), leaves the defined
  behaviour of the language (an access outside an array, a read past a terminator),
  throws a C++ exception, or ends the process.
\<close>

datatype fault = Out_Of_Bounds | Overlap | Exception | Exit

datatype 'a outcome = Ret 'a | Blocked | Fault fault

fun bindo :: "'a outcome \<Rightarrow> ('a \<Rightarrow> 'b outcome) \<Rightarrow> 'b outcome" where
  "bindo (Ret x) f = f x"
| "bindo Blocked f = Blocked"
| "bindo (Fault e) f = Fault e"

lemma bindo_eq_Ret: "bindo m f = Ret y \<longleftrightarrow> (\<exists>x. m = Ret x \<and> f x = Ret y)"
  by (cases m) auto

lemma bindo_assoc: "bindo (bindo m f) g = bindo m (\<lambda>x. bindo (f x) g)"
  by (cases m) auto

section \<open>Step systems\<close>

text \<open>
  The event-driven components (the browser script, the message loops) are step
  functions over a state with a guard on the events the environment may produce.  A
  locale states what an invariant needs; runs and their induction are proved once.
\<close>

fun run :: "('s \<Rightarrow> 'e \<Rightarrow> 's) \<Rightarrow> 's \<Rightarrow> 'e list \<Rightarrow> 's" where
  "run f s [] = s"
| "run f s (e # es) = run f (f s e) es"

fun admissible :: "('s \<Rightarrow> 'e \<Rightarrow> bool) \<Rightarrow> ('s \<Rightarrow> 'e \<Rightarrow> 's) \<Rightarrow> 's \<Rightarrow> 'e list \<Rightarrow> bool" where
  "admissible g f s [] = True"
| "admissible g f s (e # es) = (g s e \<and> admissible g f (f s e) es)"

lemma run_append: "run f s (xs @ ys) = run f (run f s xs) ys"
  by (induction xs arbitrary: s) auto

lemma admissible_append:
  "admissible g f s (xs @ ys) \<longleftrightarrow> admissible g f s xs \<and> admissible g f (run f s xs) ys"
  by (induction xs arbitrary: s) auto

locale step_system =
  fixes enabled :: "'s \<Rightarrow> 'e \<Rightarrow> bool"
    and next_state :: "'s \<Rightarrow> 'e \<Rightarrow> 's"
    and inv :: "'s \<Rightarrow> bool"
  assumes inv_step: "inv s \<Longrightarrow> enabled s e \<Longrightarrow> inv (next_state s e)"
begin

lemma inv_run: "inv s \<Longrightarrow> admissible enabled next_state s es \<Longrightarrow> inv (run next_state s es)"
  by (induction es arbitrary: s) (auto simp: inv_step)

lemma run_rel:
  assumes "inv s" "admissible enabled next_state s es"
    and refl: "\<And>s. R s s"
    and trans: "\<And>a b c. R a b \<Longrightarrow> R b c \<Longrightarrow> R a c"
    and step: "\<And>s e. inv s \<Longrightarrow> enabled s e \<Longrightarrow> R s (next_state s e)"
  shows "R s (run next_state s es)"
  using assms(1,2)
proof (induction es arbitrary: s)
  case Nil
  show ?case by (simp add: refl)
next
  case (Cons e es)
  then have "R s (next_state s e)" "inv (next_state s e)"
    by (auto simp: step inv_step)
  with Cons show ?case by (auto intro: trans)
qed

end

section \<open>Lists\<close>

lemma takeWhile_neq_all [simp]: "c \<notin> set a \<Longrightarrow> takeWhile (\<lambda>x. x \<noteq> c) a = a"
  by (induction a) auto

lemma takeWhile_neq_stop [simp]:
  "c \<notin> set a \<Longrightarrow> takeWhile (\<lambda>x. x \<noteq> c) (a @ c # b) = a"
  by (induction a) auto

lemma dropWhile_neq_all [simp]: "c \<notin> set a \<Longrightarrow> dropWhile (\<lambda>x. x \<noteq> c) a = []"
  by (induction a) auto

lemma dropWhile_neq_stop [simp]:
  "c \<notin> set a \<Longrightarrow> dropWhile (\<lambda>x. x \<noteq> c) (a @ c # b) = c # b"
  by (induction a) auto

lemma dropWhile_neq_cases:
  obtains "c \<notin> set s" | a b where "s = a @ c # b" "c \<notin> set a"
  by (metis split_list_first)

lemma length_dropWhile_le' [wf_bounds]: "length (dropWhile P xs) \<le> length xs"
  by (induction xs) auto

end
