(* ===== verification/Canvas_App.thy ===== *)
theory Canvas_App
  imports WF_Prelude
begin

text \<open>
  The browser script \<open>canvas/assets/cytoscape_app.js\<close>.  Its state is the script's global
  variables (among them \<open>xhr\<close>, an implicit global that every call of \<open>query_graph\<close>
  overwrites), the \<open>XMLHttpRequest\<close> objects created so far, and the sequence of calls made
  to the cytoscape library.  The events are those a page can see: a tick of the interval
  timer, a click on one of the two buttons, and a change of \<open>readyState\<close> of one request.
  \<open>JSON.parse\<close> is a parameter: \<open>None\<close> is the \<open>SyntaxError\<close> it throws.
\<close>

section \<open>State\<close>

record xhr_obj =
  ready :: nat
  request_line :: "string \<times> string"
  has_handler :: bool
  sent :: bool
  response_text :: string

text \<open>The calls on the library: its constructor, \<open>cyInstance.json\<close> and \<open>layout(...).run()\<close>.\<close>

datatype 'g cy_call =
    Create string "(string \<times> (string \<times> string) list) list"
  | Json 'g
  | Layout string bool string

record 'g app =
  xhr :: "nat option"
  xhrs :: "xhr_obj list"
  layout_name :: string
  first_run :: bool
  timer :: "nat option"
  calls :: "'g cy_call list"
  uncaught :: nat

datatype event = Tick | ClickPosition | ClickTree | Net nat nat string

definition fresh_xhr :: xhr_obj where
  "fresh_xhr = \<lparr>ready = 0, request_line = ('''', ''''), has_handler = False, sent = False,
                response_text = ''''\<rparr>"

definition upd_xhr :: "(xhr_obj \<Rightarrow> xhr_obj) \<Rightarrow> 'g app \<Rightarrow> 'g app" where
  \<comment> \<open>a method call or an assignment on the object the variable \<open>xhr\<close> denotes\<close>
  "upd_xhr f s = (case xhr s of None \<Rightarrow> s | Some x \<Rightarrow> s\<lparr>xhrs := (xhrs s)[x := f (xhrs s ! x)]\<rparr>)"

section \<open>The script\<close>

text \<open>\<open>open\<close> fires \<open>readystatechange\<close> before the handler is assigned, so nothing runs.\<close>

definition query_graph :: "'g app \<Rightarrow> 'g app" where
  "query_graph s =
     (let s1 = s\<lparr>xhrs := xhrs s @ [fresh_xhr], xhr := Some (length (xhrs s))\<rparr>;
          s2 = upd_xhr (\<lambda>x. x\<lparr>ready := 1, request_line := (''GET'', ''./graph'')\<rparr>) s1;
          s3 = upd_xhr (\<lambda>x. x\<lparr>has_handler := True\<rparr>) s2
      in upd_xhr (\<lambda>x. x\<lparr>sent := True\<rparr>) s3)"

definition onreadystatechange :: "(string \<Rightarrow> 'g option) \<Rightarrow> 'g app \<Rightarrow> 'g app" where
  "onreadystatechange parse s =
     (case xhr s of
        None \<Rightarrow> s
      | Some x \<Rightarrow>
          if ready (xhrs s ! x) = 4
          then (case parse (response_text (xhrs s ! x)) of
                  None \<Rightarrow> s\<lparr>uncaught := uncaught s + 1\<rparr>
                | Some g \<Rightarrow>
                    s\<lparr>calls := calls s @ [Json g, Layout (layout_name s) (first_run s) ''BT''],
                      first_run := False\<rparr>)
          else s)"

definition view_position :: "'g app \<Rightarrow> 'g app" where
  "view_position s = query_graph (s\<lparr>layout_name := ''preset'', first_run := True\<rparr>)"

definition view_tree :: "'g app \<Rightarrow> 'g app" where
  "view_tree s = query_graph (s\<lparr>layout_name := ''dagre'', first_run := True\<rparr>)"

definition cy_style :: "(string \<times> (string \<times> string) list) list" where
  "cy_style =
     [(''node'', [(''background-color'', ''#0471A6''), (''label'', ''data(id)''),
                  (''text-halign'', ''center''), (''text-valign'', ''center'')]),
      (''edge'', [(''line-color'', ''#43AA8B''), (''target-arrow-color'', ''#43AA8B''),
                  (''target-arrow-shape'', ''triangle''), (''curve-style'', ''bezier'')])]"

definition app_start :: "'g app" where
  "app_start =
     (let s0 = \<lparr>xhr = None, xhrs = [], layout_name = ''preset'', first_run = True, timer = None,
                calls = [Create ''cy'' cy_style], uncaught = 0\<rparr>;
          s1 = query_graph s0
      in s1\<lparr>timer := Some 1000\<rparr>)"

section \<open>The event loop\<close>

definition enabled :: "'g app \<Rightarrow> event \<Rightarrow> bool" where
  "enabled s e = (case e of
     Tick \<Rightarrow> timer s \<noteq> None
   | ClickPosition \<Rightarrow> True
   | ClickTree \<Rightarrow> True
   | Net i k t \<Rightarrow> i < length (xhrs s) \<and> sent (xhrs s ! i) \<and> 2 \<le> k \<and> k \<le> 4
       \<and> (ready (xhrs s ! i) < k \<or> ready (xhrs s ! i) = 3 \<and> k = 3))"

definition net_change :: "(string \<Rightarrow> 'g option) \<Rightarrow> nat \<Rightarrow> nat \<Rightarrow> string \<Rightarrow> 'g app \<Rightarrow> 'g app" where
  "net_change parse i k t s =
     (let x = (xhrs s ! i)\<lparr>ready := k, response_text := t\<rparr>;
          s1 = s\<lparr>xhrs := (xhrs s)[i := x]\<rparr>
      in if has_handler x then onreadystatechange parse s1 else s1)"

fun app_step :: "(string \<Rightarrow> 'g option) \<Rightarrow> 'g app \<Rightarrow> event \<Rightarrow> 'g app" where
  "app_step parse s Tick = query_graph s"
| "app_step parse s ClickPosition = view_position s"
| "app_step parse s ClickTree = view_tree s"
| "app_step parse s (Net i k t) = net_change parse i k t s"

section \<open>Invariant\<close>

definition app_inv :: "'g app \<Rightarrow> bool" where
  "app_inv s \<longleftrightarrow>
     xhrs s \<noteq> [] \<and> xhr s = Some (length (xhrs s) - 1) \<and>
     (\<forall>x \<in> set (xhrs s). 1 \<le> ready x \<and> ready x \<le> 4 \<and> has_handler x \<and> sent x
                          \<and> request_line x = (''GET'', ''./graph'')) \<and>
     layout_name s \<in> {''preset'', ''dagre''} \<and> timer s = Some 1000"

definition new_request :: xhr_obj where
  "new_request = \<lparr>ready = 1, request_line = (''GET'', ''./graph''), has_handler = True, sent = True,
                  response_text = ''''\<rparr>"

lemma query_graph_eq:
  "query_graph s = s\<lparr>xhrs := xhrs s @ [new_request], xhr := Some (length (xhrs s))\<rparr>"
  by (simp add: query_graph_def upd_xhr_def Let_def fresh_xhr_def new_request_def)

lemmas app_defs = query_graph_eq view_position_def view_tree_def net_change_def
  onreadystatechange_def Let_def

lemma onready_fields [simp]:
  "xhr (onreadystatechange parse s) = xhr s"
  "xhrs (onreadystatechange parse s) = xhrs s"
  "layout_name (onreadystatechange parse s) = layout_name s"
  "timer (onreadystatechange parse s) = timer s"
  by (auto simp: onreadystatechange_def split: option.splits)

lemma net_change_fields [simp]:
  "xhr (net_change parse i k t s) = xhr s"
  "layout_name (net_change parse i k t s) = layout_name s"
  "timer (net_change parse i k t s) = timer s"
  "xhrs (net_change parse i k t s) =
     (xhrs s)[i := (xhrs s ! i)\<lparr>ready := k, response_text := t\<rparr>]"
  by (auto simp: net_change_def Let_def)

lemma app_inv_start [simp]: "app_inv app_start"
  by (simp add: app_start_def Let_def query_graph_eq app_inv_def new_request_def)

lemma app_inv_query_graph: "app_inv s \<Longrightarrow> app_inv (query_graph s)"
  by (auto simp: app_inv_def query_graph_eq new_request_def)

lemma app_inv_view:
  "app_inv s \<Longrightarrow> app_inv (view_position s)" "app_inv s \<Longrightarrow> app_inv (view_tree s)"
  by (auto simp: app_inv_def view_position_def view_tree_def query_graph_eq new_request_def)

lemma app_inv_net: "app_inv s \<Longrightarrow> enabled s (Net i k t) \<Longrightarrow> app_inv (net_change parse i k t s)"
  by (auto simp: app_inv_def enabled_def dest!: set_update_subset_insert [THEN subsetD])

lemma app_inv_step: "app_inv s \<Longrightarrow> enabled s e \<Longrightarrow> app_inv (app_step parse s e)"
  by (cases e) (auto simp: app_inv_query_graph app_inv_view app_inv_net)

interpretation page: step_system enabled "app_step parse" app_inv for parse
  by unfold_locales (rule app_inv_step)

abbreviation page_run :: "(string \<Rightarrow> 'g option) \<Rightarrow> event list \<Rightarrow> 'g app" where
  "page_run parse es \<equiv> run (app_step parse) app_start es"

abbreviation page_trace :: "(string \<Rightarrow> 'g option) \<Rightarrow> event list \<Rightarrow> bool" where
  "page_trace parse es \<equiv> admissible enabled (app_step parse) app_start es"

lemma page_inv: "page_trace parse es \<Longrightarrow> app_inv (page_run parse es)"
  by (rule page.inv_run) simp

section \<open>What a network event does\<close>

definition newest :: "'g app \<Rightarrow> xhr_obj" where
  "newest s = last (xhrs s)"

lemma app_inv_newest:
  "app_inv s \<Longrightarrow> xhr s = Some (length (xhrs s) - 1) \<and> xhrs s ! (length (xhrs s) - 1) = newest s"
  by (auto simp: app_inv_def newest_def last_conv_nth)

lemma net_change_calls:
  fixes parse :: "string \<Rightarrow> 'g option"
  assumes "app_inv s" "enabled s (Net i k t)"
    and s': "s' = net_change parse i k t s"
  shows "calls s' = (if ready (newest s') = 4
           then (case parse (response_text (newest s')) of
                   None \<Rightarrow> calls s
                 | Some g \<Rightarrow> calls s @ [Json g, Layout (layout_name s) (first_run s) ''BT''])
           else calls s)"
    and "first_run s' = (first_run s \<and> calls s' = calls s)"
    and "uncaught s' = (if ready (newest s') = 4 \<and> parse (response_text (newest s')) = None
           then uncaught s + 1 else uncaught s)"
proof -
  have inv': "app_inv s'" using assms(1,2) by (simp add: s' app_inv_net)
  from assms(1,2) have "has_handler (xhrs s ! i)" by (auto simp: app_inv_def enabled_def)
  then have eq: "s' = onreadystatechange parse
      (s\<lparr>xhrs := (xhrs s)[i := (xhrs s ! i)\<lparr>ready := k, response_text := t\<rparr>]\<rparr>)"
    by (simp add: s' net_change_def Let_def)
  from app_inv_newest [OF inv'] show "calls s' = (if ready (newest s') = 4
           then (case parse (response_text (newest s')) of
                   None \<Rightarrow> calls s
                 | Some g \<Rightarrow> calls s @ [Json g, Layout (layout_name s) (first_run s) ''BT''])
           else calls s)" and "first_run s' = (first_run s \<and> calls s' = calls s)"
      and "uncaught s' = (if ready (newest s') = 4 \<and> parse (response_text (newest s')) = None
           then uncaught s + 1 else uncaught s)"
    by (auto simp: eq onreadystatechange_def split: option.splits)
qed

lemma newest_net_other:
  "i < length (xhrs s) - 1 \<Longrightarrow> newest (net_change parse i k t s) = newest s"
  by (cases "xhrs s = []") (auto simp: newest_def last_conv_nth)

lemma newest_net_self:
  "xhrs s \<noteq> [] \<Longrightarrow> i = length (xhrs s) - 1 \<Longrightarrow>
   newest (net_change parse i k t s) = (newest s)\<lparr>ready := k, response_text := t\<rparr>"
  by (auto simp: newest_def last_conv_nth)

lemma newest_query_graph [simp]: "newest (query_graph s) = new_request"
  by (simp add: newest_def query_graph_eq)

lemma calls_clicks [simp]:
  "calls (query_graph s) = calls s" "calls (view_position s) = calls s" "calls (view_tree s) = calls s"
  "first_run (query_graph s) = first_run s"
  "first_run (view_position s)" "first_run (view_tree s)"
  "length (xhrs (query_graph s)) = Suc (length (xhrs s))"
  by (auto simp: view_position_def view_tree_def query_graph_eq)

section \<open>Properties\<close>

text \<open>
  C2: The page never shows the answer of a superseded request.  Whenever an event makes the
  script call the library, the graph it passes to \<open>cyInstance.json\<close> is the parsed response
  of the request issued last, that request is complete, and one layout run with the layout
  chosen last follows.
\<close>

theorem page_shows_newest_response:
  assumes "page_trace parse es" "enabled (page_run parse es) (Net i k t)"
    and "calls (page_run parse (es @ [Net i k t])) \<noteq> calls (page_run parse es)"
  shows "\<exists>g. ready (newest (page_run parse (es @ [Net i k t]))) = 4
     \<and> parse (response_text (newest (page_run parse (es @ [Net i k t])))) = Some g
     \<and> calls (page_run parse (es @ [Net i k t]))
       = calls (page_run parse es)
         @ [Json g, Layout (layout_name (page_run parse es)) (first_run (page_run parse es)) ''BT'']"
  using assms(3) net_change_calls [OF page_inv [OF assms(1)] assms(2) refl, of parse]
  by (auto simp: run_append split: if_splits option.splits)

theorem page_shows_newest_response_witness:
  "calls (page_run (\<lambda>t. Some t) ([Tick] @ [Net 1 4 ''g''])) =
     [Create ''cy'' cy_style, Json ''g'', Layout ''preset'' True ''BT'']"
proof -
  let ?p = "\<lambda>t. Some t :: string option"
  have tr: "page_trace ?p [Tick]"
    by (simp add: enabled_def app_start_def query_graph_eq)
  have en: "enabled (page_run ?p [Tick]) (Net 1 4 ''g'')"
    by (simp add: enabled_def app_start_def query_graph_eq new_request_def)
  have ch: "calls (page_run ?p ([Tick] @ [Net 1 4 ''g''])) \<noteq> calls (page_run ?p [Tick])"
    by (simp add: app_start_def app_defs new_request_def)
  from page_shows_newest_response [OF tr en ch]
  show ?thesis by (simp add: app_start_def app_defs new_request_def newest_def)
qed

fun is_fit :: "'g cy_call \<Rightarrow> bool" where
  "is_fit (Layout _ f _) = f"
| "is_fit _ = False"

definition fits :: "'g app \<Rightarrow> nat" where
  "fits s = length (filter is_fit (calls s))"

fun is_click :: "event \<Rightarrow> bool" where
  "is_click ClickPosition = True"
| "is_click ClickTree = True"
| "is_click _ = False"

lemma fits_step:
  assumes "app_inv s" "enabled s e"
  shows "fits (app_step parse s e) + of_bool (first_run (app_step parse s e))
         \<le> fits s + of_bool (first_run s) + of_bool (is_click e)"
proof (cases e)
  case (Net i k t)
  with net_change_calls [OF assms(1) _ refl, of i k t parse] assms(2) show ?thesis
    by (auto simp: fits_def split: option.splits if_splits)
qed (auto simp: fits_def)

text \<open>
  C18: The view is fitted to the window at most once when the page is loaded and once for
  each click on a view button; the periodic refreshes never move the user's viewport.
\<close>

theorem fits_at_most_clicks:
  assumes "page_trace parse es"
  shows "fits (page_run parse es) \<le> 1 + length (filter is_click es)"
proof -
  have "fits (run (app_step parse) s es) + of_bool (first_run (run (app_step parse) s es))
      \<le> fits s + of_bool (first_run s) + length (filter is_click es)"
    if "app_inv s" "admissible enabled (app_step parse) s es" for s
    using that
  proof (induction es arbitrary: s)
    case (Cons e es)
    then have "app_inv s" "enabled s e" "app_inv (app_step parse s e)"
      "admissible enabled (app_step parse) (app_step parse s e) es"
      by (auto simp: app_inv_step)
    note fits_step [OF this(1,2), of parse] Cons.IH [OF this(3,4)]
    moreover have "length (filter is_click (e # es)) = of_bool (is_click e) + length (filter is_click es)"
      by simp
    ultimately show ?case by (simp only: run.simps)
  qed simp
  from this [OF app_inv_start assms] show ?thesis
    by (simp add: fits_def app_start_def Let_def query_graph_eq)
qed

theorem fits_at_most_clicks_witness:
  "fits (page_run (\<lambda>t. Some t) [Net 0 4 ''a'', Tick, Net 1 4 ''b'', ClickTree, Net 2 4 ''c'']) \<le> 2"
proof -
  have "page_trace (\<lambda>t. Some t :: string option)
          [Net 0 4 ''a'', Tick, Net 1 4 ''b'', ClickTree, Net 2 4 ''c'']"
    by (simp add: enabled_def app_start_def app_defs new_request_def)
  from fits_at_most_clicks [OF this] show ?thesis by simp
qed

text \<open>
  Every answer is complete only when a newer request is there already; \<open>n\<close> is the number of requests
  sent, by ticks and by clicks.
\<close>

fun late :: "nat \<Rightarrow> event list \<Rightarrow> bool" where
  "late n [] = True"
| "late n (Net i k t # es) = ((k = 4 \<longrightarrow> Suc i < n) \<and> late n es)"
| "late n (e # es) = late (Suc n) es"

lemma late_step:
  assumes "app_inv s" "enabled s e" "ready (newest s) \<noteq> 4" "late (length (xhrs s)) (e # es)"
  shows "ready (newest (app_step parse s e)) \<noteq> 4 \<and> late (length (xhrs (app_step parse s e))) es \<and>
    calls (app_step parse s e) = calls s \<and> uncaught (app_step parse s e) = uncaught s"
proof (cases e)
  case (Net i k t)
  let ?s = "net_change parse i k t s"
  have n: "ready (newest ?s) \<noteq> 4"
  proof (cases "i < length (xhrs s) - 1")
    case True
    then show ?thesis using newest_net_other [OF True, of parse k t] assms(3) by simp
  next
    case False
    then have "i = length (xhrs s) - 1" "xhrs s \<noteq> []" "k \<noteq> 4" using assms Net by (auto simp: enabled_def app_inv_def)
    then show ?thesis using newest_net_self [of s i parse k t] by simp
  qed
  with net_change_calls(1,3) [OF assms(1) assms(2) [unfolded Net] refl, of parse] assms(4) show ?thesis by (simp add: Net)
qed (use assms in \<open>auto simp: view_position_def view_tree_def newest_def query_graph_eq new_request_def\<close>)

text \<open>
  C37: The refresh starves when the server is slow: in every run of the page in which no answer is
  complete before the next tick or click has sent a newer request, in whatever order the answers
  come and through whatever states they go, nothing is ever drawn and no error is raised (the
  handler looks at the newer request that \<open>xhr\<close> denotes by then).
\<close>

theorem slow_server_never_draws:
  assumes "page_trace parse es" "late 1 es"
  shows "calls (page_run parse es) = [Create ''cy'' cy_style] \<and> uncaught (page_run parse es) = 0"
proof -
  have "calls (run (app_step parse) s es) = calls s \<and> uncaught (run (app_step parse) s es) = uncaught s"
    if "app_inv s" "admissible enabled (app_step parse) s es" "ready (newest s) \<noteq> 4" "late (length (xhrs s)) es" for s
    using that
  proof (induction es arbitrary: s)
    case (Cons e es)
    then have "enabled s e" "admissible enabled (app_step parse) (app_step parse s e) es" by auto
    with Cons.IH [OF app_inv_step [OF Cons.prems(1)]] late_step [OF Cons.prems(1) _ Cons.prems(3,4), of parse]
    show ?case by simp
  qed simp
  moreover have "ready (newest app_start) \<noteq> 4" "length (xhrs app_start) = 1"
    "calls app_start = [Create ''cy'' cy_style]" "uncaught app_start = 0"
    by (simp_all add: app_start_def Let_def query_graph_eq newest_def new_request_def)
  ultimately show ?thesis using app_inv_start assms by metis
qed

lemma slow_server_never_draws_witness:
  "calls (page_run (\<lambda>t. Some t) [Net 0 2 [], Tick, Net 0 3 ''a'', ClickTree, Net 1 4 ''b'', Net 0 4 ''a'', Tick, Net 2 4 ''c''])
   = [Create ''cy'' cy_style]"
proof -
  let ?es = "[Net 0 2 [], Tick, Net 0 3 ''a'', ClickTree, Net 1 4 ''b'', Net 0 4 ''a'', Tick, Net 2 4 ''c'']"
  have "page_trace (\<lambda>t. Some t :: string option) ?es"
    by (simp add: enabled_def app_start_def app_defs new_request_def)
  moreover have "late 1 ?es" by simp
  ultimately show ?thesis using slow_server_never_draws [of "\<lambda>t. Some t" ?es] by simp
qed

text \<open>There are such runs of every length: each answer one tick late.\<close>

fun slow_rounds :: "nat \<Rightarrow> string list \<Rightarrow> event list" where
  "slow_rounds n [] = []"
| "slow_rounds n (t # ts) = Tick # Net n 4 t # slow_rounds (Suc n) ts"

lemma slow_rounds_late: "late (Suc n) (slow_rounds n ts)"
  by (induction n ts rule: slow_rounds.induct) simp_all

lemma slow_rounds_run:
  assumes "app_inv s" "length (xhrs s) = Suc n" "ready (newest s) = 1"
  shows "admissible enabled (app_step parse) s (slow_rounds n ts)"
  using assms
proof (induction ts arbitrary: s n)
  case (Cons t ts)
  define q where "q = query_graph s"
  have q: "app_inv q" "length (xhrs q) = Suc (Suc n)" "newest q = new_request"
    using Cons.prems by (auto simp: q_def app_inv_query_graph)
  have "xhrs s ! n = newest s"
    using Cons.prems by (auto simp: newest_def last_conv_nth app_inv_def)
  then have "ready (xhrs q ! n) = 1"
    using Cons.prems by (simp add: q_def query_graph_eq nth_append)
  then have en: "enabled q (Net n 4 t)"
    using q by (auto simp: enabled_def app_inv_def)
  have "ready (newest (net_change parse n 4 t q)) = 1"
    using q newest_net_other [of n q parse 4 t] by (simp add: new_request_def)
  moreover have "enabled s Tick"
    using Cons.prems by (auto simp: enabled_def app_inv_def)
  ultimately show ?case
    using Cons.IH [OF app_inv_net [OF q(1) en]] en q(2) by (simp add: q_def [symmetric])
qed simp

text \<open>
  After a click on \<open>Tree View\<close> the next answer is drawn with the dagre layout, bottom to
  top and fitted; the answer to the following tick is drawn with the same layout and
  without fitting.
\<close>

theorem tree_view_then_refresh:
  assumes "page_trace parse es" "parse t = Some g" "parse t' = Some g'"
    and "n = length (xhrs (page_run parse es))"
  shows "page_trace parse (es @ [ClickTree, Net n 4 t, Tick, Net (Suc n) 4 t'])
    \<and> calls (page_run parse (es @ [ClickTree, Net n 4 t, Tick, Net (Suc n) 4 t']))
      = calls (page_run parse es) @ [Json g, Layout ''dagre'' True ''BT'',
                                     Json g', Layout ''dagre'' False ''BT'']"
proof -
  have "app_inv (page_run parse es)" by (rule page_inv [OF assms(1)])
  with assms show ?thesis
    by (simp add: run_append admissible_append enabled_def app_defs new_request_def app_inv_def
        nth_append)
qed

theorem tree_view_then_refresh_witness:
  "calls (page_run (\<lambda>t. Some t) ([Net 0 4 ''a''] @ [ClickTree, Net 1 4 ''b'', Tick, Net (Suc 1) 4 ''c'']))
   = [Create ''cy'' cy_style, Json ''a'', Layout ''preset'' True ''BT'', Json ''b'',
      Layout ''dagre'' True ''BT'', Json ''c'', Layout ''dagre'' False ''BT'']"
proof -
  let ?p = "\<lambda>t. Some t :: string option"
  have tr: "page_trace ?p [Net 0 4 ''a'']"
    by (simp add: enabled_def app_start_def app_defs new_request_def)
  have n: "1 = length (xhrs (page_run ?p [Net 0 4 ''a'']))"
    by (simp add: app_start_def query_graph_eq Let_def)
  from tree_view_then_refresh [OF tr refl refl n, of "''b''" "''c''"]
  show ?thesis by (simp add: app_start_def app_defs new_request_def)
qed

text \<open>
  A response that does not parse (the empty body of the server's status 500, or a failed
  connection) leaves the drawn graph, the chosen layout and the pending fit as they were;
  the script only raises an uncaught \<open>SyntaxError\<close>, and the timer keeps running.
\<close>

theorem bad_response_keeps_view:
  assumes "page_trace parse es" "enabled (page_run parse es) (Net i 4 t)" "parse t = None"
    and "i = length (xhrs (page_run parse es)) - 1"
  shows "calls (page_run parse (es @ [Net i 4 t])) = calls (page_run parse es)
    \<and> layout_name (page_run parse (es @ [Net i 4 t])) = layout_name (page_run parse es)
    \<and> first_run (page_run parse (es @ [Net i 4 t])) = first_run (page_run parse es)
    \<and> uncaught (page_run parse (es @ [Net i 4 t])) = uncaught (page_run parse es) + 1
    \<and> enabled (page_run parse (es @ [Net i 4 t])) Tick"
proof -
  have inv: "app_inv (page_run parse es)" by (rule page_inv [OF assms(1)])
  with assms have "has_handler (xhrs (page_run parse es) ! i)"
    by (auto simp: app_inv_def)
  with inv assms(3,4) show ?thesis
    by (auto simp: run_append net_change_def onreadystatechange_def Let_def app_inv_def enabled_def)
qed

theorem bad_response_keeps_view_witness:
  "uncaught (page_run (\<lambda>t. if t = [] then None else Some t) ([Tick] @ [Net 1 4 []])) = 1"
proof -
  let ?p = "\<lambda>t. if t = [] then None else Some t :: string option"
  have tr: "page_trace ?p [Tick]"
    by (simp add: enabled_def app_start_def query_graph_eq)
  have en: "enabled (page_run ?p [Tick]) (Net 1 4 [])"
    by (simp add: enabled_def app_start_def query_graph_eq new_request_def)
  have n: "1 = length (xhrs (page_run ?p [Tick])) - 1"
    by (simp add: app_start_def query_graph_eq Let_def)
  have "?p [] = None" by simp
  from bad_response_keeps_view [OF tr en this n]
  show ?thesis by (simp add: app_start_def query_graph_eq)
qed

end
