(* ===== verification/Pcap_Util.thy ===== *)
theory Pcap_Util
  imports WF_Prelude
begin

unbundle bit_operations_syntax

text \<open>
  \<open>commline/pcap_util.c\<close>: the CRC of IEEE 802.15.4 frames and the pcap file writer.  The
  table-free byte update is proved equal to the bitwise definition of the CRC, and what
  the writer puts in a file is proved readable.  A file is the list of its bytes; the
  caller's memory from \<open>buf\<close> on is a list of bytes, since \<open>pcap_write\<close> stores into it.
\<close>

section \<open>The checksum\<close>

definition crc16_add :: "u8 \<Rightarrow> u16 \<Rightarrow> u16" where
  "crc16_add b acc0 =
     (let acc1 = acc0 XOR ucast b;
          acc2 = drop_bit 8 acc1 OR push_bit 8 acc1;
          acc3 = acc2 XOR push_bit 4 (acc2 AND 0xff00);
          acc4 = acc3 XOR drop_bit 4 (drop_bit 8 acc3);
          acc5 = acc4 XOR drop_bit 5 (acc4 AND 0xff00)
      in acc5)"

fun crc16_loop :: "u8 list \<Rightarrow> u16 \<Rightarrow> u16" where
  "crc16_loop [] acc = acc"
| "crc16_loop (d # ds) acc = crc16_loop ds (crc16_add d acc)"

definition crc16_data :: "u8 list \<Rightarrow> int \<Rightarrow> u16 \<Rightarrow> u16" where
  "crc16_data data len acc = crc16_loop (take (nat len) data) acc"

text \<open>The polynomial x^16 + x^12 + x^5 + 1, least significant bit first, one bit at a time.\<close>

definition crc_bit :: "u16 \<Rightarrow> u16" where
  "crc_bit a = drop_bit 1 a XOR (if bit a 0 then 0x8408 else 0)"

definition crc_byte_spec :: "u8 \<Rightarrow> u16 \<Rightarrow> u16" where
  "crc_byte_spec b a =
     crc_bit (crc_bit (crc_bit (crc_bit (crc_bit (crc_bit (crc_bit (crc_bit (a XOR ucast b))))))))"

lemma less_16_cases:
  "n < (16::nat) \<Longrightarrow> n = 15 \<or> n = 14 \<or> n = 13 \<or> n = 12 \<or> n = 11 \<or> n = 10 \<or> n = 9 \<or> n = 8
     \<or> n = 7 \<or> n = 6 \<or> n = 5 \<or> n = 4 \<or> n = 3 \<or> n = 2 \<or> n = 1 \<or> n = 0"
  by arith

lemma bit_0x8408: "bit (0x8408 :: u16) n \<longleftrightarrow> n = 3 \<or> n = 10 \<or> n = 15"
  by (cases "n < 16") (auto dest!: less_16_cases dest: bit_imp_le_length)

lemma bit_0xff00: "bit (0xff00 :: u16) n \<longleftrightarrow> 8 \<le> n \<and> n < 16"
  by (cases "n < 16") (auto dest!: less_16_cases dest: bit_imp_le_length)

lemma bit_crc_bit: "bit (crc_bit a) n = (bit a (Suc n) \<noteq> (bit a 0 \<and> (n = 3 \<or> n = 10 \<or> n = 15)))"
  by (auto simp: crc_bit_def bit_xor_iff bit_drop_bit_eq bit_0x8408
      simp del: bit_numeral_word_iff)

lemma bit_u16_out: "16 \<le> n \<Longrightarrow> \<not> bit (a :: u16) n"
  by (auto dest: bit_imp_le_length)

lemma crc_bits_8:
  fixes x :: u16
  defines "y \<equiv> crc_bit (crc_bit (crc_bit (crc_bit (crc_bit (crc_bit (crc_bit (crc_bit x)))))))"
  assumes "n < 16"
  shows "bit y n = bit (crc16_add 0 x) n"
  using less_16_cases [OF assms(2)] unfolding y_def
  by (elim disjE; simp add: bit_crc_bit bit_u16_out crc16_add_def Let_def bit_xor_iff bit_or_iff
        bit_and_iff bit_push_bit_iff bit_drop_bit_eq bit_0xff00 del: bit_numeral_word_iff;
      simp add: eval_nat_numeral; blast?)

lemma crc16_add_xor: "crc16_add b a = crc16_add 0 (a XOR ucast b)"
  by (simp add: crc16_add_def)

lemma crc16_add_byte: "crc16_add b a = crc_byte_spec b a"
  unfolding crc_byte_spec_def
  by (rule bit_word_eqI, subst crc16_add_xor) (simp add: crc_bits_8)

text \<open>The two checksum bytes in memory order (low byte first) bring the register to zero.\<close>

lemma crc16_residue: "crc16_add (ucast (drop_bit 8 c)) (crc16_add (ucast c) c) = 0"
proof -
  have lo: "crc16_add (ucast c) c = crc16_add 0 (c AND 0xff00)"
    by (subst crc16_add_xor, rule arg_cong [where f = "crc16_add 0"], rule bit_word_eqI)
      (auto simp: bit_xor_iff bit_ucast_iff bit_and_iff bit_0xff00 simp del: bit_numeral_word_iff)
  define z where "z = c AND 0xff00"
  have z: "bit z n \<longleftrightarrow> bit c n \<and> 8 \<le> n \<and> n < 16" for n
    by (simp add: z_def bit_and_iff bit_0xff00 del: bit_numeral_word_iff)
  have "crc16_add 0 z = drop_bit 8 c"
  proof (rule bit_word_eqI)
    fix n assume "n < LENGTH(16)"
    then have "n < 16" by simp
    from less_16_cases [OF this] show "bit (crc16_add 0 z) n = bit (drop_bit 8 c) n"
      by (elim disjE; simp add: crc16_add_def Let_def bit_xor_iff bit_or_iff bit_and_iff
          bit_push_bit_iff bit_drop_bit_eq bit_0xff00 bit_u16_out z del: bit_numeral_word_iff;
          simp add: z)
  qed
  moreover have "drop_bit 8 c XOR ucast (ucast (drop_bit 8 c) :: u8) = (0 :: u16)"
    by (rule bit_word_eqI) (auto simp: bit_xor_iff bit_ucast_iff bit_drop_bit_eq dest: bit_imp_le_length)
  moreover have "crc16_add 0 0 = 0" by (simp add: crc16_add_def)
  ultimately show ?thesis using crc16_add_xor [of "ucast (drop_bit 8 c)" "drop_bit 8 c"] lo by (simp add: z_def)
qed

lemma crc16_loop_append: "crc16_loop (xs @ ys) a = crc16_loop ys (crc16_loop xs a)"
  by (induction xs arbitrary: a) auto

definition fcs :: "u8 list \<Rightarrow> u8 list" where
  "fcs xs = [ucast (crc16_loop xs 0), ucast (drop_bit 8 (crc16_loop xs 0))]"

lemma length_fcs [simp]: "length (fcs xs) = 2"
  by (simp add: fcs_def)

section \<open>The file writer\<close>

definition write_int :: "int \<Rightarrow> char list" where
  "write_int v = le32 (word_of_int v)"

definition write_short :: "int \<Rightarrow> char list" where
  "write_short v = le16 (word_of_int v)"

definition pcap_init :: "bool \<Rightarrow> char list option" where
  \<comment> \<open>the argument says whether \<open>fopen\<close> succeeds; the result is the handle's file\<close>
  "pcap_init can_open =
     (if can_open
      then Some (write_int 0xa1b2c3d4 @ write_short 2 @ write_short 4 @ write_int 0 @ write_int 0 @
                 write_int 4096 @ write_int 195)
      else None)"

text \<open>
  \<open>buflen\<close> is an unbounded integer here; the C \<open>int\<close> holds it, and the two bytes added, only below
  \<open>2 ^ 31\<close>, so what is proved of longer packets says nothing of the program.
\<close>

definition pcap_write ::
  "int \<times> int \<Rightarrow> char list option \<Rightarrow> u8 list \<Rightarrow> int \<Rightarrow> (char list option \<times> u8 list) outcome" where
  "pcap_write tv handle memory buflen = (case handle of
     None \<Rightarrow> Ret (None, memory)
   | Some file \<Rightarrow>
       if buflen < 0 \<or> int (length memory) < buflen + 2 then Fault Out_Of_Bounds
       else
         let crc = crc16_data memory buflen 0;
             n = nat buflen;
             memory1 = memory[n := ucast crc, n + 1 := ucast (drop_bit 8 crc)];
             len = buflen + 2
         in Ret (Some (file @ write_int (fst tv) @ write_int (snd tv) @ write_int len @ write_int len
                       @ map byte_of (take (nat len) memory1)), memory1))"

text \<open>A run of the writer over the packets of a node, each in its own memory.\<close>

fun pcap_writes :: "((int \<times> int) \<times> u8 list \<times> int) list \<Rightarrow> char list option \<Rightarrow> char list option outcome" where
  "pcap_writes [] h = Ret h"
| "pcap_writes ((tv, memory, n) # ps) h =
     bindo (pcap_write tv h memory n) (\<lambda>(h', memory'). pcap_writes ps h')"

section \<open>Reading it back\<close>

definition read32 :: "char list \<Rightarrow> u32" where
  "read32 b = un32 (b ! 0) (b ! 1) (b ! 2) (b ! 3)"

function records :: "char list \<Rightarrow> (u32 \<times> u32 \<times> u8 list) list option" where
  "records b =
     (if b = [] then Some []
      else if length b < 16 then None
      else
        let len = unat (read32 (drop 8 b)); r = drop 16 b
        in if read32 (drop 12 b) \<noteq> read32 (drop 8 b) \<or> length r < len then None
           else map_option (Cons (read32 b, read32 (drop 4 b), map u8_of (take len r)))
                  (records (drop len r)))"
  by pat_completeness auto
termination
  by (relation "measure length") auto

declare records.simps [simp del]

lemma read32_write_int [simp]: "read32 (write_int v @ r) = word_of_int v"
  by (simp add: read32_def write_int_def le32_def)

lemma length_write_int [simp]: "length (write_int v) = 4"
  by (simp add: write_int_def)

lemma write_int_nonempty [simp]: "write_int v \<noteq> []"
  by (simp add: write_int_def le32_def)

lemma drop_write_int [simp]:
  "4 \<le> n \<Longrightarrow> drop n (write_int v @ r) = drop (n - 4) r"
  by simp

lemma records_frame:
  assumes "length f < 2 ^ 32"
  shows "records (write_int s @ write_int u @ write_int (int (length f)) @ write_int (int (length f))
                  @ map byte_of f @ r)
         = map_option (Cons (word_of_int s, word_of_int u, f)) (records r)"
proof -
  have "unat (word_of_nat (length f) :: u32) = length f"
    using assms by (simp add: unat_of_nat take_bit_nat_eq_self)
  then show ?thesis
    by (subst records.simps) (auto simp: Let_def comp_def)
qed

lemma pcap_write_frame:
  assumes "memory = f @ [x, y] @ rest"
  shows "pcap_write tv (Some file) memory (int (length f))
     = Ret (Some (file @ write_int (fst tv) @ write_int (snd tv) @ write_int (int (length (f @ fcs f)))
              @ write_int (int (length (f @ fcs f))) @ map byte_of (f @ fcs f)), f @ fcs f @ rest)"
proof -
  have "nat (int (length f) + 2) = length f + 2" by simp
  then show ?thesis
    by (simp add: assms pcap_write_def Let_def crc16_data_def fcs_def list_update_append add.commute)
qed

section \<open>Properties\<close>

text \<open>
  C29: The shift-and-mask byte update of \<open>crc16_add\<close> computes the CRC of the CCITT polynomial:
  for every byte and register value it equals eight steps of the one-bit shift register,
  and so does \<open>crc16_data\<close> over any data.
\<close>

theorem crc16_is_ccitt:
  "crc16_add b a = crc_byte_spec b a
   \<and> crc16_data ds (int (length ds)) a = fold crc_byte_spec ds a"
proof -
  have "crc16_loop ds a = fold crc_byte_spec ds a"
    by (induction ds arbitrary: a) (auto simp: crc16_add_byte)
  then show ?thesis by (simp add: crc16_add_byte crc16_data_def)
qed

lemma pcap_writes_records:
  assumes "\<forall>(tv, f, x, y, rest) \<in> set ps. length f + 2 < 2 ^ 32"
  shows "\<exists>file. pcap_writes (map (\<lambda>(tv, f, x, y, rest). (tv, f @ [x, y] @ rest, int (length f))) ps)
            (Some h) = Ret (Some (h @ file))
     \<and> records (file @ r) = map_option
         ((@) (map (\<lambda>(tv, f, x, y, rest). (word_of_int (fst tv), word_of_int (snd tv), f @ fcs f)) ps))
         (records r)"
  using assms
proof (induction ps arbitrary: h)
  case Nil
  then show ?case by (simp add: option.map_ident)
next
  case (Cons p ps)
  obtain tv f x y rest where p: "p = (tv, f, x, y, rest)" by (metis prod_cases5)
  let ?rec = "write_int (fst tv) @ write_int (snd tv) @ write_int (int (length (f @ fcs f)))
              @ write_int (int (length (f @ fcs f))) @ map byte_of (f @ fcs f)"
  from Cons obtain out where fl:
    "pcap_writes (map (\<lambda>(tv, f, x, y, rest). (tv, f @ [x, y] @ rest, int (length f))) ps)
       (Some (h @ ?rec)) = Ret (Some ((h @ ?rec) @ out))"
    "records (out @ r) = map_option
         ((@) (map (\<lambda>(tv, f, x, y, rest). (word_of_int (fst tv), word_of_int (snd tv), f @ fcs f)) ps))
         (records r)"
    by (metis (no_types, lifting) list.set_intros(2))
  have "length (f @ fcs f) < 2 ^ 32" using Cons.prems by (simp add: p)
  from records_frame [OF this, of "fst tv" "snd tv" "out @ r"] fl
  have "records ((?rec @ out) @ r) = map_option
         ((@) (map (\<lambda>(tv, f, x, y, rest). (word_of_int (fst tv), word_of_int (snd tv), f @ fcs f)) (p # ps)))
         (records r)"
    by (cases "records r") (simp_all add: p)
  moreover have "pcap_writes (map (\<lambda>(tv, f, x, y, rest). (tv, f @ [x, y] @ rest, int (length f))) (p # ps))
            (Some h) = Ret (Some (h @ (?rec @ out)))"
    using fl(1) pcap_write_frame [OF refl, of tv h f x y rest] by (simp add: p)
  ultimately show ?case by blast
qed

text \<open>
  C30: A capture file can be read back: after \<open>pcap_init\<close> and any sequence of \<open>pcap_write\<close>
  calls on packets that leave two bytes of room, the file is the 24-byte header (magic
  number first, link type 195 last) followed by one record per packet, in order, each with
  its time stamp and the packet followed by its checksum, and the checksum of every
  recorded frame is zero.
\<close>

theorem pcap_file_readable:
  assumes "\<forall>(tv, f, x, y, rest) \<in> set ps. length f + 2 < 2 ^ 32"
  shows "\<exists>file. pcap_writes (map (\<lambda>(tv, f, x, y, rest). (tv, f @ [x, y] @ rest, int (length f))) ps)
            (pcap_init True) = Ret (Some file)
     \<and> take 4 file = le32 0xa1b2c3d4 \<and> drop 20 (take 24 file) = le32 195
     \<and> records (drop 24 file)
       = Some (map (\<lambda>(tv, f, x, y, rest). (word_of_int (fst tv), word_of_int (snd tv), f @ fcs f)) ps)
     \<and> (\<forall>(tv, f, x, y, rest) \<in> set ps. crc16_data (f @ fcs f) (int (length (f @ fcs f))) 0 = 0)"
proof -
  obtain h where h: "pcap_init True = Some h" "length h = 24" "take 4 h = le32 0xa1b2c3d4"
    "drop 20 h = le32 195"
    by (simp add: pcap_init_def write_int_def write_short_def)
  obtain out where fl: "pcap_writes (map (\<lambda>(tv, f, x, y, rest). (tv, f @ [x, y] @ rest, int (length f))) ps)
            (Some h) = Ret (Some (h @ out))"
     "records (out @ []) = map_option
         ((@) (map (\<lambda>(tv, f, x, y, rest). (word_of_int (fst tv), word_of_int (snd tv), f @ fcs f)) ps))
         (records [])"
    using pcap_writes_records [OF assms, of h "[]"] by blast
  have "crc16_data (f @ fcs f) (int (length (f @ fcs f))) 0 = 0" for f
    by (simp add: crc16_data_def crc16_loop_append fcs_def crc16_residue)
  with h fl show ?thesis
    by (intro exI [of _ "h @ out"]) (auto simp: records.simps [of "[]"])
qed

theorem pcap_file_readable_witness:
  "\<exists>file. pcap_writes [((7, 8), [1, 2, 3, 0, 0], 3)] (pcap_init True) = Ret (Some file)
     \<and> records (drop 24 file) = Some [(7, 8, [1, 2, 3] @ fcs [1, 2, 3])]"
proof -
  have "\<forall>(tv, f, x, y, rest) \<in> set [((7::int, 8::int), [1, 2, 3 :: u8], 0 :: u8, 0 :: u8, [] :: u8 list)].
      length f + 2 < 2 ^ 32"
    by simp
  from pcap_file_readable [OF this] show ?thesis by auto
qed

end
