(* ===== verification/C_String.thy ===== *)
theory C_String
  imports WF_Prelude "HOL-Library.Char_ord"
begin

text \<open>
  The part of the C and C++ standard library the sources use on text: NUL-terminated
  strings in a byte buffer, \<open>strchr\<close>, \<open>strstr\<close>, \<open>strncasecmp\<close>, \<open>isdigit\<close>, \<open>isspace\<close>,
  \<open>atoi\<close>, \<open>stoi\<close>, the \<open>%d\<close>, \<open>%x\<close> conversions of \<open>snprintf\<close>, and splitting and joining at
  a delimiter.  A C string is a character list without the terminator; a buffer is a
  list of bytes in which the first NUL ends the string.
\<close>

section \<open>Strings in buffers\<close>

abbreviation NUL :: char where "NUL \<equiv> CHR 0x00"

definition cstr :: "char list \<Rightarrow> string" where
  "cstr m = takeWhile (\<lambda>c. c \<noteq> NUL) m"

definition store_str :: "char list \<Rightarrow> string \<Rightarrow> char list" where
  \<comment> \<open>write the string and its terminator over the start of the buffer\<close>
  "store_str m s = s @ NUL # drop (Suc (length s)) m"

lemma cstr_store_str [simp]: "NUL \<notin> set s \<Longrightarrow> cstr (store_str m s) = s"
  by (simp add: cstr_def store_str_def)

lemma length_store_str [wf_bounds]:
  "length s < length m \<Longrightarrow> length (store_str m s) = length m"
  by (simp add: store_str_def)

lemma NUL_notin_cstr [simp]: "NUL \<notin> set (cstr m)"
  by (auto simp: cstr_def dest: set_takeWhileD)

lemma cstr_id [simp]: "NUL \<notin> set s \<Longrightarrow> cstr s = s"
  by (simp add: cstr_def)

lemma cstr_append_NUL [simp]: "NUL \<notin> set s \<Longrightarrow> cstr (s @ NUL # r) = s"
  by (simp add: cstr_def)

lemma length_cstr_le [wf_bounds]: "length (cstr m) \<le> length m"
  unfolding cstr_def by (rule length_takeWhile_le)

text \<open>\<open>snprintf\<close> into \<open>n\<close> bytes keeps at most \<open>n - 1\<close> characters and returns the full length.\<close>

definition snprintf_text :: "nat \<Rightarrow> string \<Rightarrow> string" where
  "snprintf_text n s = take (n - 1) s"

lemma snprintf_text_fits [simp]: "length s < n \<Longrightarrow> snprintf_text n s = s"
  by (simp add: snprintf_text_def)

lemma set_snprintf_text: "set (snprintf_text n s) \<subseteq> set s"
  by (simp add: snprintf_text_def set_take_subset)

section \<open>Character classes\<close>

definition isspace :: "char \<Rightarrow> bool" where
  "isspace c \<longleftrightarrow> c = CHR '' '' \<or> (9 \<le> (of_char c :: nat) \<and> (of_char c :: nat) \<le> 13)"

definition isdigit :: "char \<Rightarrow> bool" where
  "isdigit c \<longleftrightarrow> 48 \<le> (of_char c :: nat) \<and> (of_char c :: nat) \<le> 57"

definition tolower :: "char \<Rightarrow> char" where
  "tolower c = (if 65 \<le> (of_char c :: nat) \<and> (of_char c :: nat) \<le> 90
                then char_of ((of_char c :: nat) + 32) else c)"

definition lower :: "string \<Rightarrow> string" where
  "lower s = map tolower s"

lemma tolower_idem [simp]: "tolower (tolower c) = tolower c"
  by (simp add: tolower_def)

lemma lower_simps [simp]: "lower [] = []" "lower (c # cs) = tolower c # lower cs"
  by (simp_all add: lower_def)

lemma lower_idem [simp]: "lower (lower s) = lower s"
  by (simp add: lower_def)

section \<open>Search and comparison\<close>

definition strchr :: "char \<Rightarrow> string \<Rightarrow> string option" where
  "strchr c s = (case dropWhile (\<lambda>x. x \<noteq> c) s of [] \<Rightarrow> None | t # ts \<Rightarrow> Some (t # ts))"

fun strstr :: "string \<Rightarrow> string \<Rightarrow> bool" where
  "strstr pat [] = (pat = [])"
| "strstr pat (c # cs) = (take (length pat) (c # cs) = pat \<or> strstr pat cs)"

definition strncmp_pre :: "string \<Rightarrow> string \<Rightarrow> bool" where
  \<comment> \<open>\<open>strncmp(s, pat, strlen(pat)) == 0\<close>\<close>
  "strncmp_pre s pat \<longleftrightarrow> take (length pat) s = pat"

definition strncasecmp_pre :: "string \<Rightarrow> string \<Rightarrow> bool" where
  \<comment> \<open>\<open>strncasecmp(s, pat, strlen(pat)) == 0\<close>\<close>
  "strncasecmp_pre s pat \<longleftrightarrow> lower (take (length pat) s) = lower pat"

definition strcasecmp_eq :: "string \<Rightarrow> string \<Rightarrow> bool" where
  "strcasecmp_eq s t \<longleftrightarrow> lower s = lower t"

lemma strchr_None [simp]: "c \<notin> set s \<Longrightarrow> strchr c s = None"
  by (simp add: strchr_def)

lemma strchr_Some [simp]: "c \<notin> set a \<Longrightarrow> strchr c (a @ c # b) = Some (c # b)"
  by (simp add: strchr_def)

lemma strchr_eq_None_iff: "strchr c s = None \<longleftrightarrow> c \<notin> set s"
  by (rule dropWhile_neq_cases [of c s]) auto

lemma strchr_eq_SomeE:
  assumes "strchr c s = Some t"
  obtains a b where "s = a @ c # b" "c \<notin> set a" "t = c # b"
proof (rule dropWhile_neq_cases [of c s])
  assume "c \<notin> set s"
  with assms show thesis by simp
next
  fix a b assume "s = a @ c # b" "c \<notin> set a"
  with assms show thesis by (intro that) auto
qed

lemma length_lower [simp]: "length (lower s) = length s"
  by (simp add: lower_def)

lemma strncasecmp_pre_append:
  assumes "lower a = lower pat"
  shows "strncasecmp_pre (a @ s) pat"
proof -
  from assms have "length a = length pat" by (metis length_lower)
  with assms show ?thesis by (simp add: strncasecmp_pre_def)
qed

section \<open>Numbers to text\<close>

definition digit_char :: "nat \<Rightarrow> char" where
  "digit_char d = char_of (if d < 10 then 48 + d else 87 + d)"

fun to_base :: "nat \<Rightarrow> nat \<Rightarrow> string" where
  "to_base b n = (if n < b \<or> b < 2 then [digit_char n]
                  else to_base b (n div b) @ [digit_char (n mod b)])"

declare to_base.simps [simp del]

definition dec_nat :: "nat \<Rightarrow> string" where
  "dec_nat n = to_base 10 n"

definition dec_int :: "int \<Rightarrow> string" where
  "dec_int i = (if i < 0 then CHR ''-'' # dec_nat (nat (- i)) else dec_nat (nat i))"

definition pad0 :: "nat \<Rightarrow> string \<Rightarrow> string" where
  "pad0 w s = replicate (w - length s) (CHR ''0'') @ s"

definition hex_pad :: "nat \<Rightarrow> nat \<Rightarrow> string" where
  \<comment> \<open>the conversion \<open>%0wx\<close>\<close>
  "hex_pad w n = pad0 w (to_base 16 n)"

definition digit_val :: "char \<Rightarrow> nat" where
  "digit_val c = (let n = of_char c in if n < 58 then n - 48 else n - 87)"

definition of_base :: "nat \<Rightarrow> string \<Rightarrow> nat" where
  "of_base b s = foldl (\<lambda>acc c. b * acc + digit_val c) 0 s"

lemma digit_val_digit_char: "d < 16 \<Longrightarrow> digit_val (digit_char d) = d"
  by (simp add: digit_val_def digit_char_def Let_def)

lemma of_base_snoc: "of_base b (s @ [c]) = b * of_base b s + digit_val c"
  by (simp add: of_base_def)

lemma of_base_to_base:
  assumes "2 \<le> b" "b \<le> 16"
  shows "of_base b (to_base b n) = n"
proof (induction n rule: less_induct)
  case (less n)
  show ?case
  proof (cases "n < b")
    case True
    then show ?thesis
      using assms by (simp add: to_base.simps [of b n] of_base_def digit_val_digit_char)
  next
    case False
    have "n div b < n" "n mod b < 16"
      using False assms by (auto simp: less_le_trans [OF mod_less_divisor])
    with less have "of_base b (to_base b (n div b)) = n div b" by blast
    with \<open>n mod b < 16\<close> False assms show ?thesis
      by (simp add: to_base.simps [of b n] of_base_snoc digit_val_digit_char)
  qed
qed

lemma of_base_zeros: "of_base b (replicate k (CHR ''0'') @ s) = of_base b s"
proof -
  have "foldl (\<lambda>acc c. b * acc + digit_val c) 0 (replicate k (CHR ''0'')) = 0"
    by (induction k) (auto simp: digit_val_def)
  then show ?thesis by (simp add: of_base_def)
qed

lemma hex_pad_inject: "hex_pad w m = hex_pad w n \<longleftrightarrow> m = n"
proof
  assume "hex_pad w m = hex_pad w n"
  then have "of_base 16 (hex_pad w m) = of_base 16 (hex_pad w n)" by simp
  then show "m = n" by (simp add: hex_pad_def pad0_def of_base_zeros of_base_to_base)
qed simp

lemma dec_nat_inject [simp]: "dec_nat m = dec_nat n \<longleftrightarrow> m = n"
proof
  assume "dec_nat m = dec_nat n"
  then have "of_base 10 (to_base 10 m) = of_base 10 (to_base 10 n)"
    by (simp add: dec_nat_def)
  then show "m = n" by (simp add: of_base_to_base)
qed simp

lemma dec_nat_nonempty [simp]: "dec_nat n \<noteq> []"
  by (simp add: dec_nat_def to_base.simps [of 10 n])

lemma isdigit_digit_char: "d < 10 \<Longrightarrow> isdigit (digit_char d)"
  by (simp add: isdigit_def digit_char_def)

lemma isdigit_to_base: "2 \<le> b \<Longrightarrow> b \<le> 10 \<Longrightarrow> c \<in> set (to_base b n) \<Longrightarrow> isdigit c"
proof (induction b n rule: to_base.induct)
  case (1 b n)
  show ?case
  proof (cases "n < b")
    case True
    with 1 show ?thesis by (auto simp: to_base.simps [of b n] isdigit_digit_char)
  next
    case False
    then have "n mod b < 10" using 1 by (intro less_le_trans [OF mod_less_divisor]) auto
    with False 1 show ?thesis by (auto simp: to_base.simps [of b n] isdigit_digit_char)
  qed
qed

lemma isdigit_dec_nat: "c \<in> set (dec_nat n) \<Longrightarrow> isdigit c"
  unfolding dec_nat_def by (rule isdigit_to_base) auto

lemma isdigit_not_space [simp]: "isdigit c \<Longrightarrow> \<not> isspace c"
  by (auto simp: isdigit_def isspace_def)

lemma length_to_base_ge: "2 \<le> b \<Longrightarrow> b ^ k \<le> n \<Longrightarrow> k < length (to_base b n)"
proof (induction b n arbitrary: k rule: to_base.induct)
  case (1 b n)
  show ?case
  proof (cases k)
    case 0
    then show ?thesis by (simp add: to_base.simps [of b n])
  next
    case (Suc j)
    have "b * 1 \<le> b * b ^ j" using 1(2) by (intro mult_le_mono2) (simp add: Suc_le_eq)
    moreover have le: "b * b ^ j \<le> n" using 1(3) Suc by simp
    ultimately have "b \<le> n" by linarith
    with 1(2) le have nb: "\<not> (n < b \<or> b < 2)" "b ^ j * b \<le> n" by (simp_all add: mult.commute)
    then have "b ^ j \<le> n div b" using 1(2) by (simp add: less_eq_div_iff_mult_less_eq)
    with 1 nb have "j < length (to_base b (n div b))" by blast
    with nb Suc show ?thesis by (simp add: to_base.simps [of b n])
  qed
qed

lemma length_to_base: "2 \<le> b \<Longrightarrow> n < b ^ k \<Longrightarrow> 0 < k \<Longrightarrow> length (to_base b n) \<le> k"
proof (induction b n arbitrary: k rule: to_base.induct)
  case (1 b n)
  show ?case
  proof (cases "n < b")
    case True
    with 1 show ?thesis by (simp add: to_base.simps [of b n])
  next
    case False
    with 1 have "k \<noteq> 1" by auto
    with 1 obtain j where k: "k = Suc j" "0 < j" by (cases k) auto
    with 1 have "n div b < b ^ j" by (simp add: less_mult_imp_div_less mult.commute)
    with False 1 k show ?thesis by (simp add: to_base.simps [of b n])
  qed
qed

section \<open>Text to numbers\<close>

fun digits_val :: "int \<Rightarrow> string \<Rightarrow> int" where
  "digits_val acc [] = acc"
| "digits_val acc (c # cs) =
     (if isdigit c then digits_val (10 * acc + (int (of_char c) - 48)) cs else acc)"

definition sign_split :: "string \<Rightarrow> int \<times> string" where
  "sign_split s = (case s of
     [] \<Rightarrow> (1, [])
   | c # cs \<Rightarrow> if c = CHR ''-'' then (-1, cs) else if c = CHR ''+'' then (1, cs) else (1, c # cs))"

definition atoi :: "string \<Rightarrow> int" where
  \<comment> \<open>a value that does not fit an \<open>int\<close> is undefined in C and not wrapped here\<close>
  "atoi s = (case sign_split (dropWhile isspace s) of (sg, r) \<Rightarrow> sg * digits_val 0 r)"

definition stoi :: "string \<Rightarrow> int option" where
  \<comment> \<open>\<open>std::stoi\<close> in base 10; \<open>None\<close> is \<open>invalid_argument\<close> or \<open>out_of_range\<close>\<close>
  "stoi s = (case sign_split (dropWhile isspace s) of
     (sg, r) \<Rightarrow>
       if r = [] \<or> \<not> isdigit (hd r) then None
       else let v = sg * digits_val 0 r
            in if - (2 ^ 31) \<le> v \<and> v < 2 ^ 31 then Some v else None)"

lemma digits_val_stop:
  "r = [] \<or> \<not> isdigit (hd r) \<Longrightarrow> digits_val acc (s @ r) = digits_val acc s"
proof (induction s arbitrary: acc)
  case Nil
  then show ?case by (cases r) auto
qed auto

lemma digits_val_foldl:
  "\<forall>c\<in>set s. isdigit c \<Longrightarrow>
   digits_val (int a) s = int (foldl (\<lambda>acc c. 10 * acc + digit_val c) a s)"
proof (induction s arbitrary: a)
  case Nil
  then show ?case by simp
next
  case (Cons c s)
  then have c: "10 * int a + (int (of_char c) - 48) = int (10 * a + digit_val c)"
    by (auto simp: isdigit_def digit_val_def Let_def)
  from Cons.prems Cons.IH [of "10 * a + digit_val c"] show ?case by (simp add: c)
qed

lemma digits_val_dec_nat:
  assumes "r = [] \<or> \<not> isdigit (hd r)"
  shows "digits_val 0 (dec_nat n @ r) = int n"
proof -
  have "digits_val (int 0) (dec_nat n) = int (of_base 10 (dec_nat n))"
    unfolding of_base_def by (rule digits_val_foldl) (auto dest: isdigit_dec_nat)
  also have "\<dots> = int n" by (simp add: dec_nat_def of_base_to_base)
  finally show ?thesis using assms by (simp add: digits_val_stop)
qed

lemma dec_nat_hd: "\<exists>c cs. dec_nat n = c # cs \<and> isdigit c"
proof (cases "dec_nat n")
  case (Cons c cs)
  then have "isdigit c" by (intro isdigit_dec_nat [of c n]) simp
  with Cons show ?thesis by blast
qed simp

lemma sign_split_dec_nat:
  "sign_split (dropWhile isspace (dec_nat n @ r)) = (1, dec_nat n @ r)"
proof -
  obtain c cs where c: "dec_nat n = c # cs" "isdigit c" using dec_nat_hd by blast
  then have "c \<noteq> CHR ''-''" "c \<noteq> CHR ''+''" by (auto simp: isdigit_def)
  with c show ?thesis by (simp add: sign_split_def)
qed

lemma atoi_dec_nat: "r = [] \<or> \<not> isdigit (hd r) \<Longrightarrow> atoi (dec_nat n @ r) = int n"
  by (simp add: atoi_def sign_split_dec_nat digits_val_dec_nat)

lemma stoi_dec_nat: "n < 2 ^ 31 \<Longrightarrow> stoi (dec_nat n) = Some (int n)"
proof -
  assume n: "n < 2 ^ 31"
  obtain c cs where c: "dec_nat n = c # cs" "isdigit c" using dec_nat_hd by blast
  from sign_split_dec_nat [of n "[]"] digits_val_dec_nat [of "[]" n] c n
  show ?thesis by (simp add: stoi_def Let_def)
qed

definition isxdigit :: "char \<Rightarrow> bool" where
  "isxdigit c \<longleftrightarrow> isdigit c \<or> (97 \<le> (of_char (tolower c) :: nat) \<and> (of_char (tolower c) :: nat) \<le> 102)"

definition isoctal :: "char \<Rightarrow> bool" where
  "isoctal c \<longleftrightarrow> 48 \<le> (of_char c :: nat) \<and> (of_char c :: nat) \<le> 55"

definition stoi0 :: "string \<Rightarrow> int option" where
  \<comment> \<open>\<open>std::stoi(s, nullptr, 0)\<close>: the base is that of a C literal\<close>
  "stoi0 s = (case sign_split (dropWhile isspace s) of
     (sg, r) \<Rightarrow>
       if r = [] \<or> \<not> isdigit (hd r) then None
       else
         let v = sg * (if length r > 2 \<and> lower (take 2 r) = ''0x'' \<and> isxdigit (r ! 2)
                       then int (of_base 16 (lower (takeWhile isxdigit (drop 2 r))))
                       else if hd r = CHR ''0'' then int (of_base 8 (takeWhile isoctal r))
                       else digits_val 0 r)
         in if - (2 ^ 31) \<le> v \<and> v < 2 ^ 31 then Some v else None)"

lemmas stoi0_eval = stoi0_def sign_split_def isspace_def isdigit_def isxdigit_def isoctal_def
  tolower_def of_base_def digit_val_def Let_def

lemma stoi0_dec [simp]: "stoi0 ''1'' = Some 1" "stoi0 ''3'' = Some 3" "stoi0 ''0'' = Some 0"
  by (simp_all add: stoi0_eval)

lemma stoi0_face [simp]: "stoi0 ''0xface'' = Some 0xface"
  by (simp add: stoi0_eval)

section \<open>Splitting and joining\<close>

fun splits :: "char \<Rightarrow> string \<Rightarrow> string list" where
  "splits d [] = [[]]"
| "splits d (c # cs) =
     (if c = d then [] # splits d cs
      else case splits d cs of [] \<Rightarrow> [[c]] | y # ys \<Rightarrow> (c # y) # ys)"

fun join :: "char \<Rightarrow> string list \<Rightarrow> string" where
  "join d [] = []"
| "join d [x] = x"
| "join d (x # y # ys) = x @ d # join d (y # ys)"

lemma splits_nonempty [simp]: "splits d s \<noteq> []"
  by (induction s) (auto split: list.splits)

lemma splits_no_delim: "d \<notin> set s \<Longrightarrow> splits d s = [s]"
  by (induction s) auto

lemma splits_delim: "d \<notin> set a \<Longrightarrow> splits d (a @ d # b) = a # splits d b"
  by (induction a) auto

lemma splits_join:
  "xs \<noteq> [] \<Longrightarrow> \<forall>x\<in>set xs. d \<notin> set x \<Longrightarrow> splits d (join d xs) = xs"
  by (induction d xs rule: join.induct) (auto simp: splits_no_delim splits_delim)

lemma join_splits: "join d (splits d s) = s"
proof (induction s)
  case (Cons c s)
  then show ?case by (cases "splits d s"; cases "tl (splits d s)") auto
qed simp

lemma join_snoc: "xs \<noteq> [] \<Longrightarrow> join d (xs @ [x]) = join d xs @ d # x"
  by (induction d xs rule: join.induct) auto

end
