(* ===== verification/Msg_Buf.thy ===== *)
theory Msg_Buf
  imports C_String
begin

unbundle bit_operations_syntax

text \<open>
  The message of \<open>commline/commline.h\<close>: the constants, the addressing macros \<open>MTYPE\<close> and
  \<open>GET_LINE\<close>, the packed structure \<open>msg_buf_t\<close> with its byte layout, and the macros that
  declare a zeroed buffer.  The union \<open>info\<close> is its two bytes: \<open>sig.lqi\<close> and
  \<open>ack.retries\<close> are the first, \<open>sig.rssi\<close> and \<open>ack.status\<close> the second.
\<close>

section \<open>Constants\<close>

definition SUCCESS :: int where "SUCCESS = 0"
definition FAILURE :: int where "FAILURE = -1"

lemma SUCCESS_not_FAILURE [simp]: "SUCCESS \<noteq> FAILURE" "FAILURE \<noteq> SUCCESS"
  by (simp_all add: SUCCESS_def FAILURE_def)

definition COMMLINE_MAX_BUF :: nat where "COMMLINE_MAX_BUF = 2048"
definition MAX_CMD_RSP_SZ :: nat where "MAX_CMD_RSP_SZ = 4096"

definition MBUF_IS_ACK :: u8 where "MBUF_IS_ACK = push_bit 0 1"
definition MBUF_IS_CMD :: u8 where "MBUF_IS_CMD = push_bit 1 1"
definition MBUF_DO_NOT_RESPOND :: u8 where "MBUF_DO_NOT_RESPOND = push_bit 2 1"

definition CL_DSTID_MACHDR_PRESENT :: u16 where "CL_DSTID_MACHDR_PRESENT = 0xfffe"
definition CL_MGR_ID :: u16 where "CL_MGR_ID = 0xffff"

definition IN_RANGE :: "int \<Rightarrow> int \<Rightarrow> int \<Rightarrow> bool" where
  "IN_RANGE v lo hi \<longleftrightarrow> v \<ge> lo \<and> v < hi"

section \<open>Lines and message types\<close>

datatype cl_line = STACKLINE | AIRLINE | FORKER | MONITOR

fun line_no :: "cl_line \<Rightarrow> int" where
  "line_no STACKLINE = 1"
| "line_no AIRLINE = 2"
| "line_no FORKER = 3"
| "line_no MONITOR = 4"

definition MAX_CL_LINE :: int where "MAX_CL_LINE = 5"

text \<open>The C enumeration is ordered by its values.\<close>

instantiation cl_line :: linorder
begin

definition less_eq_cl_line :: "cl_line \<Rightarrow> cl_line \<Rightarrow> bool" where
  "less_eq_cl_line a b \<longleftrightarrow> line_no a \<le> line_no b"

definition less_cl_line :: "cl_line \<Rightarrow> cl_line \<Rightarrow> bool" where
  "less_cl_line a b \<longleftrightarrow> line_no a < line_no b"

instance
proof
  fix a b :: cl_line
  show "a \<le> b \<Longrightarrow> b \<le> a \<Longrightarrow> a = b"
    by (cases a; cases b) (auto simp: less_eq_cl_line_def)
qed (auto simp: less_eq_cl_line_def less_cl_line_def)

end

lemma line_no_inject [simp]: "line_no a = line_no b \<longleftrightarrow> a = b"
  by (cases a; cases b) auto

lemma line_no_range [wf_bounds]: "1 \<le> line_no l" "line_no l < MAX_CL_LINE"
  by (cases l; simp add: MAX_CL_LINE_def)+

definition MTYPE :: "cl_line \<Rightarrow> u16 \<Rightarrow> int" where
  "MTYPE l i = push_bit 16 (line_no l) OR uint i"

definition GET_LINE :: "int \<Rightarrow> int" where
  "GET_LINE mt = drop_bit 16 mt"

lemma MTYPE_arith: "MTYPE l i = line_no l * 65536 + uint i"
proof -
  have "bit (push_bit 16 (line_no l)) n \<Longrightarrow> \<not> bit (uint i) n" for n
    by (auto simp: bit_push_bit_iff bit_uint_iff)
  then have "push_bit 16 (line_no l) OR uint i = push_bit 16 (line_no l) + uint i"
    by (intro disjunctive_add [symmetric]) blast
  then show ?thesis by (simp add: MTYPE_def push_bit_eq_mult)
qed

lemma uint_u16_range: "0 \<le> uint (i :: u16)" "uint (i :: u16) < 65536"
  using uint_bounded [of i] by auto

lemma GET_LINE_MTYPE [simp]: "GET_LINE (MTYPE l i) = line_no l"
  using uint_u16_range [of i] by (simp add: GET_LINE_def MTYPE_arith drop_bit_eq_div)

lemma MTYPE_inject [simp]: "MTYPE l i = MTYPE l' i' \<longleftrightarrow> l = l' \<and> i = i'"
proof
  assume eq: "MTYPE l i = MTYPE l' i'"
  then have "line_no l = line_no l'" by (metis GET_LINE_MTYPE)
  with eq show "l = l' \<and> i = i'" by (simp add: MTYPE_arith word_uint_eqI)
qed auto

lemma MTYPE_range [wf_bounds]: "0 < MTYPE l i" "MTYPE l i < 327680"
  using uint_u16_range [of i] line_no_range [of l] by (simp_all only: MTYPE_arith MAX_CL_LINE_def)

section \<open>The message structure\<close>

record msg_buf =
  mb_mtype :: u32
  src_id :: u16
  dst_id :: u16
  flags :: u8
  info0 :: u8
  info1 :: u8
  mb_len :: u16
  max_len :: u16
  buf :: "char list"

abbreviation ack_retries :: "msg_buf \<Rightarrow> u8" where "ack_retries \<equiv> info0"
abbreviation ack_status :: "msg_buf \<Rightarrow> u8" where "ack_status \<equiv> info1"
abbreviation sig_lqi :: "msg_buf \<Rightarrow> u8" where "sig_lqi \<equiv> info0"
abbreviation sig_rssi :: "msg_buf \<Rightarrow> u8" where "sig_rssi \<equiv> info1"

definition sizeof_msg_buf :: nat where "sizeof_msg_buf = 16"

text \<open>The structure in memory: packed, little-endian, \<open>buf\<close> at offset 15.\<close>

definition mem :: "msg_buf \<Rightarrow> char list" where
  "mem m = le32 (mb_mtype m) @ le16 (src_id m) @ le16 (dst_id m) @
           [byte_of (flags m), byte_of (info0 m), byte_of (info1 m)] @
           le16 (mb_len m) @ le16 (max_len m) @ buf m"

definition unmem :: "char list \<Rightarrow> msg_buf" where
  "unmem b = \<lparr>mb_mtype = un32 (b ! 0) (b ! 1) (b ! 2) (b ! 3),
              src_id = un16 (b ! 4) (b ! 5), dst_id = un16 (b ! 6) (b ! 7),
              flags = u8_of (b ! 8), info0 = u8_of (b ! 9), info1 = u8_of (b ! 10),
              mb_len = un16 (b ! 11) (b ! 12), max_len = un16 (b ! 13) (b ! 14),
              buf = drop 15 b\<rparr>"

lemma unmem_mem [simp]: "unmem (mem m) = m"
  by (simp add: mem_def unmem_def le32_def le16_def)

lemma length_mem [wf_bounds]: "length (mem m) = 15 + length (buf m)"
  by (simp add: mem_def)

definition hdr :: "msg_buf \<Rightarrow> char list" where
  "hdr m = take 15 (mem m)"

lemma mem_hdr: "mem m = hdr m @ buf m"
  by (simp add: hdr_def mem_def le32_def le16_def)

lemma length_hdr [simp]: "length (hdr m) = 15"
  by (simp add: hdr_def length_mem)

lemma hdr_buf [simp]: "hdr (m\<lparr>buf := b\<rparr>) = hdr m"
  by (simp add: hdr_def mem_def le32_def le16_def)

lemma unmem_header:
  assumes "take 15 b = take 15 (mem m)" "15 \<le> length b"
  shows "unmem b = m\<lparr>buf := drop 15 b\<rparr>"
proof -
  have "b = take 15 (mem m) @ drop 15 b"
    using assms(1) by (metis append_take_drop_id)
  also have "\<dots> = mem (m\<lparr>buf := drop 15 b\<rparr>)"
    by (simp add: mem_def le32_def le16_def)
  finally show ?thesis by (metis unmem_mem)
qed

section \<open>Declaring and clearing a buffer\<close>

definition zero_mbuf :: "nat \<Rightarrow> msg_buf" where
  \<comment> \<open>\<open>buf[1]\<close> and \<open>n\<close> more bytes behind the structure\<close>
  "zero_mbuf n = \<lparr>mb_mtype = 0, src_id = 0, dst_id = 0, flags = 0, info0 = 0, info1 = 0,
                  mb_len = 0, max_len = 0, buf = replicate (n + 1) NUL\<rparr>"

definition DEFINE_MBUF_SZ :: "nat \<Rightarrow> msg_buf" where
  "DEFINE_MBUF_SZ sz = (zero_mbuf sz)\<lparr>max_len := of_nat sz\<rparr>"

definition DEFINE_MBUF :: msg_buf where
  "DEFINE_MBUF = DEFINE_MBUF_SZ COMMLINE_MAX_BUF"

definition clear_struct :: "msg_buf \<Rightarrow> msg_buf" where
  \<comment> \<open>\<open>memset(mbuf, 0, sizeof(msg_buf_t))\<close>: the header and \<open>buf[0]\<close>\<close>
  "clear_struct m = (zero_mbuf 0)\<lparr>buf := NUL # drop 1 (buf m)\<rparr>"

lemma length_buf_DEFINE [simp, wf_bounds]:
  "length (buf (DEFINE_MBUF_SZ n)) = n + 1" "length (buf DEFINE_MBUF) = 2049"
  by (simp_all add: DEFINE_MBUF_SZ_def DEFINE_MBUF_def zero_mbuf_def COMMLINE_MAX_BUF_def)

lemma mb_len_DEFINE [simp]: "mb_len (DEFINE_MBUF_SZ n) = 0" "mb_len DEFINE_MBUF = 0"
  by (simp_all add: DEFINE_MBUF_SZ_def DEFINE_MBUF_def zero_mbuf_def)

lemma length_buf_clear [wf_bounds]: "buf m \<noteq> [] \<Longrightarrow> length (buf (clear_struct m)) = length (buf m)"
  by (cases "buf m") (auto simp: clear_struct_def)

text \<open>\<open>memcpy(mbuf->buf, data, n)\<close>: the rest of the buffer keeps its bytes.\<close>

definition put_buf :: "char list \<Rightarrow> msg_buf \<Rightarrow> msg_buf" where
  "put_buf d m = m\<lparr>buf := d @ drop (length d) (buf m)\<rparr>"

lemma put_buf_fields [simp]:
  "mb_mtype (put_buf d m) = mb_mtype m" "src_id (put_buf d m) = src_id m"
  "dst_id (put_buf d m) = dst_id m" "flags (put_buf d m) = flags m"
  "info0 (put_buf d m) = info0 m" "info1 (put_buf d m) = info1 m"
  "mb_len (put_buf d m) = mb_len m" "max_len (put_buf d m) = max_len m"
  by (simp_all add: put_buf_def)

lemma length_put_buf [wf_bounds]:
  "length d \<le> length (buf m) \<Longrightarrow> length (buf (put_buf d m)) = length (buf m)"
  by (simp add: put_buf_def)

text \<open>The command string a message carries.\<close>

definition mb_str :: "msg_buf \<Rightarrow> string" where
  "mb_str m = cstr (buf m)"

definition put_str :: "string \<Rightarrow> msg_buf \<Rightarrow> msg_buf" where
  "put_str s m = m\<lparr>buf := store_str (buf m) s\<rparr>"

lemma mb_str_put_str [simp]: "NUL \<notin> set s \<Longrightarrow> mb_str (put_str s m) = s"
  by (simp add: mb_str_def put_str_def)

lemma put_str_fields [simp]:
  "mb_mtype (put_str s m) = mb_mtype m" "src_id (put_str s m) = src_id m"
  "dst_id (put_str s m) = dst_id m" "flags (put_str s m) = flags m"
  "info0 (put_str s m) = info0 m" "info1 (put_str s m) = info1 m"
  "mb_len (put_str s m) = mb_len m" "max_len (put_str s m) = max_len m"
  by (simp_all add: put_str_def)

section \<open>The argument of a command\<close>

text \<open>The argument behind the colon moves to the start of the buffer; without one it is empty.\<close>

definition take_arg :: "char list \<Rightarrow> char list" where
  "take_arg b = (case strchr (CHR '':'') (cstr b) of
     None \<Rightarrow> store_str b []
   | Some p \<Rightarrow> store_str (b[length (cstr b) - length p := NUL]) (tl p))"

lemma take_arg_colon:
  assumes "b = store_str bs (name @ '':'' @ a)" "CHR '':'' \<notin> set name" "NUL \<notin> set name" "NUL \<notin> set a"
    and "length name + length a + 1 < length bs"
  shows "cstr (take_arg b) = a" "length (take_arg b) = length bs"
proof -
  have c: "cstr b = name @ '':'' @ a" using assms by simp
  have "length (store_str (b[length name := NUL]) a) = length bs"
    using assms(1,5) by (subst length_store_str) (simp_all add: length_store_str)
  with c assms show "cstr (take_arg b) = a" "length (take_arg b) = length bs"
    by (simp_all add: take_arg_def)
qed

lemma NUL_in_store_str: "NUL \<in> set (store_str b s)"
  by (simp add: store_str_def)

end
