(* ===== verification/Cl_Usock.thy ===== *)
theory Cl_Usock
  imports Msg_Buf
begin

text \<open>
  \<open>commline/cl_usock.c\<close>: commline over abstract Unix datagram sockets.  The first section
  is the part of the socket interface the file calls: descriptors, names bound in the
  abstract name space, one queue of datagrams per socket.  A descriptor stands for its
  socket, so the sockets of all processes live in one kernel state; the arrays
  \<open>g_usock_fd\<close> and \<open>g_def_line\<close> are the state of one process.
\<close>

section \<open>Datagram sockets\<close>

record kernel =
  k_open :: "int list"
  k_name :: "int \<Rightarrow> string option"
  k_queue :: "int \<Rightarrow> char list list"
  k_next :: int
  k_limit :: int

definition kernel_ok :: "kernel \<Rightarrow> bool" where
  "kernel_ok k \<longleftrightarrow> (\<forall>fd \<in> set (k_open k). 0 \<le> fd \<and> fd < k_next k) \<and> 3 \<le> k_next k
     \<and> (\<forall>fd n. k_name k fd = Some n \<longrightarrow> fd \<in> set (k_open k))
     \<and> (\<forall>fd fd' n. k_name k fd = Some n \<longrightarrow> k_name k fd' = Some n \<longrightarrow> fd = fd')
     \<and> (\<forall>fd. fd < 3 \<longrightarrow> k_name k fd = None)"

definition sys_socket :: "kernel \<Rightarrow> int \<times> kernel" where
  "sys_socket k =
     (if k_next k \<ge> k_limit k then (-1, k)
      else (k_next k, k\<lparr>k_open := k_next k # k_open k, k_next := k_next k + 1,
                        k_queue := (k_queue k)(k_next k := [])\<rparr>))"

definition name_fd :: "kernel \<Rightarrow> string \<Rightarrow> int option" where
  "name_fd k n = List.find (\<lambda>fd. k_name k fd = Some n) (k_open k)"

definition sys_bind :: "int \<Rightarrow> string \<Rightarrow> kernel \<Rightarrow> int \<times> kernel" where
  "sys_bind fd n k =
     (if fd < 3 \<or> fd \<notin> set (k_open k) \<or> k_name k fd \<noteq> None \<or> name_fd k n \<noteq> None then (-1, k)
      else (0, k\<lparr>k_name := (k_name k)(fd := Some n)\<rparr>))"

text \<open>
  A datagram goes to the queue of the named socket, which is unbounded here.  The kernel bounds it: a
  send to a full queue waits until the reader takes a datagram, which does not change the order of
  the datagrams, but when a send returns.
\<close>

definition sys_sendto :: "int \<Rightarrow> char list \<Rightarrow> string \<Rightarrow> kernel \<Rightarrow> int \<times> kernel" where
  "sys_sendto fd d n k =
     (if fd < 3 \<or> fd \<notin> set (k_open k) then (-1, k)
      else case name_fd k n of
             None \<Rightarrow> (-1, k)
           | Some t \<Rightarrow> (int (length d), k\<lparr>k_queue := (k_queue k)(t := k_queue k t @ [d])\<rparr>))"

definition sys_recvfrom :: "int \<Rightarrow> nat \<Rightarrow> bool \<Rightarrow> kernel \<Rightarrow> (int \<times> char list \<times> kernel) outcome" where
  "sys_recvfrom fd len dontwait k =
     (if fd < 3 \<or> fd \<notin> set (k_open k) then Ret (-1, [], k)
      else case k_queue k fd of
             [] \<Rightarrow> if dontwait then Ret (-1, [], k) else Blocked
           | d # ds \<Rightarrow> Ret (int (length (take len d)), take len d,
                            k\<lparr>k_queue := (k_queue k)(fd := ds)\<rparr>))"

definition sys_close :: "int \<Rightarrow> kernel \<Rightarrow> kernel" where
  "sys_close fd k =
     k\<lparr>k_open := removeAll fd (k_open k), k_name := (k_name k)(fd := None),
       k_queue := (k_queue k)(fd := [])\<rparr>"

section \<open>The process state and its operations\<close>

record usock =
  g_usock_fd :: "int list"
  g_def_line :: int

text \<open>\<open>int g_usock_fd[MAX_CL_LINE] = { -1 };\<close> initialises the first entry only.\<close>

definition usock_start :: usock where
  "usock_start = \<lparr>g_usock_fd = (-1) # replicate (nat MAX_CL_LINE - 1) 0, g_def_line = -1\<rparr>"

definition usock_setabsaddr :: "u32 \<Rightarrow> int \<Rightarrow> string" where
  \<comment> \<open>the abstract name, without its leading NUL byte: \<open>/WHITEFIELD_%d_%08lx\<close>\<close>
  "usock_setabsaddr uid mt =
     snprintf_text 107
       (''/WHITEFIELD_'' @ dec_int (sint uid) @ ''_'' @ hex_pad 8 (nat (mt mod 2 ^ 64)))"

definition CLOSE :: "int \<Rightarrow> kernel \<Rightarrow> int \<times> kernel" where
  "CLOSE fd k = (if fd \<ge> 0 then (-1, sys_close fd k) else (fd, k))"

definition line_in_range :: "int \<Rightarrow> bool" where
  "line_in_range mt \<longleftrightarrow> IN_RANGE (GET_LINE mt) 1 MAX_CL_LINE"

definition usock_fd :: "usock \<Rightarrow> int \<Rightarrow> int" where
  "usock_fd u mt = g_usock_fd u ! nat (GET_LINE mt)"

definition usock_init :: "u32 \<Rightarrow> int \<Rightarrow> usock \<Rightarrow> kernel \<Rightarrow> int \<times> usock \<times> kernel" where
  "usock_init uid mt u k =
     (if \<not> line_in_range mt then (FAILURE, u, k)
      else
        let line = nat (GET_LINE mt);
            (fd, k1) = sys_socket k;
            u1 = u\<lparr>g_usock_fd := (g_usock_fd u)[line := fd]\<rparr>
        in if fd < 0 then (FAILURE, u1, k1)
           else
             let (r, k2) = sys_bind fd (usock_setabsaddr uid mt) k1
             in if r \<noteq> 0
                then let (fd', k3) = CLOSE fd k2
                     in (FAILURE, u1\<lparr>g_usock_fd := (g_usock_fd u1)[line := fd']\<rparr>, k3)
                else (SUCCESS,
                      (if g_def_line u1 < 0 then u1\<lparr>g_def_line := GET_LINE mt\<rparr> else u1), k2))"

fun close_all :: "int list \<Rightarrow> kernel \<Rightarrow> int list \<times> kernel" where
  "close_all [] k = ([], k)"
| "close_all (fd # fds) k =
     (let (fd', k1) = CLOSE fd k; (fds', k2) = close_all fds k1 in (fd' # fds', k2))"

definition usock_cleanup :: "usock \<Rightarrow> kernel \<Rightarrow> usock \<times> kernel" where
  "usock_cleanup u k =
     (let (fds, k1) = close_all (g_usock_fd u) k in (u\<lparr>g_usock_fd := fds\<rparr>, k1))"

text \<open>A received datagram overwrites the start of the structure's memory.\<close>

definition overwrite :: "char list \<Rightarrow> msg_buf \<Rightarrow> msg_buf outcome" where
  "overwrite d m = (if length d \<le> length (mem m) then Ret (unmem (d @ drop (length d) (mem m)))
                    else Fault Out_Of_Bounds)"

definition usock_recvfrom ::
  "int \<Rightarrow> msg_buf \<Rightarrow> nat \<Rightarrow> bool \<Rightarrow> usock \<Rightarrow> kernel \<Rightarrow> (int \<times> msg_buf \<times> kernel) outcome" where
  "usock_recvfrom mt m len nowait u k =
     (if \<not> line_in_range mt then Ret (FAILURE, m, k)
      else
        let m1 = m\<lparr>mb_len := 0\<rparr>
        in bindo (sys_recvfrom (usock_fd u mt) len nowait k) (\<lambda>(ret, d, k1).
           bindo (overwrite d m1) (\<lambda>m2.
             if ret > 0 \<and> ret + 4 < int sizeof_msg_buf then Ret (FAILURE, m2, k1)
             else Ret (ret, m2, k1))))"

definition usock_sendto ::
  "u32 \<Rightarrow> int \<Rightarrow> msg_buf \<Rightarrow> nat \<Rightarrow> usock \<Rightarrow> kernel \<Rightarrow> (int \<times> msg_buf \<times> kernel) outcome" where
  "usock_sendto uid mt m len u k =
     (if g_def_line u < 0 \<or> length (mem m) < len then Fault Out_Of_Bounds
      else
        let m1 = m\<lparr>mb_mtype := word_of_int mt\<rparr>;
            (ret, k1) = sys_sendto (g_usock_fd u ! nat (g_def_line u)) (take len (mem m1))
                          (usock_setabsaddr uid mt) k
        in Ret (if ret \<noteq> int len then FAILURE else SUCCESS, m1, k1))"

definition usock_get_descriptor :: "int \<Rightarrow> usock \<Rightarrow> int" where
  "usock_get_descriptor mt u =
     (if \<not> line_in_range mt then FAILURE
      else if usock_fd u mt \<le> 0 then FAILURE
      else usock_fd u mt)"

section \<open>Names\<close>

lemma length_dec_nat: "n < 10 ^ k \<Longrightarrow> 0 < k \<Longrightarrow> length (dec_nat n) \<le> k"
  unfolding dec_nat_def by (rule length_to_base) auto

lemma length_hex8: "n < 16 ^ 8 \<Longrightarrow> length (hex_pad 8 n) = 8"
  using length_to_base [of 16 n 8] by (simp add: hex_pad_def pad0_def)

lemma length_uid: "length (dec_int (sint (uid :: u32))) \<le> 11"
proof -
  have "- (2 ^ 31) \<le> sint uid" "sint uid < 2 ^ 31"
    using sint_greater_eq [of uid] sint_less [of uid] by auto
  then have "nat (- sint uid) < 10 ^ 10" "nat (sint uid) < 10 ^ 10" by auto
  then show ?thesis
    using length_dec_nat [of "nat (- sint uid)" 10] length_dec_nat [of "nat (sint uid)" 10]
    by (auto simp: dec_int_def)
qed

lemma usock_name:
  assumes "0 \<le> mt" "mt < 16 ^ 8"
  shows "usock_setabsaddr uid mt
         = ''/WHITEFIELD_'' @ dec_int (sint uid) @ ''_'' @ hex_pad 8 (nat mt)"
proof -
  have "mt mod 2 ^ 64 = mt" using assms by simp
  moreover have "length (hex_pad 8 (nat mt)) = 8"
    using assms by (intro length_hex8) (simp add: nat_less_iff)
  ultimately show ?thesis
    using length_uid [of uid] by (simp add: usock_setabsaddr_def)
qed

lemma usock_name_inject:
  "usock_setabsaddr uid (MTYPE l i) = usock_setabsaddr uid (MTYPE l' i') \<longleftrightarrow> l = l' \<and> i = i'"
proof
  have r: "0 \<le> MTYPE a b \<and> MTYPE a b < 16 ^ 8" for a b
    using MTYPE_range [of a b] by simp
  assume "usock_setabsaddr uid (MTYPE l i) = usock_setabsaddr uid (MTYPE l' i')"
  then have "nat (MTYPE l i) = nat (MTYPE l' i')"
    using r by (simp add: usock_name hex_pad_inject)
  with r [of l i] r [of l' i'] have "MTYPE l i = MTYPE l' i'"
    by (metis nat_eq_iff2 nat_0_le)
  then show "l = l' \<and> i = i'" by simp
qed simp

lemma line_in_range_MTYPE [simp]: "line_in_range (MTYPE l i)"
  using line_no_range [of l] by (simp add: line_in_range_def IN_RANGE_def)

section \<open>The kernel invariant\<close>

lemma name_fd_Some:
  assumes "kernel_ok k" "k_name k fd = Some n"
  shows "name_fd k n = Some fd"
proof (cases "name_fd k n")
  case None
  with assms show ?thesis
    by (auto simp: name_fd_def find_None_iff kernel_ok_def)
next
  case (Some t)
  then have "k_name k t = Some n" by (auto simp: name_fd_def find_Some_iff)
  with assms Some show ?thesis by (auto simp: kernel_ok_def)
qed

lemma kernel_ok_named:
  assumes "kernel_ok k" "k_name k fd = Some n"
  shows "3 \<le> fd \<and> fd \<in> set (k_open k) \<and> fd < k_next k"
proof -
  from assms have "fd \<in> set (k_open k)" "\<not> fd < 3" by (auto simp: kernel_ok_def)
  with assms show ?thesis by (auto simp: kernel_ok_def)
qed

lemma name_fd_None: "kernel_ok k \<Longrightarrow> name_fd k n = None \<longleftrightarrow> (\<forall>fd. k_name k fd \<noteq> Some n)"
  by (auto simp: name_fd_Some) (auto simp: name_fd_def find_None_iff kernel_ok_def)

lemma kernel_ok_queue [simp]: "kernel_ok (k\<lparr>k_queue := q\<rparr>) = kernel_ok k"
  by (simp add: kernel_ok_def)

lemma kernel_ok_socket: "kernel_ok k \<Longrightarrow> kernel_ok (snd (sys_socket k))"
  by (auto simp: sys_socket_def kernel_ok_def)

lemma kernel_ok_bind: "kernel_ok k \<Longrightarrow> kernel_ok (snd (sys_bind fd n k))"
  using name_fd_None [of k n] by (auto simp: sys_bind_def kernel_ok_def)

lemma kernel_ok_close: "kernel_ok k \<Longrightarrow> kernel_ok (sys_close fd k)"
  by (auto simp: sys_close_def kernel_ok_def)

lemma kernel_ok_CLOSE: "kernel_ok k \<Longrightarrow> kernel_ok (snd (CLOSE fd k))"
  by (simp add: CLOSE_def kernel_ok_close)

lemma kernel_ok_close_all: "kernel_ok k \<Longrightarrow> kernel_ok (snd (close_all fds k))"
proof (induction fds arbitrary: k)
  case (Cons fd fds)
  from Cons.IH [OF kernel_ok_CLOSE [OF Cons.prems, of fd]] show ?case
    by (simp add: case_prod_beta)
qed simp

lemma kernel_ok_init: "kernel_ok k \<Longrightarrow> kernel_ok (snd (snd (usock_init uid mt u k)))"
  using kernel_ok_CLOSE kernel_ok_socket kernel_ok_bind
  by (simp add: usock_init_def Let_def case_prod_beta)

lemma kernel_ok_cleanup: "kernel_ok k \<Longrightarrow> kernel_ok (snd (usock_cleanup u k))"
  by (simp add: usock_cleanup_def case_prod_beta kernel_ok_close_all)

end
