(* ===== verification/Commline_API.thy ===== *)
theory Commline_API
  imports Cl_Usock
begin

text \<open>
  \<open>commline/commline.c\<close>: the calls every other component uses, built on the Unix sockets
  (\<open>USE_UNIX_SOCKETS\<close> is defined in \<open>commline.h\<close>).  The locale \<open>transport\<close> states what the
  callers rely on: a queue per address, first in first out, and no effect on the other
  addresses.  It is interpreted on the calls of this file.
\<close>

section \<open>The calls\<close>

definition cl_init :: "u32 \<Rightarrow> int \<Rightarrow> usock \<Rightarrow> kernel \<Rightarrow> int \<times> usock \<times> kernel" where
  \<comment> \<open>the flags are not used by the socket transport\<close>
  "cl_init uid mt u k = usock_init uid mt u k"

definition cl_bind :: "u32 \<Rightarrow> int \<Rightarrow> usock \<Rightarrow> kernel \<Rightarrow> int \<times> usock \<times> kernel" where
  "cl_bind uid mt u k = usock_init uid mt u k"

definition cl_cleanup :: "usock \<Rightarrow> kernel \<Rightarrow> usock \<times> kernel" where
  "cl_cleanup u k = usock_cleanup u k"

definition cl_sendto_q ::
  "u32 \<Rightarrow> int \<Rightarrow> msg_buf option \<Rightarrow> u16 \<Rightarrow> usock \<Rightarrow> kernel \<Rightarrow> (int \<times> msg_buf option \<times> kernel) outcome" where
  "cl_sendto_q uid mt mo len u k = (case mo of
     None \<Rightarrow> Ret (FAILURE, None, k)
   | Some m \<Rightarrow>
       if len = 0 then Ret (FAILURE, Some m, k)
       else bindo (usock_sendto uid mt m (unat len) u k) (\<lambda>(r, m', k'). Ret (r, Some m', k')))"

definition cl_recvfrom_q ::
  "int \<Rightarrow> msg_buf option \<Rightarrow> u16 \<Rightarrow> bool \<Rightarrow> usock \<Rightarrow> kernel \<Rightarrow> (int \<times> msg_buf option \<times> kernel) outcome" where
  "cl_recvfrom_q mt mo len nowait u k = (case mo of
     None \<Rightarrow> Ret (FAILURE, None, k)
   | Some m \<Rightarrow>
       if len = 0 then Ret (FAILURE, Some m, k)
       else bindo (usock_recvfrom mt (clear_struct m) (unat len) nowait u k)
              (\<lambda>(r, m', k'). Ret (r, Some m', k')))"

definition cl_get_descriptor :: "int \<Rightarrow> usock \<Rightarrow> int" where
  "cl_get_descriptor mt u = usock_get_descriptor mt u"

section \<open>What the callers rely on\<close>

locale transport =
  fixes send :: "'a \<Rightarrow> 'm \<Rightarrow> 's \<Rightarrow> 's"
    and poll :: "'a \<Rightarrow> 's \<Rightarrow> 'r \<times> 's"
    and wire :: "'a \<Rightarrow> 'm \<Rightarrow> 'd"
    and got :: "'d \<Rightarrow> 'r"
    and nothing :: 'r
    and pending :: "'s \<Rightarrow> 'a \<Rightarrow> 'd list"
    and open_at :: "'s \<Rightarrow> 'a \<Rightarrow> bool"
    and fits :: "'m \<Rightarrow> bool"
  assumes send_pending:
      "open_at s a \<Longrightarrow> open_at s b \<Longrightarrow> fits m \<Longrightarrow>
       pending (send a m s) b = (if b = a then pending s a @ [wire a m] else pending s b)"
    and send_open: "open_at s a \<Longrightarrow> fits m \<Longrightarrow> open_at (send a m s) b = open_at s b"
    and poll_got: "open_at s a \<Longrightarrow> pending s a = d # ds \<Longrightarrow> fst (poll a s) = got d"
    and poll_pending:
      "open_at s a \<Longrightarrow> open_at s b \<Longrightarrow>
       pending (snd (poll a s)) b = (if b = a then tl (pending s a) else pending s b)"
    and poll_nothing: "open_at s a \<Longrightarrow> pending s a = [] \<Longrightarrow> fst (poll a s) = nothing"
    and poll_open: "open_at s a \<Longrightarrow> open_at (snd (poll a s)) b = open_at s b"
begin

fun send_all :: "('a \<times> 'm) list \<Rightarrow> 's \<Rightarrow> 's" where
  "send_all [] s = s"
| "send_all ((a, m) # xs) s = send_all xs (send a m s)"

fun drain :: "nat \<Rightarrow> 'a \<Rightarrow> 's \<Rightarrow> 'r list \<times> 's" where
  "drain 0 a s = ([], s)"
| "drain (Suc n) a s = (let (r, s') = poll a s; (rs, s'') = drain n a s' in (r # rs, s''))"

definition addressed :: "'a \<Rightarrow> ('a \<times> 'm) list \<Rightarrow> 'd list" where
  "addressed b xs = map (\<lambda>(a, m). wire a m) (filter (\<lambda>(a, m). a = b) xs)"

lemma send_all_open:
  "(\<forall>(a, m) \<in> set xs. open_at s a \<and> fits m) \<Longrightarrow> open_at (send_all xs s) b = open_at s b"
  by (induction xs s rule: send_all.induct) (auto simp: send_open)

lemma send_all_pending:
  "(\<forall>(a, m) \<in> set xs. open_at s a \<and> fits m) \<Longrightarrow> open_at s b \<Longrightarrow>
   pending (send_all xs s) b = pending s b @ addressed b xs"
  by (induction xs s rule: send_all.induct)
    (auto simp: addressed_def send_open send_pending split: if_splits)

lemma drain_fifo:
  "open_at s a \<Longrightarrow> n \<le> length (pending s a) \<Longrightarrow>
   fst (drain n a s) = map got (take n (pending s a))
   \<and> pending (snd (drain n a s)) a = drop n (pending s a)
   \<and> (\<forall>b. open_at s b \<longrightarrow> b \<noteq> a \<longrightarrow> pending (snd (drain n a s)) b = pending s b)"
proof (induction n arbitrary: s)
  case (Suc n)
  then obtain d ds where p: "pending s a = d # ds" by (cases "pending s a") auto
  define t where "t = snd (poll a s)"
  have t: "open_at t a" "pending t a = ds" "fst (poll a s) = got d"
    "\<And>b. open_at t b = open_at s b"
    "\<And>b. open_at s b \<Longrightarrow> b \<noteq> a \<Longrightarrow> pending t b = pending s b"
    using Suc.prems p by (auto simp: t_def poll_open poll_pending poll_got)
  with Suc.IH [OF t(1)] Suc.prems p show ?case
    by (simp add: case_prod_beta t_def [symmetric])
qed simp

lemma send_all_drain:
  assumes "\<forall>(a, m) \<in> set xs. open_at s a \<and> fits m" "open_at s b" "pending s b = []"
    and "n = length (addressed b xs)"
  shows "fst (drain n b (send_all xs s)) = map got (addressed b xs)"
  using drain_fifo [of "send_all xs s" b n] send_all_pending [OF assms(1,2)]
    send_all_open [OF assms(1)] assms by simp

end

section \<open>The socket transport provides it\<close>

type_synonym address = "cl_line \<times> u16"

abbreviation mt :: "address \<Rightarrow> int" where "mt a \<equiv> MTYPE (fst a) (snd a)"

text \<open>Callers send \<open>sizeof(msg_buf_t) + mbuf->len\<close> bytes; the length parameter is 16 bits.\<close>

definition send_len :: "msg_buf \<Rightarrow> u16" where
  "send_len m = of_nat sizeof_msg_buf + mb_len m"

definition fits_buf :: "msg_buf \<Rightarrow> bool" where
  "fits_buf m \<longleftrightarrow> unat (mb_len m) < length (buf m) \<and> unat (mb_len m) + 16 < 2 ^ 16"

definition wire :: "address \<Rightarrow> msg_buf \<Rightarrow> char list" where
  "wire a m = take (16 + unat (mb_len m)) (mem (m\<lparr>mb_mtype := word_of_int (mt a)\<rparr>))"

text \<open>One process sends (\<open>su\<close>); \<open>rcv a\<close> is the process bound to the address \<open>a\<close>.\<close>

definition usend :: "u32 \<Rightarrow> usock \<Rightarrow> address \<Rightarrow> msg_buf \<Rightarrow> kernel \<Rightarrow> kernel" where
  "usend uid su a m k = (case cl_sendto_q uid (mt a) (Some m) (send_len m) su k of
     Ret (r, m', k') \<Rightarrow> k' | _ \<Rightarrow> k)"

definition upoll :: "nat \<Rightarrow> (address \<Rightarrow> usock) \<Rightarrow> address \<Rightarrow> kernel \<Rightarrow> (int \<times> msg_buf option) option \<times> kernel" where
  "upoll cap rcv a k =
     (case cl_recvfrom_q (mt a) (Some (DEFINE_MBUF_SZ cap)) (of_nat (16 + cap)) True (rcv a) k of
        Ret (r, m, k') \<Rightarrow> (Some (r, m), k') | _ \<Rightarrow> (None, k))"

definition ugot :: "nat \<Rightarrow> char list \<Rightarrow> (int \<times> msg_buf option) option" where
  "ugot cap d =
     (let d' = take (16 + cap) d;
          m = unmem (d' @ drop (length d') (mem (clear_struct (DEFINE_MBUF_SZ cap))))
      in Some (if 0 < length d' \<and> length d' < 12 then FAILURE else int (length d'), Some m))"

definition unothing :: "nat \<Rightarrow> (int \<times> msg_buf option) option" where
  "unothing cap = Some (-1, Some (clear_struct (DEFINE_MBUF_SZ cap)))"

definition rfd :: "(address \<Rightarrow> usock) \<Rightarrow> address \<Rightarrow> int" where
  "rfd rcv a = usock_fd (rcv a) (mt a)"

text \<open>The sender has a socket, the receiver is bound, its buffer size fits the 16-bit length.\<close>

definition uopen :: "u32 \<Rightarrow> usock \<Rightarrow> nat \<Rightarrow> (address \<Rightarrow> usock) \<Rightarrow> kernel \<Rightarrow> address \<Rightarrow> bool" where
  "uopen uid su cap rcv k a \<longleftrightarrow>
     16 + cap < 2 ^ 16 \<and> kernel_ok k \<and> 0 \<le> g_def_line su
     \<and> 3 \<le> g_usock_fd su ! nat (g_def_line su) \<and> g_usock_fd su ! nat (g_def_line su) \<in> set (k_open k)
     \<and> k_name k (rfd rcv a) = Some (usock_setabsaddr uid (mt a))"

definition upending :: "(address \<Rightarrow> usock) \<Rightarrow> kernel \<Rightarrow> address \<Rightarrow> char list list" where
  "upending rcv k a = k_queue k (rfd rcv a)"

lemma uopen_fd:
  "uopen uid su cap rcv k a \<Longrightarrow> 3 \<le> rfd rcv a \<and> rfd rcv a \<in> set (k_open k)
     \<and> name_fd k (usock_setabsaddr uid (mt a)) = Some (rfd rcv a)"
  using kernel_ok_named [of k "rfd rcv a"] name_fd_Some by (auto simp: uopen_def)

lemma uopen_distinct:
  "uopen uid su cap rcv k a \<Longrightarrow> uopen uid su cap rcv k b \<Longrightarrow> rfd rcv a = rfd rcv b \<Longrightarrow> a = b"
  by (auto simp: uopen_def usock_name_inject prod_eq_iff)

lemma uopen_queue [simp]: "uopen uid su cap rcv (k\<lparr>k_queue := q\<rparr>) a = uopen uid su cap rcv k a"
  by (simp add: uopen_def)

lemma unat_send_len: "fits_buf m \<Longrightarrow> unat (send_len m) = 16 + unat (mb_len m)"
  by (simp add: fits_buf_def send_len_def sizeof_msg_buf_def unat_word_ariths)

lemma send_len_nonzero: "fits_buf m \<Longrightarrow> send_len m \<noteq> 0"
  using unat_send_len by fastforce

lemma usend_eq:
  assumes "uopen uid su cap rcv k a" "fits_buf m"
  shows "cl_sendto_q uid (mt a) (Some m) (send_len m) su k
         = Ret (SUCCESS, Some (m\<lparr>mb_mtype := word_of_int (mt a)\<rparr>),
                k\<lparr>k_queue := (k_queue k)(rfd rcv a := k_queue k (rfd rcv a) @ [wire a m])\<rparr>)"
proof -
  have len: "16 + unat (mb_len m) \<le> length (mem m)"
    "length (mem (m\<lparr>mb_mtype := x\<rparr>)) = length (mem m)" for x
    using assms(2) by (auto simp: fits_buf_def length_mem)
  with uopen_fd [OF assms(1)] assms show ?thesis
    by (auto simp: cl_sendto_q_def usock_sendto_def send_len_nonzero unat_send_len uopen_def
        sys_sendto_def wire_def Let_def)
qed

lemma usend_queue:
  "uopen uid su cap rcv k a \<Longrightarrow> fits_buf m \<Longrightarrow>
   usend uid su a m k = k\<lparr>k_queue := (k_queue k)(rfd rcv a := k_queue k (rfd rcv a) @ [wire a m])\<rparr>"
  by (simp add: usend_def usend_eq)

lemma length_clear_DEFINE [simp]: "length (mem (clear_struct (DEFINE_MBUF_SZ cap))) = 16 + cap"
  by (simp add: length_mem clear_struct_def DEFINE_MBUF_SZ_def zero_mbuf_def)

lemma clear_len_0 [simp]: "(clear_struct m)\<lparr>mb_len := 0\<rparr> = clear_struct m"
  by (simp add: clear_struct_def zero_mbuf_def)

lemma upoll_eq:
  assumes "uopen uid su cap rcv k a"
  shows "upoll cap rcv a k = (case k_queue k (rfd rcv a) of
           [] \<Rightarrow> (unothing cap, k)
         | d # ds \<Rightarrow> (ugot cap d, k\<lparr>k_queue := (k_queue k)(rfd rcv a := ds)\<rparr>))"
proof -
  have cap: "unat (of_nat (16 + cap) :: u16) = 16 + cap"
    using assms by (simp add: uopen_def unat_of_nat take_bit_nat_eq_self del: of_nat_add)
  then have nz: "(of_nat (16 + cap) :: u16) \<noteq> 0" by (metis add_is_0 unat_0 zero_neq_numeral)
  show ?thesis
    using uopen_fd [OF assms] cap nz
    by (auto simp: upoll_def cl_recvfrom_q_def usock_recvfrom_def sys_recvfrom_def rfd_def [symmetric]
        overwrite_def Let_def ugot_def unothing_def sizeof_msg_buf_def split: list.split)
qed

text \<open>A waiting receiver with any buffer of \<open>cap\<close> bytes gets the sender's message.\<close>

lemma mem_take:
  "15 \<le> n \<Longrightarrow> take n (mem m) = mem (m\<lparr>buf := take (n - 15) (buf m)\<rparr>)"
  by (simp add: mem_hdr)

definition received :: "address \<Rightarrow> msg_buf \<Rightarrow> msg_buf \<Rightarrow> msg_buf" where
  "received a m m0 = m\<lparr>mb_mtype := word_of_int (mt a),
     buf := take (unat (mb_len m) + 1) (buf m) @ drop (unat (mb_len m) + 1) (buf m0)\<rparr>"

lemma recv_wire:
  assumes "uopen uid su cap rcv k a" "k_queue k (rfd rcv a) = wire a m # ds"
    and "fits_buf m" "unat (mb_len m) \<le> cap" "length (buf m0) = cap + 1"
  shows "cl_recvfrom_q (mt a) (Some m0) (of_nat (16 + cap)) nowait (rcv a) k
         = Ret (16 + int (unat (mb_len m)), Some (received a m m0),
                k\<lparr>k_queue := (k_queue k)(rfd rcv a := ds)\<rparr>)"
proof -
  let ?n = "unat (mb_len m)" and ?m = "m\<lparr>mb_mtype := word_of_int (mt a)\<rparr>"
  have cap: "unat (of_nat (16 + cap) :: u16) = 16 + cap"
    using assms(1) by (simp add: uopen_def unat_of_nat take_bit_nat_eq_self del: of_nat_add)
  then have nz: "(of_nat (16 + cap) :: u16) \<noteq> 0" by (metis add_is_0 unat_0 zero_neq_numeral)
  have w: "wire a m = mem (?m\<lparr>buf := take (?n + 1) (buf m)\<rparr>)"
    by (simp add: wire_def mem_take)
  have lw: "length (wire a m) = 16 + ?n"
    using assms(3) by (simp add: w length_mem fits_buf_def)
  have d: "drop (16 + ?n) (mem (clear_struct m0)) = drop (?n + 1) (buf m0)"
    by (cases "buf m0") (simp_all add: mem_hdr clear_struct_def)
  have "unmem (wire a m @ drop (?n + 1) (buf m0)) = received a m m0"
    unfolding received_def by (subst unmem_header [where m = ?m]) (simp_all add: w mem_hdr)
  moreover have "length (mem (clear_struct m0)) = 16 + cap"
    using assms(5) by (simp add: length_mem clear_struct_def)
  moreover have "(clear_struct m0)\<lparr>mb_len := 0\<rparr> = clear_struct m0"
    by (simp add: clear_struct_def zero_mbuf_def)
  moreover have "\<not> 4 + uint (mb_len m) < 0" using uint_u16_range(1) [of "mb_len m"] by linarith
  ultimately show ?thesis
    using uopen_fd [OF assms(1)] cap nz lw d assms(2,4)
    by (simp add: cl_recvfrom_q_def usock_recvfrom_def sys_recvfrom_def rfd_def [symmetric]
        overwrite_def Let_def sizeof_msg_buf_def)
qed

lemma received_fields [simp]:
  "src_id (received a m m0) = src_id m" "dst_id (received a m m0) = dst_id m"
  "flags (received a m m0) = flags m" "mb_len (received a m m0) = mb_len m"
  "info0 (received a m m0) = info0 m" "info1 (received a m m0) = info1 m"
  by (simp_all add: received_def)

lemma length_buf_received [simp]:
  "fits_buf m \<Longrightarrow> unat (mb_len m) < length (buf m0) \<Longrightarrow> length (buf (received a m m0)) = length (buf m0)"
  by (simp add: received_def fits_buf_def)

text \<open>The same for a caller that sends another number of bytes than the length field says.\<close>

lemma sendto_len:
  assumes "uopen uid su cap rcv k a" "len \<noteq> 0" "unat len \<le> length (mem m)"
  shows "cl_sendto_q uid (mt a) (Some m) len su k
         = Ret (SUCCESS, Some (m\<lparr>mb_mtype := word_of_int (mt a)\<rparr>),
                k\<lparr>k_queue := (k_queue k)(rfd rcv a := k_queue k (rfd rcv a) @
                     [take (unat len) (mem (m\<lparr>mb_mtype := word_of_int (mt a)\<rparr>))])\<rparr>)"
proof -
  have "length (mem (m\<lparr>mb_mtype := x\<rparr>)) = length (mem m)" for x by (simp add: length_mem)
  with uopen_fd [OF assms(1)] assms show ?thesis
    by (auto simp: cl_sendto_q_def usock_sendto_def uopen_def sys_sendto_def Let_def)
qed

lemma recv_len:
  assumes "uopen uid su cap rcv k a" "k_queue k (rfd rcv a) = take n (mem m) # ds"
    and "16 \<le> n" "n \<le> 16 + cap" "n \<le> length (mem m)" "length (buf m0) = cap + 1"
  shows "cl_recvfrom_q (mt a) (Some m0) (of_nat (16 + cap)) nowait (rcv a) k
         = Ret (int n, Some (m\<lparr>buf := take (n - 15) (buf m) @ drop (n - 15) (buf m0)\<rparr>),
                k\<lparr>k_queue := (k_queue k)(rfd rcv a := ds)\<rparr>)"
proof -
  have cap: "unat (of_nat (16 + cap) :: u16) = 16 + cap"
    using assms(1) by (simp add: uopen_def unat_of_nat take_bit_nat_eq_self del: of_nat_add)
  then have nz: "(of_nat (16 + cap) :: u16) \<noteq> 0" by (metis add_is_0 unat_0 zero_neq_numeral)
  have w: "take n (mem m) = mem (m\<lparr>buf := take (n - 15) (buf m)\<rparr>)"
    using assms(3) by (simp add: mem_take)
  obtain j where j: "n = 16 + j" using assms(3) le_Suc_ex by blast
  have d: "drop n (mem (clear_struct m0)) = drop (n - 15) (buf m0)"
    by (cases "buf m0") (simp_all add: mem_hdr clear_struct_def j)
  have "unmem (take n (mem m) @ drop (n - 15) (buf m0)) = m\<lparr>buf := take (n - 15) (buf m) @ drop (n - 15) (buf m0)\<rparr>"
    by (subst unmem_header [where m = m]) (simp_all add: mem_hdr j)
  moreover have "length (mem (clear_struct m0)) = 16 + cap"
    using assms(6) by (simp add: length_mem clear_struct_def)
  moreover have "(clear_struct m0)\<lparr>mb_len := 0\<rparr> = clear_struct m0"
    by (simp add: clear_struct_def zero_mbuf_def)
  moreover obtain x where "take n (mem m) = x" "length x = n" using assms(5) by simp
  ultimately show ?thesis
    using uopen_fd [OF assms(1)] cap nz d assms(2-4)
    by (simp add: cl_recvfrom_q_def usock_recvfrom_def sys_recvfrom_def rfd_def [symmetric]
        overwrite_def Let_def sizeof_msg_buf_def)
qed

interpretation usocks: transport "usend uid su" "upoll cap rcv" wire "ugot cap" "unothing cap"
    "upending rcv" "uopen uid su cap rcv" fits_buf
  for uid su cap rcv
proof
  fix k a b m
  assume o: "uopen uid su cap rcv k a"
  show "uopen uid su cap rcv k b \<Longrightarrow> fits_buf m \<Longrightarrow>
      upending rcv (usend uid su a m k) b
      = (if b = a then upending rcv k a @ [wire a m] else upending rcv k b)"
    using o uopen_distinct [OF o, of b] by (auto simp: usend_queue upending_def)
  show "fits_buf m \<Longrightarrow> uopen uid su cap rcv (usend uid su a m k) b = uopen uid su cap rcv k b"
    using o by (simp add: usend_queue)
  show "upending rcv k a = d # ds \<Longrightarrow> fst (upoll cap rcv a k) = ugot cap d" for d ds
    using upoll_eq [OF o] by (simp add: upending_def)
  show "upending rcv k a = [] \<Longrightarrow> fst (upoll cap rcv a k) = unothing cap"
    using upoll_eq [OF o] by (simp add: upending_def)
  show "uopen uid su cap rcv (snd (upoll cap rcv a k)) b = uopen uid su cap rcv k b"
    using upoll_eq [OF o] by (simp split: list.split)
  show "uopen uid su cap rcv k b \<Longrightarrow>
      upending rcv (snd (upoll cap rcv a k)) b
      = (if b = a then tl (upending rcv k a) else upending rcv k b)"
    using upoll_eq [OF o] uopen_distinct [OF o, of b]
    by (auto simp: upending_def split: list.split)
qed

section \<open>A process joins\<close>

definition kernel_start :: "int \<Rightarrow> kernel" where
  "kernel_start lim = \<lparr>k_open = [0, 1, 2], k_name = (\<lambda>_. None), k_queue = (\<lambda>_. []),
                       k_next = 3, k_limit = lim\<rparr>"

lemma kernel_ok_start [simp]: "kernel_ok (kernel_start lim)"
  by (simp add: kernel_ok_def kernel_start_def)

lemma length_usock_start [simp]: "length (g_usock_fd usock_start) = 5"
  by (simp add: usock_start_def MAX_CL_LINE_def)

lemma usock_start_eq: "usock_start = \<lparr>g_usock_fd = [-1, 0, 0, 0, 0], g_def_line = -1\<rparr>"
  by (simp add: usock_start_def MAX_CL_LINE_def eval_nat_numeral)

lemma line_index [simp]: "nat (line_no l) < 5"
  by (cases l) auto

lemma init_free_name:
  assumes "kernel_ok k" "k_next k < k_limit k"
    and "\<forall>fd. k_name k fd \<noteq> Some (usock_setabsaddr uid (mt a))"
  shows "usock_init uid (mt a) u k =
     (SUCCESS,
      (let u1 = u\<lparr>g_usock_fd := (g_usock_fd u)[nat (line_no (fst a)) := k_next k]\<rparr>
       in if g_def_line u < 0 then u1\<lparr>g_def_line := line_no (fst a)\<rparr> else u1),
      k\<lparr>k_open := k_next k # k_open k, k_next := k_next k + 1,
        k_queue := (k_queue k)(k_next k := []),
        k_name := (k_name k)(k_next k := Some (usock_setabsaddr uid (mt a)))\<rparr>)"
proof -
  let ?k1 = "snd (sys_socket k)"
  have k1: "kernel_ok ?k1" "k_name ?k1 = k_name k"
    using kernel_ok_socket [OF assms(1)] by (auto simp: sys_socket_def)
  with assms have "name_fd ?k1 (usock_setabsaddr uid (mt a)) = None"
    by (simp add: name_fd_None)
  moreover have "k_name k (k_next k) = None" "3 \<le> k_next k"
    using assms(1) kernel_ok_named [of k "k_next k"] by (auto simp: kernel_ok_def)
  ultimately show ?thesis
    using assms(2) by (simp add: usock_init_def Let_def sys_socket_def sys_bind_def)
qed

section \<open>Properties\<close>

fun upolls :: "nat \<Rightarrow> (address \<Rightarrow> usock) \<Rightarrow> address \<Rightarrow> nat \<Rightarrow> kernel \<Rightarrow> (int \<times> msg_buf option) option list" where
  "upolls cap rcv a 0 k = []"
| "upolls cap rcv a (Suc n) k = (let (r, k') = upoll cap rcv a k in r # upolls cap rcv a n k')"

definition msgs_for :: "address \<Rightarrow> (address \<times> msg_buf) list \<Rightarrow> msg_buf list" where
  "msgs_for b xs = map snd (filter (\<lambda>p. fst p = b) xs)"

lemma upolls_drain: "upolls cap rcv a n k = fst (usocks.drain cap rcv n a k)"
  by (induction n arbitrary: k) (auto simp: case_prod_beta)

lemma fold_usend: "fold (\<lambda>(a, m). usend uid su a m) xs k = usocks.send_all uid su xs k"
  by (induction xs arbitrary: k) auto

lemma addressed_msgs: "usocks.addressed b xs = map (wire b) (msgs_for b xs)"
  by (induction xs) (auto simp: usocks.addressed_def msgs_for_def)

text \<open>
  C9: Commline delivers in order and never to the wrong node: whatever one process sends to
  any mix of bound addresses, polling one address returns exactly the messages sent to it,
  in the order they were sent, each with the bytes that went on the wire.
\<close>

theorem commline_fifo:
  assumes "\<forall>(a, m) \<in> set xs. uopen uid su cap rcv k a \<and> fits_buf m"
    and "uopen uid su cap rcv k b" "upending rcv k b = []"
  shows "upolls cap rcv b (length (msgs_for b xs)) (fold (\<lambda>(a, m). usend uid su a m) xs k)
         = map (\<lambda>m. ugot cap (wire b m)) (msgs_for b xs)"
  using usocks.send_all_drain [OF assms refl]
  by (simp add: upolls_drain fold_usend addressed_msgs comp_def)

definition demo_u :: usock where
  "demo_u = \<lparr>g_usock_fd = [-1, 0, 3, 0, 0], g_def_line = 2\<rparr>"

definition demo_k :: kernel where
  "demo_k = (kernel_start 100)\<lparr>k_open := [3, 0, 1, 2], k_next := 4,
     k_name := (\<lambda>_. None)(3 := Some (usock_setabsaddr 0 (MTYPE AIRLINE CL_MGR_ID)))\<rparr>"

lemma demo_open: "uopen 0 demo_u 2048 (\<lambda>_. demo_u) demo_k (AIRLINE, CL_MGR_ID)"
  by (simp add: uopen_def demo_u_def demo_k_def kernel_ok_def rfd_def usock_fd_def kernel_start_def)

definition demo_all :: usock where
  "demo_all = \<lparr>g_usock_fd = replicate 5 3, g_def_line = 2\<rparr>"

definition demo_at :: "address \<Rightarrow> kernel" where
  "demo_at a = demo_k\<lparr>k_name := (\<lambda>_. None)(3 := Some (usock_setabsaddr 0 (mt a)))\<rparr>"

lemma demo_open_at: "uopen 0 demo_all 2048 (\<lambda>_. demo_all) (demo_at a) a"
  by (simp add: uopen_def demo_all_def demo_at_def demo_k_def kernel_ok_def rfd_def usock_fd_def kernel_start_def)

lemma demo_empty_at [simp]: "upending (\<lambda>_. demo_all) (demo_at a) b = []"
  by (simp add: upending_def demo_at_def demo_k_def kernel_start_def)

theorem commline_fifo_witness:
  "upolls 2048 (\<lambda>_. demo_u) (AIRLINE, CL_MGR_ID) 2
     (fold (\<lambda>(a, m). usend 0 demo_u a m)
        [((AIRLINE, CL_MGR_ID), DEFINE_MBUF), ((AIRLINE, CL_MGR_ID), DEFINE_MBUF\<lparr>mb_len := 3\<rparr>)] demo_k)
   = [ugot 2048 (wire (AIRLINE, CL_MGR_ID) DEFINE_MBUF),
      ugot 2048 (wire (AIRLINE, CL_MGR_ID) (DEFINE_MBUF\<lparr>mb_len := 3\<rparr>))]"
proof -
  let ?A = "(AIRLINE, CL_MGR_ID)"
  let ?xs = "[(?A, DEFINE_MBUF), (?A, DEFINE_MBUF\<lparr>mb_len := 3\<rparr>)]"
  have ok: "\<forall>(a, m) \<in> set ?xs. uopen 0 demo_u 2048 (\<lambda>_. demo_u) demo_k a \<and> fits_buf m"
    by (simp add: demo_open fits_buf_def)
  have e: "upending (\<lambda>_. demo_u) demo_k ?A = []"
    by (simp add: upending_def demo_k_def kernel_start_def)
  from commline_fifo [OF ok demo_open e] show ?thesis
    by (simp add: msgs_for_def numeral_2_eq_2 del: upolls.simps)
qed

lemma ugot_wire:
  assumes "fits_buf m" "unat (mb_len m) \<le> cap"
  shows "ugot cap (wire a m) = Some (16 + int (unat (mb_len m)), Some (m\<lparr>mb_mtype := word_of_int (mt a),
      buf := take (unat (mb_len m) + 1) (buf m) @ replicate (cap - unat (mb_len m)) NUL\<rparr>))"
proof -
  let ?n = "unat (mb_len m)" and ?m = "m\<lparr>mb_mtype := word_of_int (mt a)\<rparr>"
  have w: "wire a m = mem (?m\<lparr>buf := take (?n + 1) (buf m)\<rparr>)"
    by (simp add: wire_def mem_take)
  have lw: "length (wire a m) = 16 + ?n"
    using assms(1) by (simp add: w length_mem fits_buf_def)
  have d: "drop (16 + ?n) (mem (clear_struct (DEFINE_MBUF_SZ cap))) = replicate (cap - ?n) NUL"
    by (simp add: mem_hdr clear_struct_def DEFINE_MBUF_SZ_def zero_mbuf_def)
  have "unmem (wire a m @ replicate (cap - ?n) NUL)
        = ?m\<lparr>buf := take (?n + 1) (buf m) @ replicate (cap - ?n) NUL\<rparr>"
    by (subst unmem_header [where m = ?m]) (simp_all add: w mem_hdr)
  with lw d assms(2) show ?thesis
    by (simp add: ugot_def Let_def)
qed

text \<open>
  C19: A message sent with \<open>cl_sendto_q\<close> arrives unchanged: the receiver's structure has the
  sender's header fields (with the destination as message type) and the sender's payload
  with the byte behind it, and the rest of the receiver's buffer is zero.
\<close>

theorem message_arrives_unchanged:
  assumes "uopen uid su cap rcv k a" "fits_buf m" "unat (mb_len m) \<le> cap"
    and "upending rcv k a = []"
  shows "cl_sendto_q uid (mt a) (Some m) (send_len m) su k
         = Ret (SUCCESS, Some (m\<lparr>mb_mtype := word_of_int (mt a)\<rparr>), usend uid su a m k)
    \<and> upoll cap rcv a (usend uid su a m k)
         = (Some (16 + int (unat (mb_len m)), Some (m\<lparr>mb_mtype := word_of_int (mt a),
              buf := take (unat (mb_len m) + 1) (buf m) @ replicate (cap - unat (mb_len m)) NUL\<rparr>)), k)"
proof -
  have q: "usend uid su a m k = k\<lparr>k_queue := (k_queue k)(rfd rcv a := [wire a m])\<rparr>"
    using assms by (simp add: usend_queue upending_def)
  have "k_queue k (rfd rcv a) = []" using assms(4) by (simp add: upending_def)
  then have "(k_queue k)(rfd rcv a := []) = k_queue k" by (metis fun_upd_triv)
  moreover have "uopen uid su cap rcv (usend uid su a m k) a" using assms(1) by (simp add: q)
  ultimately show ?thesis
    using usend_eq [OF assms(1,2)] upoll_eq [of uid su cap rcv "usend uid su a m k" a] assms
    by (simp add: q upending_def ugot_wire)
qed

theorem message_arrives_unchanged_witness:
  "upoll 2048 (\<lambda>_. demo_u) (AIRLINE, CL_MGR_ID) (usend 0 demo_u (AIRLINE, CL_MGR_ID) DEFINE_MBUF demo_k)
   = (Some (16, Some (DEFINE_MBUF\<lparr>mb_mtype := word_of_int (MTYPE AIRLINE CL_MGR_ID),
        buf := take 1 (buf DEFINE_MBUF) @ replicate 2048 NUL\<rparr>)), demo_k)"
proof -
  have f: "fits_buf DEFINE_MBUF" by (simp add: fits_buf_def)
  have l: "unat (mb_len DEFINE_MBUF) \<le> 2048" by simp
  have e: "upending (\<lambda>_. demo_u) demo_k (AIRLINE, CL_MGR_ID) = []"
    by (simp add: upending_def demo_k_def kernel_start_def)
  from message_arrives_unchanged [OF demo_open f l e] show ?thesis by simp
qed

text \<open>
  C35: An address has one owner.  The first process to initialise an address gets a socket
  that is open, bound and empty; a later \<open>cl_init\<close> for the same address fails, leaves every
  name and every queued message as it was, and closes the socket it made.
\<close>

theorem address_has_one_owner:
  assumes "kernel_ok k" "k_next k < k_limit k"
    and "\<forall>fd. k_name k fd \<noteq> Some (usock_setabsaddr uid (mt a))"
    and "16 + cap < 2 ^ 16"
    and "cl_init uid (mt a) usock_start k = (r, u, k')"
  shows "r = SUCCESS \<and> uopen uid u cap (\<lambda>_. u) k' a \<and> upending (\<lambda>_. u) k' a = []
    \<and> fst (cl_init uid (mt a) u' k') = FAILURE
    \<and> k_name (snd (snd (cl_init uid (mt a) u' k'))) = k_name k'
    \<and> (\<forall>fd \<in> set (k_open k'). k_queue (snd (snd (cl_init uid (mt a) u' k'))) fd = k_queue k' fd)
    \<and> set (k_open (snd (snd (cl_init uid (mt a) u' k')))) = set (k_open k')"
proof -
  have neg: "g_def_line usock_start < 0" by (simp add: usock_start_def)
  have k3: "3 \<le> k_next k" and nopen: "k_next k \<notin> set (k_open k)"
    using assms(1) by (auto simp: kernel_ok_def)
  from init_free_name [OF assms(1-3), of usock_start] assms(5) neg
  have u: "r = SUCCESS" "u = usock_start\<lparr>g_usock_fd := (g_usock_fd usock_start)[nat (line_no (fst a)) := k_next k],
        g_def_line := line_no (fst a)\<rparr>"
    and k': "k' = k\<lparr>k_open := k_next k # k_open k, k_next := k_next k + 1,
        k_queue := (k_queue k)(k_next k := []),
        k_name := (k_name k)(k_next k := Some (usock_setabsaddr uid (mt a)))\<rparr>"
    by (auto simp: cl_init_def Let_def)
  have ok': "kernel_ok k'"
    using kernel_ok_init [OF assms(1), of uid "mt a" usock_start] assms(5) by (simp add: cl_init_def)
  have own: "k_name k' (k_next k) = Some (usock_setabsaddr uid (mt a))" by (simp add: k')
  have fd: "rfd (\<lambda>_. u) a = k_next k" by (simp add: rfd_def usock_fd_def u(2))
  have op: "uopen uid u cap (\<lambda>_. u) k' a" "upending (\<lambda>_. u) k' a = []"
    using ok' own fd assms(4) k3 line_no_range [of "fst a"] by (auto simp: uopen_def u(2) upending_def k')
  have nm: "k_name k' (k_next k') = None"
    using kernel_ok_named [OF ok', of "k_next k'"] by (cases "k_name k' (k_next k')") auto
  have fresh: "k_next k' \<notin> set (k_open k')" using ok' by (auto simp: kernel_ok_def)
  have "name_fd (snd (sys_socket k')) (usock_setabsaddr uid (mt a)) \<noteq> None"
    using own name_fd_None [OF kernel_ok_socket [OF ok']] by (auto simp: sys_socket_def)
  then have taken: "k_next k' < k_limit k' \<Longrightarrow>
      name_fd (k'\<lparr>k_open := k_next k' # k_open k', k_next := k_next k' + 1,
                  k_queue := (k_queue k')(k_next k' := [])\<rparr>) (usock_setabsaddr uid (mt a)) \<noteq> None"
    by (simp add: sys_socket_def)
  then have "cl_init uid (mt a) u' k' =
      (FAILURE, (if k_next k' \<ge> k_limit k' then u'\<lparr>g_usock_fd := (g_usock_fd u')[nat (line_no (fst a)) := -1]\<rparr>
        else u'\<lparr>g_usock_fd := (g_usock_fd u')[nat (line_no (fst a)) := -1]\<rparr>),
       (if k_next k' \<ge> k_limit k' then k' else sys_close (k_next k') (snd (sys_socket k'))))"
    using ok' by (cases "k_next k' < k_limit k'")
      (auto simp: cl_init_def usock_init_def Let_def sys_socket_def sys_bind_def CLOSE_def
        kernel_ok_def)
  with nm fresh u(1) op show ?thesis
    by (auto simp: sys_close_def sys_socket_def fun_eq_iff)
qed

theorem address_has_one_owner_witness:
  "fst (cl_init 0 (MTYPE AIRLINE CL_MGR_ID) usock_start
     (snd (snd (cl_init 0 (MTYPE AIRLINE CL_MGR_ID) usock_start (kernel_start 100))))) = FAILURE"
proof -
  let ?A = "(AIRLINE, CL_MGR_ID)"
  obtain r u k' where i: "cl_init 0 (mt ?A) usock_start (kernel_start 100) = (r, u, k')"
    by (metis prod_cases3)
  have n: "k_next (kernel_start 100) < k_limit (kernel_start 100)"
    "\<forall>fd. k_name (kernel_start 100) fd \<noteq> Some (usock_setabsaddr 0 (mt ?A))"
    "16 + 2048 < (2::nat) ^ 16"
    by (simp_all add: kernel_start_def)
  from address_has_one_owner [OF kernel_ok_start n i, of usock_start] i show ?thesis by simp
qed

lemma close_all_zero: "0 \<in> set fds \<Longrightarrow> 0 \<notin> set (k_open (snd (close_all fds k)))"
proof -
  have keep: "0 \<notin> set (k_open k) \<Longrightarrow> 0 \<notin> set (k_open (snd (close_all fds k)))" for fds k
  proof (induction fds arbitrary: k)
    case (Cons fd fds)
    then have "0 \<notin> set (k_open (snd (CLOSE fd k)))" by (simp add: CLOSE_def sys_close_def)
    from Cons.IH [OF this] show ?case by (simp add: case_prod_beta)
  qed simp
  show "0 \<in> set fds \<Longrightarrow> 0 \<notin> set (k_open (snd (close_all fds k)))"
  proof (induction fds arbitrary: k)
    case (Cons fd fds)
    have "fd = 0 \<Longrightarrow> 0 \<notin> set (k_open (snd (CLOSE fd k)))" by (simp add: CLOSE_def sys_close_def)
    with Cons keep show ?case by (auto simp: case_prod_beta)
  qed simp
qed

text \<open>
  \<open>cl_cleanup\<close> closes the standard input of every process that uses fewer than all
  lines: the initialiser sets only the first entry of \<open>g_usock_fd\<close> to -1, the entries of the
  lines never opened are 0, and \<open>CLOSE\<close> closes every descriptor that is not negative.
\<close>

theorem cleanup_closes_stdin:
  assumes "cl_init uid (mt a) usock_start k = (SUCCESS, u, k')"
  shows "0 \<notin> set (k_open (snd (cl_cleanup u k')))"
proof -
  have "0 \<in> set (g_usock_fd u)"
  proof -
    define j where "j = (if fst a = STACKLINE then 2 else 1 :: nat)"
    have "\<exists>fd. g_usock_fd u = (g_usock_fd usock_start)[nat (line_no (fst a)) := fd]"
      using assms by (auto simp: cl_init_def usock_init_def Let_def case_prod_beta split: if_splits)
    then have "g_usock_fd u ! j = 0 \<and> j < length (g_usock_fd u)"
      by (cases "fst a") (auto simp: j_def usock_start_def MAX_CL_LINE_def)
    then show ?thesis by (metis nth_mem)
  qed
  then show ?thesis
    by (simp add: cl_cleanup_def usock_cleanup_def case_prod_beta close_all_zero)
qed

theorem cleanup_closes_stdin_witness:
  "0 \<in> set (k_open (kernel_start 100)) \<and>
   0 \<notin> set (k_open (snd (cl_cleanup demo_u
     (snd (snd (cl_init 0 (MTYPE AIRLINE CL_MGR_ID) usock_start (kernel_start 100)))))))"
proof -
  have "cl_init 0 (mt (AIRLINE, CL_MGR_ID)) usock_start (kernel_start 100)
      = (SUCCESS, demo_u, snd (snd (cl_init 0 (mt (AIRLINE, CL_MGR_ID)) usock_start (kernel_start 100))))"
    unfolding cl_init_def
    by (subst (1 2) init_free_name) (simp_all add: kernel_start_def kernel_ok_def usock_start_eq demo_u_def)
  from cleanup_closes_stdin [OF this] show ?thesis
    by (simp add: kernel_start_def)
qed

end
