(* ===== verification/Cl_Msgq.thy ===== *)
theory Cl_Msgq
  imports Commline_API
begin

text \<open>
  \<open>commline/cl_msgq.c\<close>: the other transport of commline, one System V message queue shared by
  all processes (the \<open>#else\<close> branches of \<open>USE_UNIX_SOCKETS\<close> in \<open>commline.c\<close> and
  \<open>commline.h\<close>).  In this build \<open>mtype\<close> is a 64-bit \<open>long\<close>, the structure has 20 bytes, and
  the lengths given to \<open>msgsnd\<close> and \<open>msgrcv\<close> do not count \<open>mtype\<close>.  The locale \<open>transport\<close> of
  \<open>Commline_API\<close> is interpreted a second time, and both transports are shown to deliver the
  same messages.
\<close>

section \<open>System V message queues\<close>

record mqueue =
  mq_id :: int
  mq_key :: int
  mq_msgs :: "(int \<times> char list) list"

text \<open>\<open>v_qbytes\<close> is the limit of a queue's bytes, if one is set; \<open>v_msgmax\<close> that of a message.\<close>

record sysv =
  v_queues :: "mqueue list"
  v_next :: int
  v_qbytes :: "nat option"
  v_msgmax :: nat

definition queue_of :: "sysv \<Rightarrow> int \<Rightarrow> mqueue option" where
  "queue_of v i = List.find (\<lambda>q. mq_id q = i) (v_queues v)"

definition set_msgs :: "int \<Rightarrow> (int \<times> char list) list \<Rightarrow> sysv \<Rightarrow> sysv" where
  "set_msgs i ms v =
     v\<lparr>v_queues := List.map (\<lambda>q. if mq_id q = i then q\<lparr>mq_msgs := ms\<rparr> else q) (v_queues v)\<rparr>"

definition sys_msgget :: "int \<Rightarrow> bool \<Rightarrow> sysv \<Rightarrow> int \<times> sysv" where
  \<comment> \<open>the flags always have \<open>IPC_CREAT\<close>; the boolean is \<open>IPC_EXCL\<close>\<close>
  "sys_msgget key excl v = (case List.find (\<lambda>q. mq_key q = key) (v_queues v) of
     Some q \<Rightarrow> if excl then (-1, v) else (mq_id q, v)
   | None \<Rightarrow> (v_next v, v\<lparr>v_queues := \<lparr>mq_id = v_next v, mq_key = key, mq_msgs = []\<rparr> # v_queues v,
                          v_next := v_next v + 1\<rparr>))"

definition sys_msgrmid :: "int \<Rightarrow> sysv \<Rightarrow> int \<times> sysv" where
  "sys_msgrmid i v = (case queue_of v i of
     None \<Rightarrow> (-1, v)
   | Some q \<Rightarrow> (0, v\<lparr>v_queues := filter (\<lambda>q. mq_id q \<noteq> i) (v_queues v)\<rparr>))"

definition msg_bytes :: "(int \<times> char list) list \<Rightarrow> nat" where
  "msg_bytes ms = sum_list (List.map (length \<circ> snd) ms)"

definition has_room :: "sysv \<Rightarrow> mqueue \<Rightarrow> nat \<Rightarrow> bool" where
  "has_room v q n \<longleftrightarrow>
     (case v_qbytes v of None \<Rightarrow> True | Some b \<Rightarrow> msg_bytes (mq_msgs q) + n \<le> b)"

definition sys_msgsnd :: "int \<Rightarrow> int \<Rightarrow> char list \<Rightarrow> sysv \<Rightarrow> (int \<times> sysv) outcome" where
  "sys_msgsnd i ty d v = (case queue_of v i of
     None \<Rightarrow> Ret (-1, v)
   | Some q \<Rightarrow>
       if ty < 1 \<or> length d > v_msgmax v then Ret (-1, v)
       else if \<not> has_room v q (length d) then Blocked
       else Ret (0, set_msgs i (mq_msgs q @ [(ty, d)]) v))"

text \<open>Which message \<open>msgrcv\<close> takes: of a type, any, or of the lowest type up to a bound.\<close>

definition wanted :: "int \<Rightarrow> (int \<times> char list) list \<Rightarrow> int \<Rightarrow> bool" where
  "wanted t ms ty \<longleftrightarrow>
     (if t > 0 then ty = t else if t = 0 then True
      else ty \<le> - t \<and> list_all (\<lambda>(ty', d). ty' \<le> - t \<longrightarrow> ty \<le> ty') ms)"

fun take_first ::
  "(int \<Rightarrow> bool) \<Rightarrow> (int \<times> char list) list \<Rightarrow> (int \<times> char list \<times> (int \<times> char list) list) option" where
  "take_first P [] = None"
| "take_first P ((ty, d) # ms) =
     (if P ty then Some (ty, d, ms)
      else case take_first P ms of None \<Rightarrow> None | Some (ty', d', r) \<Rightarrow> Some (ty', d', (ty, d) # r))"

definition sys_msgrcv ::
  "int \<Rightarrow> nat \<Rightarrow> int \<Rightarrow> bool \<Rightarrow> sysv \<Rightarrow> (int \<times> (int \<times> char list) option \<times> sysv) outcome" where
  \<comment> \<open>no \<open>MSG_NOERROR\<close>: a message longer than the buffer stays in the queue\<close>
  "sys_msgrcv i len t nowait v = (case queue_of v i of
     None \<Rightarrow> Ret (-1, None, v)
   | Some q \<Rightarrow> (case take_first (wanted t (mq_msgs q)) (mq_msgs q) of
         None \<Rightarrow> if nowait then Ret (-1, None, v) else Blocked
       | Some (ty, d, r) \<Rightarrow>
           if length d > len then Ret (-1, None, v)
           else Ret (int (length d), Some (ty, d), set_msgs i r v)))"

section \<open>The message structure of this build\<close>

text \<open>\<open>l_rest\<close> holds the fields behind \<open>mtype\<close>; its own \<open>mb_mtype\<close> stands for nothing.\<close>

record lmsg =
  l_mtype :: int
  l_rest :: msg_buf

definition sizeof_lmsg :: nat where "sizeof_lmsg = 20"

definition ltext :: "msg_buf \<Rightarrow> char list" where
  \<comment> \<open>the bytes behind \<open>mtype\<close>\<close>
  "ltext m = drop 4 (mem m)"

definition unltext :: "char list \<Rightarrow> msg_buf" where
  "unltext b = unmem (replicate 4 NUL @ b)"

definition lclear :: "lmsg \<Rightarrow> lmsg" where
  \<comment> \<open>\<open>memset(mbuf, 0, sizeof(msg_buf_t))\<close>\<close>
  "lclear m = \<lparr>l_mtype = 0, l_rest = clear_struct (l_rest m)\<rparr>"

definition LDEFINE_MBUF_SZ :: "nat \<Rightarrow> lmsg" where
  "LDEFINE_MBUF_SZ n = \<lparr>l_mtype = 0, l_rest = DEFINE_MBUF_SZ n\<rparr>"

section \<open>Operations\<close>

text \<open>The key is what \<open>ftok\<close> makes of the working directory, -1 if it fails.\<close>

definition msgq_init :: "int \<Rightarrow> u8 \<Rightarrow> int \<Rightarrow> sysv \<Rightarrow> int \<times> int \<times> sysv" where
  "msgq_init key fl gMsgQ_id v =
     (if key = -1 then (FAILURE, gMsgQ_id, v)
      else let (i, v1) = sys_msgget key (bit fl 0) v
           in if i = -1 then (FAILURE, i, v1) else (SUCCESS, i, v1))"

definition msgq_cleanup :: "int \<Rightarrow> sysv \<Rightarrow> sysv" where
  "msgq_cleanup gMsgQ_id v = snd (sys_msgrmid gMsgQ_id v)"

definition msgq_recvfrom ::
  "int \<Rightarrow> lmsg \<Rightarrow> nat \<Rightarrow> bool \<Rightarrow> int \<Rightarrow> sysv \<Rightarrow> (int \<times> lmsg \<times> sysv) outcome" where
  "msgq_recvfrom ty0 m len nowait gMsgQ_id v =
     (let m1 = m\<lparr>l_rest := (l_rest m)\<lparr>mb_len := 0\<rparr>\<rparr>
      in bindo (sys_msgrcv gMsgQ_id len ty0 nowait v) (\<lambda>(ret, got, v1).
           case got of
             None \<Rightarrow> Ret (ret, m1, v1)
           | Some (ty, d) \<Rightarrow>
               if length d > length (ltext (l_rest m1)) then Fault Out_Of_Bounds
               else
                 let m2 = \<lparr>l_mtype = ty, l_rest = unltext (d @ drop (length d) (ltext (l_rest m1)))\<rparr>
                 in if ret > 0 \<and> ret + 4 < int sizeof_lmsg then Ret (FAILURE, m2, v1)
                    else Ret (ret, m2, v1)))"

definition msgq_sendto ::
  "int \<Rightarrow> lmsg \<Rightarrow> nat \<Rightarrow> int \<Rightarrow> sysv \<Rightarrow> (int \<times> lmsg \<times> sysv) outcome" where
  "msgq_sendto ty m len gMsgQ_id v =
     (let m1 = m\<lparr>l_mtype := ty\<rparr>
      in if length (ltext (l_rest m1)) < len then Fault Out_Of_Bounds
         else bindo (sys_msgsnd gMsgQ_id ty (take len (ltext (l_rest m1))) v) (\<lambda>(r, v1).
                Ret (if r < 0 then FAILURE else SUCCESS, m1, v1)))"

text \<open>The calls of \<open>commline.c\<close> over this transport.\<close>

definition mq_cl_bind :: int where "mq_cl_bind = SUCCESS"

definition mq_cl_sendto_q ::
  "int \<Rightarrow> lmsg option \<Rightarrow> u16 \<Rightarrow> int \<Rightarrow> sysv \<Rightarrow> (int \<times> lmsg option \<times> sysv) outcome" where
  "mq_cl_sendto_q ty mo len g v = (case mo of
     None \<Rightarrow> Ret (FAILURE, None, v)
   | Some m \<Rightarrow>
       if len = 0 then Ret (FAILURE, Some m, v)
       else bindo (msgq_sendto ty m (unat len) g v) (\<lambda>(r, m', v'). Ret (r, Some m', v')))"

definition mq_cl_recvfrom_q ::
  "int \<Rightarrow> lmsg option \<Rightarrow> u16 \<Rightarrow> bool \<Rightarrow> int \<Rightarrow> sysv \<Rightarrow> (int \<times> lmsg option \<times> sysv) outcome" where
  "mq_cl_recvfrom_q ty mo len nowait g v = (case mo of
     None \<Rightarrow> Ret (FAILURE, None, v)
   | Some m \<Rightarrow>
       if len = 0 then Ret (FAILURE, Some m, v)
       else bindo (msgq_recvfrom ty (lclear m) (unat len) nowait g v)
              (\<lambda>(r, m', v'). Ret (r, Some m', v')))"

definition mq_cl_get_descriptor :: "int \<Rightarrow> int" where "mq_cl_get_descriptor ty = FAILURE"

section \<open>Queues and their messages\<close>

lemma queue_of_id: "queue_of v i = Some q \<Longrightarrow> mq_id q = i"
  by (auto simp: queue_of_def find_Some_iff)

lemma find_map_id:
  assumes "\<And>q. mq_id (f q) = mq_id q"
  shows "List.find (\<lambda>q. mq_id q = i) (List.map f qs) = map_option f (List.find (\<lambda>q. mq_id q = i) qs)"
  by (induction qs) (auto simp: assms)

lemma queue_of_set_msgs [simp]:
  "queue_of (set_msgs i ms v) j
   = map_option (\<lambda>q. if j = i then q\<lparr>mq_msgs := ms\<rparr> else q) (queue_of v j)"
proof -
  let ?f = "\<lambda>q. if mq_id q = i then q\<lparr>mq_msgs := ms\<rparr> else q"
  have "queue_of (set_msgs i ms v) j = map_option ?f (queue_of v j)"
    by (simp add: queue_of_def set_msgs_def find_map_id)
  then show ?thesis using queue_of_id [of v j] by (cases "queue_of v j") auto
qed

lemma set_msgs_limits [simp]:
  "v_qbytes (set_msgs i ms v) = v_qbytes v" "v_msgmax (set_msgs i ms v) = v_msgmax v"
  by (simp_all add: set_msgs_def)

lemma wanted_positive: "0 < t \<Longrightarrow> wanted t ms = (\<lambda>ty. ty = t)"
  by (auto simp: wanted_def)

lemma take_first_None: "take_first P ms = None \<longleftrightarrow> filter (\<lambda>(ty, d). P ty) ms = []"
  by (induction P ms rule: take_first.induct) (auto split: option.splits)

lemma take_first_Some:
  "take_first P ms = Some (ty, d, r) \<Longrightarrow>
   P ty \<and> filter (\<lambda>(ty, d). P ty) ms = (ty, d) # filter (\<lambda>(ty, d). P ty) r \<and> set r \<subseteq> set ms
   \<and> (\<forall>Q. \<not> Q ty \<longrightarrow> filter (\<lambda>(ty, d). Q ty) r = filter (\<lambda>(ty, d). Q ty) ms) \<and> (ty, d) \<in> set ms"
proof (induction P ms arbitrary: r rule: take_first.induct)
  case (2 P ty0 d0 ms)
  show ?case
  proof (cases "P ty0")
    case False
    with "2.prems" obtain r' where "take_first P ms = Some (ty, d, r')" "r = (ty0, d0) # r'"
      by (auto split: option.splits)
    with "2.IH" [OF False] False show ?thesis by auto
  qed (use "2.prems" in auto)
qed simp

section \<open>The message queue provides the transport\<close>

definition lsend_len :: "msg_buf \<Rightarrow> u16" where
  "lsend_len m = of_nat sizeof_lmsg + mb_len m"

text \<open>The callers' length counts the 8 bytes of \<open>mtype\<close> again, so 8 bytes behind the payload
  travel too and the buffers at both ends need room for them.\<close>

definition lfits :: "nat \<Rightarrow> nat \<Rightarrow> msg_buf \<Rightarrow> bool" where
  "lfits lim cap m \<longleftrightarrow> unat (mb_len m) + 9 \<le> length (buf m) \<and> unat (mb_len m) + 8 \<le> cap
     \<and> unat (mb_len m) + 20 \<le> lim \<and> unat (mb_len m) + 20 < 2 ^ 16"

definition lwire :: "address \<Rightarrow> msg_buf \<Rightarrow> int \<times> char list" where
  "lwire a m = (mt a, take (20 + unat (mb_len m)) (ltext m))"

definition msend :: "int \<Rightarrow> address \<Rightarrow> msg_buf \<Rightarrow> sysv \<Rightarrow> sysv" where
  "msend g a m v = (case mq_cl_sendto_q (mt a) (Some \<lparr>l_mtype = 0, l_rest = m\<rparr>) (lsend_len m) g v of
     Ret (r, m', v') \<Rightarrow> v' | _ \<Rightarrow> v)"

definition mpoll :: "int \<Rightarrow> nat \<Rightarrow> address \<Rightarrow> sysv \<Rightarrow> (int \<times> lmsg option) option \<times> sysv" where
  "mpoll g cap a v =
     (case mq_cl_recvfrom_q (mt a) (Some (LDEFINE_MBUF_SZ cap)) (of_nat (20 + cap)) True g v of
        Ret (r, m, v') \<Rightarrow> (Some (r, m), v') | _ \<Rightarrow> (None, v))"

definition mgot :: "nat \<Rightarrow> int \<times> char list \<Rightarrow> (int \<times> lmsg option) option" where
  "mgot cap td = (let (ty, d) = td in
     Some (if 0 < length d \<and> length d < 16 then FAILURE else int (length d),
           Some \<lparr>l_mtype = ty,
                 l_rest = unltext (d @ drop (length d) (ltext (clear_struct (DEFINE_MBUF_SZ cap))))\<rparr>))"

definition mnothing :: "nat \<Rightarrow> (int \<times> lmsg option) option" where
  "mnothing cap = Some (-1, Some (lclear (LDEFINE_MBUF_SZ cap)))"

text \<open>The queue exists, no message in it is longer than a reader's buffer.\<close>

definition mopen :: "int \<Rightarrow> nat \<Rightarrow> nat \<Rightarrow> sysv \<Rightarrow> address \<Rightarrow> bool" where
  "mopen g lim cap v a \<longleftrightarrow> 20 + cap < 2 ^ 16 \<and> v_msgmax v = lim
     \<and> (case queue_of v g of None \<Rightarrow> False
        | Some q \<Rightarrow> list_all (\<lambda>(ty, d). length d \<le> 12 + cap) (mq_msgs q))"

text \<open>Messages that fit into the queue beside what it holds: the limit counts the bytes of all addresses.\<close>

definition mroom :: "int \<Rightarrow> sysv \<Rightarrow> (address \<times> msg_buf) list \<Rightarrow> bool" where
  "mroom g v xs \<longleftrightarrow> (case queue_of v g of None \<Rightarrow> False
     | Some q \<Rightarrow> has_room v q (sum_list (List.map (\<lambda>(a, m). 20 + unat (mb_len m)) xs)))"

definition mpending :: "int \<Rightarrow> sysv \<Rightarrow> address \<Rightarrow> (int \<times> char list) list" where
  "mpending g v a = (case queue_of v g of None \<Rightarrow> []
     | Some q \<Rightarrow> filter (\<lambda>(ty, d). ty = mt a) (mq_msgs q))"

lemma mopenE:
  assumes "mopen g lim cap v a"
  obtains q where "queue_of v g = Some q" "\<forall>(ty, d) \<in> set (mq_msgs q). length d \<le> 12 + cap"
    "20 + cap < 2 ^ 16" "v_msgmax v = lim"
  using assms by (auto simp: mopen_def list_all_iff split: option.splits)

lemma length_ltext: "length (ltext m) = 11 + length (buf m)"
  by (simp add: ltext_def length_mem)

lemma unat_lsend_len: "lfits lim cap m \<Longrightarrow> unat (lsend_len m) = 20 + unat (mb_len m)"
  by (simp add: lfits_def lsend_len_def sizeof_lmsg_def unat_word_ariths)

lemma msend_eq:
  assumes "mopen g lim cap v a" "lfits lim cap m" "queue_of v g = Some q" "has_room v q (20 + unat (mb_len m))"
  shows "msend g a m v = set_msgs g (mq_msgs q @ [lwire a m]) v"
proof -
  have "lsend_len m \<noteq> 0" using unat_lsend_len [OF assms(2)] by fastforce
  moreover have "20 + unat (mb_len m) \<le> length (ltext m)" "20 + unat (mb_len m) \<le> lim"
    using assms(2) by (auto simp: lfits_def length_ltext)
  moreover have "\<not> mt a < 1" using MTYPE_range(1) [of "fst a" "snd a"] by simp
  ultimately show ?thesis
    using assms by (auto simp: msend_def mq_cl_sendto_q_def msgq_sendto_def sys_msgsnd_def
        unat_lsend_len lwire_def mopen_def)
qed

lemma mpoll_eq:
  assumes "mopen g lim cap v a" "queue_of v g = Some q"
  shows "mpoll g cap a v = (case take_first (\<lambda>ty. ty = mt a) (mq_msgs q) of
           None \<Rightarrow> (mnothing cap, v)
         | Some (ty, d, r) \<Rightarrow> (mgot cap (ty, d), set_msgs g r v))"
proof -
  have cap: "unat (of_nat (20 + cap) :: u16) = 20 + cap"
    using assms(1) by (simp add: mopen_def unat_of_nat take_bit_nat_eq_self del: of_nat_add)
  then have nz: "(of_nat (20 + cap) :: u16) \<noteq> 0" by (metis add_is_0 unat_0 zero_neq_numeral)
  have pos: "wanted (mt a) ms = (\<lambda>ty. ty = mt a)" for ms
    using MTYPE_range(1) [of "fst a" "snd a"] by (simp add: wanted_positive)
  have l: "length (ltext (clear_struct (DEFINE_MBUF_SZ cap))) = 12 + cap"
    by (simp add: length_ltext clear_struct_def DEFINE_MBUF_SZ_def zero_mbuf_def)
  have b: "take_first (\<lambda>ty. ty = mt a) (mq_msgs q) = Some (ty, d, r) \<Longrightarrow> length d \<le> 12 + cap" for ty d r
    using take_first_Some [of "\<lambda>ty. ty = mt a" "mq_msgs q" ty d r] assms
    by (auto elim!: mopenE)
  show ?thesis
    using cap nz assms(2)
    by (auto simp: mpoll_def mq_cl_recvfrom_q_def msgq_recvfrom_def sys_msgrcv_def pos l lclear_def
        LDEFINE_MBUF_SZ_def mnothing_def mgot_def sizeof_lmsg_def Let_def
        split: option.splits dest: b)
qed

lemma mopen_set_msgs:
  "mopen g lim cap v a \<Longrightarrow> \<forall>(ty, d) \<in> set ms. length d \<le> 12 + cap \<Longrightarrow> mopen g lim cap (set_msgs g ms v) b"
  by (auto simp: mopen_def list_all_iff split: option.splits)

lemma mopen_any: "mopen g lim cap v a \<Longrightarrow> mopen g lim cap v b"
  by (simp add: mopen_def)

lemma mt_inject: "mt a = mt b \<longleftrightarrow> a = b"
  by (simp add: prod_eq_iff)

lemma length_lwire: "lfits lim cap m \<Longrightarrow> length (snd (lwire a m)) = 20 + unat (mb_len m)"
  by (simp add: lwire_def lfits_def length_ltext)

text \<open>The laws of a transport, for a queue that is never full; \<open>transports_agree\<close> below adds the limit.\<close>

interpretation msgqs: transport "msend g" "mpoll g cap" lwire "mgot cap" "mnothing cap"
    "mpending g" "\<lambda>v a. mopen g lim cap v a \<and> v_qbytes v = None" "lfits lim cap"
  for g lim cap
proof
  fix v a b m
  assume "mopen g lim cap v a \<and> v_qbytes v = None"
  then have o: "mopen g lim cap v a" "v_qbytes v = None" by blast+
  have room: "has_room v q n" for q n using o(2) by (simp add: has_room_def)
  from o(1) obtain q where q: "queue_of v g = Some q" "\<forall>(ty, d) \<in> set (mq_msgs q). length d \<le> 12 + cap"
    by (elim mopenE)
  note none = take_first_None [of "\<lambda>ty. ty = mt a" "mq_msgs q"]
  note some = take_first_Some [of "\<lambda>ty. ty = mt a" "mq_msgs q"]
  show "lfits lim cap m \<Longrightarrow>
      mpending g (msend g a m v) b = (if b = a then mpending g v a @ [lwire a m] else mpending g v b)"
    using msend_eq [OF o(1) _ q(1) room] q(1) by (auto simp: mpending_def lwire_def prod_eq_iff)
  show "lfits lim cap m \<Longrightarrow> (mopen g lim cap (msend g a m v) b \<and> v_qbytes (msend g a m v) = None)
      = (mopen g lim cap v b \<and> v_qbytes v = None)"
    using msend_eq [OF o(1) _ q(1) room] q(2) mopen_any [OF o(1)]
      mopen_set_msgs [OF o(1), of "mq_msgs q @ [lwire a m]" b] length_lwire [of lim cap m a]
    by (auto simp: lwire_def lfits_def)
  show "mpending g v a = d # ds \<Longrightarrow> fst (mpoll g cap a v) = mgot cap d" for d ds
    using mpoll_eq [OF o(1) q(1)] q(1) none some by (auto simp: mpending_def split: option.splits)
  show "mpending g v a = [] \<Longrightarrow> fst (mpoll g cap a v) = mnothing cap"
    using mpoll_eq [OF o(1) q(1)] q(1) none by (auto simp: mpending_def split: option.splits)
  show "(mopen g lim cap (snd (mpoll g cap a v)) b \<and> v_qbytes (snd (mpoll g cap a v)) = None)
      = (mopen g lim cap v b \<and> v_qbytes v = None)"
  proof (cases "take_first (\<lambda>ty. ty = mt a) (mq_msgs q)")
    case (Some x)
    obtain ty d r where x: "x = (ty, d, r)" by (cases x)
    with some [of ty d r] Some q(2) have "\<forall>(ty, d) \<in> set r. length d \<le> 12 + cap" by auto
    with mpoll_eq [OF o(1) q(1)] Some x mopen_set_msgs [OF o(1) this, of b] mopen_any [OF o(1), of b]
    show ?thesis by simp
  qed (use mpoll_eq [OF o(1) q(1)] in simp)
  show "mpending g (snd (mpoll g cap a v)) b = (if b = a then tl (mpending g v a) else mpending g v b)"
  proof (cases "take_first (\<lambda>ty. ty = mt a) (mq_msgs q)")
    case None
    with mpoll_eq [OF o(1) q(1)] q(1) none show ?thesis by (simp add: mpending_def)
  next
    case (Some x)
    obtain ty d r where x: "x = (ty, d, r)" by (cases x)
    with some [of ty d r] Some have r: "ty = mt a"
      "filter (\<lambda>(ty, d). ty = mt a) (mq_msgs q) = (ty, d) # filter (\<lambda>(ty, d). ty = mt a) r"
      "\<And>Q. \<not> Q (mt a) \<Longrightarrow> filter (\<lambda>(ty, d). Q ty) r = filter (\<lambda>(ty, d). Q ty) (mq_msgs q)"
      by auto
    have "mpending g (snd (mpoll g cap a v)) b = filter (\<lambda>(ty, d). ty = mt b) r"
      using mpoll_eq [OF o(1) q(1)] q(1) Some x by (simp add: mpending_def)
    moreover have "b \<noteq> a \<Longrightarrow> filter (\<lambda>(ty, d). ty = mt b) r = filter (\<lambda>(ty, d). ty = mt b) (mq_msgs q)"
      using r(3) [of "\<lambda>ty. ty = mt b"] mt_inject by metis
    ultimately show ?thesis using r(2) q(1) by (simp add: mpending_def)
  qed
qed

section \<open>Properties\<close>

text \<open>What the receiver of a polled message reads: its header fields and its payload.\<close>

definition content :: "msg_buf \<Rightarrow> msg_buf" where
  "content m = m\<lparr>mb_mtype := 0, buf := take (unat (mb_len m)) (buf m)\<rparr>"

definition sock_view :: "(int \<times> msg_buf option) option \<Rightarrow> msg_buf option" where
  "sock_view r = (case r of Some (n, Some m) \<Rightarrow> if n > 0 then Some (content m) else None | _ \<Rightarrow> None)"

definition msgq_view :: "(int \<times> lmsg option) option \<Rightarrow> msg_buf option" where
  "msgq_view r =
     (case r of Some (n, Some m) \<Rightarrow> if n > 0 then Some (content (l_rest m)) else None | _ \<Rightarrow> None)"

fun mpolls :: "int \<Rightarrow> nat \<Rightarrow> address \<Rightarrow> nat \<Rightarrow> sysv \<Rightarrow> (int \<times> lmsg option) option list" where
  "mpolls g cap a 0 v = []"
| "mpolls g cap a (Suc n) v = (let (r, v') = mpoll g cap a v in r # mpolls g cap a n v')"

lemma mpolls_drain: "mpolls g cap a n v = fst (msgqs.drain g cap n a v)"
  by (induction n arbitrary: v) (auto simp: case_prod_beta)

lemma fold_msend: "fold (\<lambda>(a, m). msend g a m) xs v = msgqs.send_all g xs v"
  by (induction xs arbitrary: v) auto

lemma addressed_lmsgs: "msgqs.addressed b xs = map (lwire b) (msgs_for b xs)"
  by (induction xs) (auto simp: msgqs.addressed_def msgs_for_def)

lemma lfits_fits: "lfits lim cap m \<Longrightarrow> fits_buf m \<and> unat (mb_len m) \<le> cap"
  by (auto simp: lfits_def fits_buf_def)

lemma pos_uint: "0 < n \<Longrightarrow> 0 < n + uint (x :: u16)"
  using uint_u16_range(1) [of x] by linarith

lemma sock_view_wire:
  assumes "lfits lim cap m"
  shows "sock_view (ugot cap (wire a m)) = Some (content m)"
  using ugot_wire [of m cap a] lfits_fits [OF assms] pos_uint [of 16 "mb_len m"] pos_uint [of 20 "mb_len m"]
  by (simp add: sock_view_def content_def fits_buf_def)

lemma unltext_take:
  assumes "11 \<le> n"
  shows "unltext (take n (ltext m) @ xs) = m\<lparr>mb_mtype := 0, buf := take (n - 11) (buf m) @ xs\<rparr>"
proof -
  obtain j where n: "n = 11 + j" using assms le_Suc_ex by blast
  have "replicate 4 NUL @ take n (ltext m) @ xs = mem (m\<lparr>mb_mtype := 0, buf := take j (buf m) @ xs\<rparr>)"
    by (simp add: n ltext_def mem_def le32_def le16_def byte_of_def numeral_eq_Suc char_of_def)
  then show ?thesis by (simp add: unltext_def n)
qed

lemma msgq_view_wire:
  assumes "lfits lim cap m"
  shows "msgq_view (mgot cap (lwire a m)) = Some (content m)"
proof -
  have "unltext (take (20 + unat (mb_len m)) (ltext m) @ xs)
        = m\<lparr>mb_mtype := 0, buf := take (9 + unat (mb_len m)) (buf m) @ xs\<rparr>" for xs
    by (subst unltext_take) simp_all
  with length_lwire [OF assms, of a] assms pos_uint [of 16 "mb_len m"] pos_uint [of 20 "mb_len m"] show ?thesis
    by (simp add: msgq_view_def mgot_def lwire_def content_def lfits_def min_def)
qed

text \<open>While everything fits, the limit changes nothing but itself.\<close>

abbreviation unlimited :: "sysv \<Rightarrow> sysv" where "unlimited v \<equiv> v\<lparr>v_qbytes := None\<rparr>"

lemma unlimited_queue [simp]: "queue_of (v\<lparr>v_qbytes := x\<rparr>) g = queue_of v g"
  by (simp add: queue_of_def)

lemma unlimited_set_msgs [simp]: "set_msgs g ms (v\<lparr>v_qbytes := x\<rparr>) = (set_msgs g ms v)\<lparr>v_qbytes := x\<rparr>"
  by (simp add: set_msgs_def)

lemma unlimited_mopen [simp]: "mopen g lim cap (v\<lparr>v_qbytes := x\<rparr>) a = mopen g lim cap v a"
  by (simp add: mopen_def)

lemma msend_room:
  assumes "mopen g lim cap v a" "lfits lim cap m" "mroom g v ((a, m) # xs)"
  shows "mopen g lim cap (msend g a m v) b \<and> mroom g (msend g a m v) xs \<and>
    unlimited (msend g a m v) = msend g a m (unlimited v)"
proof -
  obtain q where q: "queue_of v g = Some q" "\<forall>(ty, d) \<in> set (mq_msgs q). length d \<le> 12 + cap"
    using assms(1) by (elim mopenE)
  have "has_room v q (20 + unat (mb_len m))"
    using assms(3) q(1) by (auto simp: mroom_def has_room_def split: option.splits)
  note s = msend_eq [OF assms(1,2) q(1) this]
  have u: "msend g a m (unlimited v) = set_msgs g (mq_msgs q @ [lwire a m]) (unlimited v)"
    using assms(1) q(1) by (intro msend_eq [OF _ assms(2)]) (simp_all add: has_room_def)
  have l: "length (snd (lwire a m)) = 20 + unat (mb_len m)" by (rule length_lwire [OF assms(2)])
  have "\<forall>(ty, d) \<in> set (mq_msgs q @ [lwire a m]). length d \<le> 12 + cap"
    using q(2) l assms(2) by (auto simp: lwire_def lfits_def)
  then have "mopen g lim cap (msend g a m v) b" unfolding s by (rule mopen_set_msgs [OF assms(1)])
  moreover have "mroom g (msend g a m v) xs"
    using assms(3) q(1) l by (auto simp: s mroom_def has_room_def msg_bytes_def split: option.splits)
  ultimately show ?thesis using s u by simp
qed

lemma fold_msend_room:
  "\<lbrakk>mopen g lim cap v b; \<forall>(a, m) \<in> set xs. lfits lim cap m; mroom g v xs\<rbrakk> \<Longrightarrow>
   unlimited (fold (\<lambda>(a, m). msend g a m) xs v) = fold (\<lambda>(a, m). msend g a m) xs (unlimited v)"
proof (induction xs arbitrary: v)
  case (Cons x xs)
  obtain a m where x: "x = (a, m)" by (cases x)
  have "lfits lim cap m" using Cons.prems(2) x by simp
  from msend_room [OF mopen_any [OF Cons.prems(1)] this] Cons.prems(3) x Cons.IH Cons.prems(2)
  show ?case by simp
qed simp

lemma mpoll_unlimited:
  "mpoll g cap a (unlimited v) = (fst (mpoll g cap a v), unlimited (snd (mpoll g cap a v)))"
  by (simp add: mpoll_def mq_cl_recvfrom_q_def msgq_recvfrom_def sys_msgrcv_def LDEFINE_MBUF_SZ_def Let_def
      split: option.splits)

lemma mpolls_unlimited: "mpolls g cap a n (unlimited v) = mpolls g cap a n v"
  by (induction n arbitrary: v) (simp_all add: mpoll_unlimited case_prod_beta Let_def)

text \<open>
  C12: The two transports of commline are interchangeable: whatever one process sends to any mix of
  bound addresses, polling one address delivers the same messages, in the same order and with the
  same header fields and payloads, over the sockets and over the message queue, and these are the
  messages sent to that address.  The message queue may have any byte limit: what it holds and what
  is sent to all addresses must fit into it (each message takes 20 bytes and its payload), and 9
  bytes must be free behind the payload in every buffer.
\<close>

theorem transports_agree:
  assumes "\<forall>(a, m) \<in> set xs. uopen uid su cap rcv k a \<and> lfits lim cap m"
    and "uopen uid su cap rcv k b" "upending rcv k b = []"
    and "mopen g lim cap v b" "mpending g v b = []" "mroom g v xs"
    and "n = length (msgs_for b xs)"
  shows "map sock_view (upolls cap rcv b n (fold (\<lambda>(a, m). usend uid su a m) xs k))
         = map msgq_view (mpolls g cap b n (fold (\<lambda>(a, m). msend g a m) xs v))
    \<and> map msgq_view (mpolls g cap b n (fold (\<lambda>(a, m). msend g a m) xs v))
         = map (Some \<circ> content) (msgs_for b xs)"
proof -
  have f: "\<forall>m \<in> set (msgs_for b xs). lfits lim cap m" using assms(1) by (auto simp: msgs_for_def)
  have u: "\<forall>(a, m) \<in> set xs. uopen uid su cap rcv k a \<and> fits_buf m"
    using assms(1) lfits_fits by blast
  let ?v = "unlimited v"
  have s: "\<forall>(a, m) \<in> set xs. (mopen g lim cap ?v a \<and> v_qbytes ?v = None) \<and> lfits lim cap m"
    using assms(1) mopen_any [OF assms(4)] by auto
  have e: "mopen g lim cap ?v b \<and> v_qbytes ?v = None" "mpending g ?v b = []"
    using assms(4,5) by (simp_all add: mpending_def)
  have "upolls cap rcv b n (fold (\<lambda>(a, m). usend uid su a m) xs k) = map (\<lambda>m. ugot cap (wire b m)) (msgs_for b xs)"
    using usocks.send_all_drain [OF u assms(2,3) refl] assms(7)
    by (simp add: upolls_drain fold_usend addressed_msgs comp_def)
  moreover have "mpolls g cap b n (fold (\<lambda>(a, m). msend g a m) xs ?v) = map (\<lambda>m. mgot cap (lwire b m)) (msgs_for b xs)"
    using msgqs.send_all_drain [OF s e refl] assms(7)
    by (simp add: mpolls_drain fold_msend addressed_lmsgs comp_def)
  moreover have "\<forall>(a, m) \<in> set xs. lfits lim cap m" using assms(1) by auto
  note fold_msend_room [OF assms(4) this assms(6)]
  then have "mpolls g cap b n (fold (\<lambda>(a, m). msend g a m) xs ?v) = mpolls g cap b n (fold (\<lambda>(a, m). msend g a m) xs v)"
    using mpolls_unlimited [of g cap b n "fold (\<lambda>(a, m). msend g a m) xs v"] by simp
  moreover have "\<forall>m \<in> set (msgs_for b xs). sock_view (ugot cap (wire b m)) = Some (content m)
      \<and> msgq_view (mgot cap (lwire b m)) = Some (content m)"
    using f sock_view_wire msgq_view_wire by blast
  ultimately show ?thesis by simp
qed

definition demo_v :: sysv where
  "demo_v = \<lparr>v_queues = [\<lparr>mq_id = 7, mq_key = 1, mq_msgs = []\<rparr>], v_next = 8,
             v_qbytes = None, v_msgmax = 8192\<rparr>"

lemma demo_mopen [simp]: "mopen 7 8192 2048 demo_v a" "mpending 7 demo_v a = []"
  by (simp_all add: mopen_def mpending_def queue_of_def demo_v_def)

lemma lfits_DEFINE: "lfits 8192 2048 (DEFINE_MBUF\<lparr>mb_len := 3\<rparr>)" "lfits 8192 2048 DEFINE_MBUF"
  by (simp_all add: lfits_def)

lemma transports_agree_witness:
  "map msgq_view (mpolls 7 2048 (AIRLINE, CL_MGR_ID) 2
     (fold (\<lambda>(a, m). msend 7 a m)
        [((AIRLINE, CL_MGR_ID), DEFINE_MBUF), ((AIRLINE, CL_MGR_ID), DEFINE_MBUF\<lparr>mb_len := 3\<rparr>)] (demo_v\<lparr>v_qbytes := Some 16384\<rparr>)))
   = [Some (content DEFINE_MBUF), Some (content (DEFINE_MBUF\<lparr>mb_len := 3\<rparr>))]"
proof -
  let ?A = "(AIRLINE, CL_MGR_ID)"
  let ?xs = "[(?A, DEFINE_MBUF), (?A, DEFINE_MBUF\<lparr>mb_len := 3\<rparr>)]"
  have ok: "\<forall>(a, m) \<in> set ?xs. uopen 0 demo_u 2048 (\<lambda>_. demo_u) demo_k a \<and> lfits 8192 2048 m"
    by (simp add: demo_open lfits_DEFINE)
  have e: "upending (\<lambda>_. demo_u) demo_k ?A = []"
    by (simp add: upending_def demo_k_def kernel_start_def)
  have n: "2 = length (msgs_for ?A ?xs)" by (simp add: msgs_for_def)
  have v: "mopen 7 8192 2048 (demo_v\<lparr>v_qbytes := Some 16384\<rparr>) ?A" "mpending 7 (demo_v\<lparr>v_qbytes := Some 16384\<rparr>) ?A = []"
    "mroom 7 (demo_v\<lparr>v_qbytes := Some 16384\<rparr>) ?xs"
    using demo_mopen by (simp_all add: mpending_def) (simp add: mroom_def queue_of_def demo_v_def has_room_def msg_bytes_def)
  from transports_agree [OF ok demo_open e v n] show ?thesis
    by (simp add: msgs_for_def)
qed

text \<open>All addresses share the bytes of the queue.\<close>

lemma send_room:
  assumes "queue_of v g = Some q" "lfits lim cap m" "v_msgmax v = lim"
  shows "mq_cl_sendto_q (mt a) (Some \<lparr>l_mtype = 0, l_rest = m\<rparr>) (lsend_len m) g v
         = (if has_room v q (20 + unat (mb_len m))
            then Ret (SUCCESS, Some \<lparr>l_mtype = mt a, l_rest = m\<rparr>, set_msgs g (mq_msgs q @ [lwire a m]) v)
            else Blocked)"
proof -
  have "lsend_len m \<noteq> 0" using unat_lsend_len [OF assms(2)] by fastforce
  moreover have "20 + unat (mb_len m) \<le> length (ltext m)" "20 + unat (mb_len m) \<le> lim"
    using assms(2) by (auto simp: lfits_def length_ltext)
  moreover have "\<not> mt a < 1" using MTYPE_range(1) [of "fst a" "snd a"] by simp
  ultimately show ?thesis
    using assms by (simp add: mq_cl_sendto_q_def msgq_sendto_def sys_msgsnd_def
        unat_lsend_len lwire_def)
qed

lemma fill_queue:
  assumes "queue_of v g = Some q" "mq_msgs q = []" "lfits lim cap m" "v_msgmax v = lim"
    and "v_qbytes v = Some bytes" "n * (20 + unat (mb_len m)) \<le> bytes"
  shows "\<exists>q'. queue_of ((msend g a m ^^ n) v) g = Some q' \<and> mq_msgs q' = replicate n (lwire a m)
           \<and> v_msgmax ((msend g a m ^^ n) v) = lim \<and> v_qbytes ((msend g a m ^^ n) v) = Some bytes"
  using assms(6)
proof (induction n)
  case 0
  then show ?case using assms by simp
next
  case (Suc n)
  then obtain q' where q: "queue_of ((msend g a m ^^ n) v) g = Some q'"
    "mq_msgs q' = replicate n (lwire a m)" "v_msgmax ((msend g a m ^^ n) v) = lim"
    "v_qbytes ((msend g a m ^^ n) v) = Some bytes" by auto
  have "has_room ((msend g a m ^^ n) v) q' (20 + unat (mb_len m))"
    using Suc.prems q length_lwire [OF assms(3), of a]
    by (simp add: has_room_def msg_bytes_def sum_list_replicate)
  then have "msend g a m ((msend g a m ^^ n) v)
      = set_msgs g (replicate (Suc n) (lwire a m)) ((msend g a m ^^ n) v)"
    using send_room [OF q(1) assms(3) q(3), of a] q(2)
    by (simp add: msend_def replicate_append_same)
  with q show ?case by simp
qed

text \<open>
  C28: Over the message queue one node that does not read stops everybody: the queue's byte limit
  is shared by all addresses, so after as many unread messages to one node as fit, a send
  of the same size to any other address does not return, though nothing waits for that one.
\<close>

theorem one_reader_blocks_all:
  assumes "queue_of v g = Some q" "mq_msgs q = []" "lfits lim cap m" "v_msgmax v = lim"
    and "v_qbytes v = Some bytes" "n = bytes div (20 + unat (mb_len m))" "a \<noteq> b"
  shows "mq_cl_sendto_q (mt b) (Some \<lparr>l_mtype = 0, l_rest = m\<rparr>) (lsend_len m) g ((msend g a m ^^ n) v)
         = Blocked
    \<and> mpending g ((msend g a m ^^ n) v) b = []
    \<and> length (mpending g ((msend g a m ^^ n) v) a) = n"
proof -
  let ?l = "20 + unat (mb_len m)"
  have "n * ?l \<le> bytes" "\<not> n * ?l + ?l \<le> bytes"
  proof -
    have "0 < L \<Longrightarrow> bytes div L * L \<le> bytes \<and> \<not> bytes div L * L + L \<le> bytes" for L :: nat
      using div_mult_mod_eq [of bytes L] mod_less_divisor [of L bytes] by linarith
    from this [of ?l] show "n * ?l \<le> bytes" "\<not> n * ?l + ?l \<le> bytes"
      unfolding assms(6) by auto
  qed
  moreover obtain q' where q: "queue_of ((msend g a m ^^ n) v) g = Some q'"
    "mq_msgs q' = replicate n (lwire a m)" "v_msgmax ((msend g a m ^^ n) v) = lim"
    "v_qbytes ((msend g a m ^^ n) v) = Some bytes"
    using fill_queue [OF assms(1-5) calculation(1)] by blast
  ultimately have "\<not> has_room ((msend g a m ^^ n) v) q' ?l"
    using length_lwire [OF assms(3), of a] by (simp add: has_room_def msg_bytes_def sum_list_replicate)
  moreover have "filter (\<lambda>(ty, d). ty = mt b) (replicate n (lwire a m)) = []"
    "filter (\<lambda>(ty, d). ty = mt a) (replicate n (lwire a m)) = replicate n (lwire a m)"
    using assms(7) by (auto simp: lwire_def filter_replicate prod_eq_iff)
  ultimately show ?thesis
    using send_room [OF q(1) assms(3) q(3), of b] q by (simp add: mpending_def)
qed

lemma one_reader_blocks_all_witness:
  "mq_cl_sendto_q (mt (STACKLINE, 2)) (Some \<lparr>l_mtype = 0, l_rest = DEFINE_MBUF\<rparr>) (lsend_len DEFINE_MBUF) 7
     ((msend 7 (STACKLINE, 1) DEFINE_MBUF ^^ 819) (demo_v\<lparr>v_qbytes := Some 16384\<rparr>)) = Blocked"
proof -
  have "queue_of (demo_v\<lparr>v_qbytes := Some 16384\<rparr>) 7 = Some \<lparr>mq_id = 7, mq_key = 1, mq_msgs = []\<rparr>"
    by (simp add: queue_of_def demo_v_def)
  from one_reader_blocks_all [OF this _ lfits_DEFINE(2), where bytes = 16384 and n = 819
      and a = "(STACKLINE, 1)" and b = "(STACKLINE, 2)"]
  show ?thesis by (simp add: demo_v_def)
qed

text \<open>
  C27: All processes of a directory share one queue: the first \<open>cl_init\<close> makes it, a second
  creator is refused and is left with the identifier -1, everyone who attaches gets the same
  identifier; and the clean-up of any one of them removes the queue with the messages in
  it, after which every other process's sends and receives fail.
\<close>

theorem one_queue_for_all:
  assumes "key \<noteq> -1" "\<forall>q \<in> set (v_queues v). mq_key q \<noteq> key \<and> mq_id q < v_next v" "0 \<le> v_next v"
    and "msgq_init key fl g0 v = (r, g, v1)"
    and "lfits (v_msgmax v) cap m" "case v_qbytes v of None \<Rightarrow> True | Some l \<Rightarrow> 20 + unat (mb_len m) \<le> l" "len \<noteq> 0"
  shows "r = SUCCESS \<and> mopen g (v_msgmax v) cap v1 a = (20 + cap < 2 ^ 16) \<and> mpending g v1 a = []
    \<and> (bit fl' 0 \<longrightarrow> msgq_init key fl' g' v1 = (FAILURE, -1, v1))
    \<and> (\<not> bit fl' 0 \<longrightarrow> msgq_init key fl' g' v1 = (SUCCESS, g, v1))
    \<and> mq_cl_sendto_q (mt a) (Some \<lparr>l_mtype = 0, l_rest = m\<rparr>) (lsend_len m) g
         (msgq_cleanup g (msend g a m v1))
       = Ret (FAILURE, Some \<lparr>l_mtype = mt a, l_rest = m\<rparr>, msgq_cleanup g (msend g a m v1))
    \<and> mq_cl_recvfrom_q ty (Some b) len nowait g (msgq_cleanup g (msend g a m v1))
       = Ret (-1, Some (lclear b), msgq_cleanup g (msend g a m v1))"
proof -
  let ?q = "\<lparr>mq_id = v_next v, mq_key = key, mq_msgs = []\<rparr>"
  have "List.find (\<lambda>q. mq_key q = key) (v_queues v) = None"
    using assms(2) by (auto simp: find_None_iff)
  with assms(1,3,4) have v1: "r = SUCCESS" "g = v_next v"
    "v1 = v\<lparr>v_queues := ?q # v_queues v, v_next := v_next v + 1\<rparr>"
    by (auto simp: msgq_init_def sys_msgget_def)
  have q: "queue_of v1 g = Some ?q" by (simp add: v1 queue_of_def)
  have gone: "queue_of (msgq_cleanup g w) g = None" if "queue_of w g = Some p" for w p
    using that by (simp add: msgq_cleanup_def sys_msgrmid_def) (auto simp: queue_of_def find_None_iff)
  have s: "queue_of (msend g a m v1) g = Some (?q\<lparr>mq_msgs := [lwire a m]\<rparr>)"
    using send_room [OF q assms(5), of a] assms(6) q by (auto simp: msend_def has_room_def msg_bytes_def v1 split: option.splits)
  have "lsend_len m \<noteq> 0" "20 + unat (mb_len m) \<le> length (ltext m)"
    using unat_lsend_len [OF assms(5)] assms(5) by (fastforce, simp add: lfits_def length_ltext)
  then have "mq_cl_sendto_q (mt a) (Some \<lparr>l_mtype = 0, l_rest = m\<rparr>) (lsend_len m) g
         (msgq_cleanup g (msend g a m v1))
       = Ret (FAILURE, Some \<lparr>l_mtype = mt a, l_rest = m\<rparr>, msgq_cleanup g (msend g a m v1))"
    using gone [OF s]
    by (simp add: mq_cl_sendto_q_def msgq_sendto_def sys_msgsnd_def unat_lsend_len [OF assms(5)])
  moreover have "mq_cl_recvfrom_q ty (Some b) len nowait g (msgq_cleanup g (msend g a m v1))
       = Ret (-1, Some (lclear b), msgq_cleanup g (msend g a m v1))"
    using gone [OF s] assms(7)
    by (simp add: mq_cl_recvfrom_q_def msgq_recvfrom_def sys_msgrcv_def lclear_def)
  moreover have "mopen g (v_msgmax v) cap v1 a = (20 + cap < 2 ^ 16)" "mpending g v1 a = []"
    using q by (simp_all add: mopen_def mpending_def) (simp_all add: v1)
  ultimately show ?thesis
    using assms(1,3) v1 by (simp add: msgq_init_def sys_msgget_def)
qed

lemma one_queue_for_all_witness:
  "mq_cl_recvfrom_q (MTYPE MONITOR 0) (Some (LDEFINE_MBUF_SZ 4)) 24 True 0
     (msgq_cleanup 0 (msend 0 (MONITOR, 0) DEFINE_MBUF
       (snd (snd (msgq_init 5 1 (-1) \<lparr>v_queues = [], v_next = 0, v_qbytes = Some 16384, v_msgmax = 8192\<rparr>)))))
   = Ret (-1, Some (lclear (LDEFINE_MBUF_SZ 4)),
     (msgq_cleanup 0 (msend 0 (MONITOR, 0) DEFINE_MBUF
       (snd (snd (msgq_init 5 1 (-1) \<lparr>v_queues = [], v_next = 0, v_qbytes = Some 16384, v_msgmax = 8192\<rparr>))))))"
proof -
  let ?v = "\<lparr>v_queues = [], v_next = 0, v_qbytes = Some 16384, v_msgmax = 8192\<rparr>"
  have i: "msgq_init 5 1 (-1) ?v = (SUCCESS, 0, snd (snd (msgq_init 5 1 (-1) ?v)))"
    by (simp add: msgq_init_def sys_msgget_def)
  have l: "lfits (v_msgmax ?v) 2048 DEFINE_MBUF" by (simp add: lfits_def)
  from one_queue_for_all [OF _ _ _ i l, where len = 24 and b = "LDEFINE_MBUF_SZ 4" and nowait = True
      and ty = "MTYPE MONITOR 0" and a = "(MONITOR, 0)"]
  show ?thesis by simp
qed

end
