(* ===== verification/Airline_Common.thy ===== *)
theory Airline_Common
  imports C_String
begin

text \<open>
  \<open>airline/common.h\<close> and \<open>airline/common.cc\<close>: trimming, splitting, and the
  case-insensitive map that holds every configuration value.  The map's comparison is
  \<open>ci_less\<close>; since two keys are equivalent for it exactly when they agree up to case, the
  map is a partial function on lower-case keys.  The locale \<open>kv_store\<close> is what the users
  of such a map rely on.
\<close>

section \<open>Trimming and splitting\<close>

definition ltrim :: "string \<Rightarrow> string" where
  "ltrim s = dropWhile isspace s"

definition rtrim :: "string \<Rightarrow> string" where
  "rtrim s = rev (dropWhile isspace (rev s))"

definition trim :: "string \<Rightarrow> string" where
  "trim s = ltrim (rtrim s)"

text \<open>
  One \<open>getline\<close>: the text before the delimiter and what follows it; \<open>None\<close> when the end of
  the stream was reached instead.
\<close>

definition getline :: "char \<Rightarrow> string \<Rightarrow> string \<times> string option" where
  "getline d s = (takeWhile (\<lambda>x. x \<noteq> d) s,
                  case dropWhile (\<lambda>x. x \<noteq> d) s of [] \<Rightarrow> None | _ # r \<Rightarrow> Some r)"

lemma getline_None [simp]: "d \<notin> set s \<Longrightarrow> getline d s = (s, None)"
  by (simp add: getline_def)

lemma getline_Some [simp]: "d \<notin> set a \<Longrightarrow> getline d (a @ d # r) = (a, Some r)"
  by (simp add: getline_def)

lemma getline_length [termination_simp]: "getline d s = (a, Some r) \<Longrightarrow> length r < length s"
proof (rule dropWhile_neq_cases [of d s])
  fix x y assume "getline d s = (a, Some r)" "s = x @ d # y" "d \<notin> set x"
  then show ?thesis by simp
qed simp

text \<open>\<open>split\<close> reads until \<open>getline\<close> fails: no token for the empty end of the stream.\<close>

function split_tokens :: "char \<Rightarrow> string \<Rightarrow> string list" where
  "split_tokens d s =
     (if s = [] then []
      else case getline d s of
             (a, None) \<Rightarrow> [a]
           | (a, Some r) \<Rightarrow> a # split_tokens d r)"
  by pat_completeness auto
termination
  by (relation "measure (\<lambda>(d, s). length s)") (auto dest: getline_length [OF sym])

declare split_tokens.simps [simp del]

lemma split_tokens_Nil [simp]: "split_tokens d [] = []"
  by (simp add: split_tokens.simps)

lemma split_tokens_last: "d \<notin> set a \<Longrightarrow> a \<noteq> [] \<Longrightarrow> split_tokens d a = [a]"
  by (simp add: split_tokens.simps)

lemma split_tokens_more: "d \<notin> set a \<Longrightarrow> split_tokens d (a @ d # r) = a # split_tokens d r"
  by (subst split_tokens.simps) simp

lemma split_tokens_join:
  "\<forall>x \<in> set xs. d \<notin> set x \<and> x \<noteq> [] \<Longrightarrow> split_tokens d (join d xs) = xs"
  by (induction d xs rule: join.induct) (auto simp: split_tokens_last split_tokens_more)

lemma trim_fixed:
  assumes "s = [] \<or> \<not> isspace (hd s) \<and> \<not> isspace (last s)"
  shows "trim s = s"
proof (cases "s = []")
  case False
  then obtain a b where "s = a # b" by (cases s) auto
  moreover obtain x y where "rev s = y # x" "y = last s"
    using False by (metis hd_rev list.collapse rev_is_Nil_conv)
  ultimately show ?thesis
    using assms False by (auto simp: trim_def rtrim_def ltrim_def) (metis rev_rev_ident list.sel(1) dropWhile.simps(2) rev.simps(2))
qed (simp add: trim_def rtrim_def ltrim_def)

section \<open>The case-insensitive order\<close>

fun ci_less :: "string \<Rightarrow> string \<Rightarrow> bool" where
  "ci_less s [] = False"
| "ci_less [] (c # cs) = True"
| "ci_less (a # as) (b # bs) =
     (if (of_char (tolower a) :: nat) < of_char (tolower b) then True
      else if (of_char (tolower b) :: nat) < of_char (tolower a) then False
      else ci_less as bs)"

lemma ci_less_lower: "ci_less (lower s) (lower t) = ci_less s t"
  by (induction s t rule: ci_less.induct) simp_all

lemma ci_less_equiv: "\<not> ci_less s t \<and> \<not> ci_less t s \<longleftrightarrow> lower s = lower t"
proof (induction s t rule: ci_less.induct)
  case (1 s) then show ?case by (cases s) simp_all
next
  case (2 c cs) show ?case by simp
next
  case (3 a as b bs)
  consider "(of_char (tolower a) :: nat) < of_char (tolower b)" | "(of_char (tolower b) :: nat) < of_char (tolower a)" | "tolower a = tolower b"
    by (metis linorder_less_linear of_char_eq_iff)
  then show ?case using 3 by cases auto
qed
lemma ci_less_trans: "ci_less s t \<Longrightarrow> ci_less t u \<Longrightarrow> ci_less s u"
proof (induction s t arbitrary: u rule: ci_less.induct)
  case (2 c cs)
  then show ?case by (cases u) auto
next
  case (3 a as b bs)
  then show ?case by (cases u) (auto split: if_splits)
qed simp

section \<open>Maps over case-insensitive keys\<close>

type_synonym kvmap = "string \<Rightarrow> string option"

definition kv_find :: "kvmap \<Rightarrow> string \<Rightarrow> string option" where
  "kv_find m k = m (lower k)"

definition kv_put :: "string \<Rightarrow> string \<Rightarrow> kvmap \<Rightarrow> kvmap" where
  "kv_put k v m = m(lower k := Some v)"

definition kv_erase :: "string \<Rightarrow> kvmap \<Rightarrow> kvmap" where
  "kv_erase k m = m(lower k := None)"

text \<open>
  What the users of a store rely on: a read after a write returns the value for every
  spelling of the key and leaves the other keys alone.
\<close>

locale kv_store =
  fixes get :: "'s \<Rightarrow> string \<Rightarrow> string"
    and put :: "string \<Rightarrow> string \<Rightarrow> 's \<Rightarrow> 's"
  assumes get_put: "get (put k v s) k' = (if lower k' = lower k then v else get s k')"
begin

lemma get_put_same: "lower k' = lower k \<Longrightarrow> get (put k v s) k' = v"
  by (simp add: get_put)

lemma get_put_other: "lower k' \<noteq> lower k \<Longrightarrow> get (put k v s) k' = get s k'"
  by (simp add: get_put)

text \<open>After a sequence of writes a key has the value written last.\<close>

definition last_write :: "(string \<times> string) list \<Rightarrow> string \<Rightarrow> string option" where
  "last_write ps k = map_of (map (\<lambda>(a, v). (lower a, v)) (rev ps)) (lower k)"

lemma get_puts:
  "get (fold (\<lambda>(a, v). put a v) ps s) k = (case last_write ps k of Some v \<Rightarrow> v | None \<Rightarrow> get s k)"
  by (induction ps arbitrary: s)
    (auto simp: last_write_def get_put map_add_def map_of_append split: option.splits)

end

text \<open>\<open>splitKV\<close>: pairs \<open>key=value\<close> separated by commas; white space before a value is skipped.\<close>

lemma getline_twice:
  assumes "getline d s = (k, Some r)" "getline e (dropWhile isspace r) = (v, Some q)"
  shows "length q < length s"
proof -
  have "length q < length (dropWhile isspace r)" by (rule getline_length [OF assms(2)])
  also have "\<dots> \<le> length r" by (rule length_dropWhile_le)
  also have "\<dots> < length s" by (rule getline_length [OF assms(1)])
  finally show ?thesis .
qed

function kv_pairs :: "string \<Rightarrow> (string \<times> string) list" where
  "kv_pairs s =
     (case getline (CHR ''='') s of
        (key, None) \<Rightarrow> []
      | (key, Some r) \<Rightarrow>
          let r1 = dropWhile isspace r
          in if r1 = [] then []
             else case getline (CHR '','') r1 of
                    (v, None) \<Rightarrow> [(key, v)]
                  | (v, Some r2) \<Rightarrow> (key, v) # kv_pairs r2)"
  by pat_completeness auto
termination
  by (relation "measure length") (auto dest: getline_twice [OF sym sym])

declare kv_pairs.simps [simp del]

definition splitKV :: "string \<Rightarrow> kvmap" where
  "splitKV s = fold (\<lambda>(k, v). kv_put k v) (kv_pairs s) (\<lambda>_. None)"

definition getMapCfg :: "kvmap \<Rightarrow> string \<Rightarrow> string \<times> kvmap" where
  "getMapCfg m key = (case kv_find m key of
     None \<Rightarrow> ([], m)
   | Some v \<Rightarrow> (v, kv_erase key m))"

definition stricmp_eq :: "string \<Rightarrow> string \<Rightarrow> bool" where
  "stricmp_eq s t = strcasecmp_eq s t"

definition kv_value :: "kvmap \<Rightarrow> string \<Rightarrow> string" where
  "kv_value m k = fst (getMapCfg m k)"

interpretation kvmap: kv_store kv_value kv_put
  by unfold_locales (auto simp: kv_value_def getMapCfg_def kv_find_def kv_put_def split: option.split)

end
