(* ===== verification/Node_Config.thy ===== *)
theory Node_Config
  imports Complex_Main Airline_Common Msg_Buf
begin

text \<open>
  \<open>airline/Nodeinfo.h\<close>, \<open>airline/Config.h\<close> and the configuration reader of
  \<open>airline/Config.cc\<close>: the per-node records with their statistics, the two levels of keys
  (global and per node), the key ranges \<open>key[a-b]\<close>, and the file reader with its nested
  \<open>include\<close>.  A write outside the node array is a fault of the model; a C++ exception is
  caught where the code catches it.
\<close>

section \<open>State\<close>

record stats_t =
  tx_pkts :: u64
  rx_pkts :: u64
  rx_ack_ok :: "u64 list"
  tx_fail :: u64
  tx_mc_pkts :: u64
  rx_mc_pkts :: u64

definition MAX_MAC_TX_RETRY_CNT :: nat where "MAX_MAC_TX_RETRY_CNT = 10"

definition zero_stats :: stats_t where
  "zero_stats = \<lparr>tx_pkts = 0, rx_pkts = 0, rx_ack_ok = replicate MAX_MAC_TX_RETRY_CNT 0,
                 tx_fail = 0, tx_mc_pkts = 0, rx_mc_pkts = 0\<rparr>"

text \<open>Coordinates are the rational value of the literal in the file (a \<open>double\<close> rounds it).\<close>

record nodeinfo =
  stats :: stats_t
  nodeExec :: string
  capFile :: string
  position :: "rat \<times> rat \<times> rat"
  pos_set :: u8
  promis_mode :: u8
  nkeyval :: kvmap

definition new_nodeinfo :: nodeinfo where
  "new_nodeinfo = \<lparr>stats = zero_stats, nodeExec = [], capFile = [], position = (0, 0, 0),
                   pos_set = 0, promis_mode = 0, nkeyval = (\<lambda>_. None)\<rparr>"

record config =
  nodeArray :: "nodeinfo list"
  numOfNodes :: int
  keyval :: kvmap

definition new_config :: config where
  "new_config = \<lparr>nodeArray = [], numOfNodes = 0, keyval = (\<lambda>_. None)\<rparr>"

section \<open>Nodeinfo\<close>

definition getkv :: "nodeinfo \<Rightarrow> string \<Rightarrow> string" where
  "getkv ni key = (case kv_find (nkeyval ni) key of None \<Rightarrow> [] | Some v \<Rightarrow> v)"

definition setkv :: "string \<Rightarrow> string \<Rightarrow> nodeinfo \<Rightarrow> nodeinfo" where
  "setkv key val ni = ni\<lparr>nkeyval := kv_put key val (nkeyval ni)\<rparr>"

definition setNodeExecutable :: "string \<Rightarrow> nodeinfo \<Rightarrow> nodeinfo" where
  "setNodeExecutable path ni = ni\<lparr>nodeExec := path\<rparr>"

definition setNodeCaptureFile :: "string \<Rightarrow> nodeinfo \<Rightarrow> nodeinfo" where
  "setNodeCaptureFile path ni = ni\<lparr>capFile := path\<rparr>"

definition setPromisMode :: "int \<Rightarrow> nodeinfo \<Rightarrow> nodeinfo" where
  "setPromisMode val ni = ni\<lparr>promis_mode := (if val = 0 then 0 else 1)\<rparr>"

definition getPromisMode :: "nodeinfo \<Rightarrow> int" where
  "getPromisMode ni = uint (promis_mode ni)"

definition set_position :: "rat \<Rightarrow> rat \<Rightarrow> rat \<Rightarrow> nodeinfo \<Rightarrow> nodeinfo" where
  "set_position x y z ni = ni\<lparr>position := (x, y, z), pos_set := 1\<rparr>"

definition getNodePosition :: "nodeinfo \<Rightarrow> (rat \<times> rat \<times> rat) option" where
  "getNodePosition ni = (if pos_set ni = 0 then None else Some (position ni))"

section \<open>Global keys\<close>

text \<open>\<open>operator[]\<close> inserts an empty value for a missing key; \<open>get\<close> cannot tell the difference.\<close>

definition cfg_get :: "config \<Rightarrow> string \<Rightarrow> string" where
  "cfg_get c key = (case kv_find (keyval c) key of None \<Rightarrow> [] | Some v \<Rightarrow> v)"

definition cfg_get_def_val :: "config \<Rightarrow> string \<Rightarrow> string \<Rightarrow> string" where
  "cfg_get_def_val c key d = (let out = cfg_get c key in if out = [] then d else out)"

definition cfg_touch :: "string \<Rightarrow> config \<Rightarrow> config" where
  "cfg_touch key c = (case kv_find (keyval c) key of
     None \<Rightarrow> c\<lparr>keyval := kv_put key [] (keyval c)\<rparr> | Some _ \<Rightarrow> c)"

definition cfg_set :: "string \<Rightarrow> string \<Rightarrow> config \<Rightarrow> config" where
  "cfg_set key val c = c\<lparr>keyval := kv_put key val (keyval c)\<rparr>"

interpretation cfg_store: kv_store cfg_get cfg_set
  by unfold_locales (auto simp: cfg_get_def cfg_set_def kv_find_def kv_put_def)

interpretation node_store: kv_store getkv setkv
  by unfold_locales (auto simp: getkv_def setkv_def kv_find_def kv_put_def)

lemma cfg_get_touch [simp]: "cfg_get (cfg_touch k c) k' = cfg_get c k'"
  by (auto simp: cfg_get_def cfg_touch_def kv_find_def kv_put_def split: option.splits)

section \<open>The node array\<close>

definition get_node_info :: "config \<Rightarrow> u16 \<Rightarrow> nodeinfo option" where
  "get_node_info c nid =
     (if IN_RANGE (uint nid) 0 (numOfNodes c) then Some (nodeArray c ! unat nid) else None)"

definition getNodeCfg :: "config \<Rightarrow> u16 \<Rightarrow> string \<Rightarrow> string" where
  "getNodeCfg c nid key = (case get_node_info c nid of None \<Rightarrow> [] | Some ni \<Rightarrow> getkv ni key)"

definition clearNodeArray :: "config \<Rightarrow> config" where
  "clearNodeArray c = c\<lparr>nodeArray := [], numOfNodes := 0\<rparr>"

text \<open>\<open>new Nodeinfo [value]\<close> throws for a negative length, after the old array is gone.\<close>

definition setNumberOfNodes :: "int \<Rightarrow> config \<Rightarrow> bool \<times> config" where
  "setNumberOfNodes v c =
     (let c1 = clearNodeArray c
      in if v < 0 then (False, c1)
         else (True, c1\<lparr>nodeArray := replicate (nat v) new_nodeinfo, numOfNodes := v\<rparr>))"

text \<open>The loops \<open>for (i = beg; i <= end; i++) nodeArray[i]. ...\<close>.\<close>

function for_nodes :: "(nodeinfo \<Rightarrow> nodeinfo) \<Rightarrow> int \<Rightarrow> int \<Rightarrow> nodeinfo list \<Rightarrow> nodeinfo list outcome" where
  "for_nodes f i e ns =
     (if i > e then Ret ns
      else if 0 \<le> i \<and> nat i < length ns then for_nodes f (i + 1) e (ns[nat i := f (ns ! nat i)])
      else Fault Out_Of_Bounds)"
  by pat_completeness auto
termination
  by (relation "measure (\<lambda>(f, i, e, ns). nat (e - i + 1))") auto

declare for_nodes.simps [simp del]

definition upd_nodes :: "(nodeinfo \<Rightarrow> nodeinfo) \<Rightarrow> int \<Rightarrow> int \<Rightarrow> config \<Rightarrow> config outcome" where
  "upd_nodes f beg e c = bindo (for_nodes f beg e (nodeArray c)) (\<lambda>ns. Ret (c\<lparr>nodeArray := ns\<rparr>))"

text \<open>
  A setter whose argument has to be parsed parses it in each round; the first failing parse
  throws before anything is written, and no round runs for an empty range.
\<close>

definition throwing :: "'a option \<Rightarrow> ('a \<Rightarrow> nodeinfo \<Rightarrow> nodeinfo) \<Rightarrow> int \<Rightarrow> int \<Rightarrow> config \<Rightarrow> config outcome" where
  "throwing vo f beg e c =
     (if beg > e then Ret c
      else case vo of None \<Rightarrow> Fault Exception | Some v \<Rightarrow> upd_nodes (f v) beg e c)"

section \<open>Floating-point literals\<close>

definition frac_val :: "string \<Rightarrow> rat" where
  "frac_val ds = rat_of_int (digits_val 0 ds) / 10 ^ length ds"

definition exp10 :: "int \<Rightarrow> rat" where
  "exp10 e = (if e < 0 then 1 / 10 ^ nat (- e) else 10 ^ nat e)"

text \<open>
  \<open>std::stod\<close> on decimal literals; \<open>None\<close> is the exception it throws for a text that does not begin
  with one.  Its other inputs are not modelled: \<open>inf\<close> and \<open>nan\<close> count as no number, a hexadecimal
  literal as the zero it begins with, and a literal beyond the range of \<open>double\<close>, for which the
  function throws \<open>out_of_range\<close>, has its rational value.
\<close>

definition stod :: "string \<Rightarrow> rat option" where
  "stod s = (case sign_split (dropWhile isspace s) of (sg, r) \<Rightarrow>
     let ip = takeWhile isdigit r; r1 = dropWhile isdigit r;
         fp = (if r1 \<noteq> [] \<and> hd r1 = CHR ''.'' then takeWhile isdigit (tl r1) else []);
         r2 = (if r1 \<noteq> [] \<and> hd r1 = CHR ''.'' then dropWhile isdigit (tl r1) else r1);
         ex = (if r2 \<noteq> [] \<and> tolower (hd r2) = CHR ''e''
               then case sign_split (tl r2) of (es, r3) \<Rightarrow> es * digits_val 0 r3 else 0)
     in if ip = [] \<and> fp = [] then None
        else Some (of_int sg * (of_int (digits_val 0 ip) + frac_val fp) * exp10 ex))"

section \<open>Setters of a node range\<close>

definition setNodeSetExec :: "string \<Rightarrow> int \<Rightarrow> int \<Rightarrow> config \<Rightarrow> config outcome" where
  "setNodeSetExec ex beg e c = upd_nodes (setNodeExecutable ex) beg e c"

definition setNodeSetCapFile :: "string \<Rightarrow> int \<Rightarrow> int \<Rightarrow> config \<Rightarrow> config outcome" where
  "setNodeSetCapFile path beg e c = upd_nodes (setNodeCaptureFile path) beg e c"

definition parse_position :: "string list \<Rightarrow> (rat \<times> rat \<times> rat) option" where
  "parse_position pos = (case (stod (pos ! 0), stod (pos ! 1), stod (pos ! 2)) of
     (Some x, Some y, Some z) \<Rightarrow> Some (x, y, z) | _ \<Rightarrow> None)"

definition setNodePosition :: "string \<Rightarrow> int \<Rightarrow> int \<Rightarrow> config \<Rightarrow> (int \<times> config) outcome" where
  "setNodePosition posn beg e c =
     (let pos = split_tokens (CHR '','') posn
      in if length pos < 3 then Ret (FAILURE, c)
         else bindo (throwing (parse_position pos) (\<lambda>(x, y, z). set_position x y z) beg e c)
                (\<lambda>c'. Ret (SUCCESS, c')))"

definition setNodePromis :: "string \<Rightarrow> int \<Rightarrow> int \<Rightarrow> config \<Rightarrow> config outcome" where
  "setNodePromis pmode beg e c = throwing (stoi pmode) setPromisMode beg e c"

definition setNodeKV :: "string \<Rightarrow> string \<Rightarrow> int \<Rightarrow> int \<Rightarrow> config \<Rightarrow> config outcome" where
  "setNodeKV key val beg e c = upd_nodes (setkv key val) beg e c"

section \<open>Reading a file\<close>

text \<open>The key without its range, the first and last node, and whether a range was written.\<close>

definition getKeyRange :: "int \<Rightarrow> string \<Rightarrow> string \<times> int \<times> int \<times> bool" where
  "getKeyRange n keystr = (case strchr (CHR ''['') keystr of
     None \<Rightarrow> (keystr, 0, n - 1, False)
   | Some p \<Rightarrow>
       let key = fst (getline (CHR ''['') keystr);
           beg = atoi (tl p)
       in case strchr (CHR ''-'') (tl p) of
            None \<Rightarrow> (key, beg, beg, True)
          | Some q \<Rightarrow>
              let e = atoi (tl q)
              in if e \<le> beg then ([], beg, e, True)
                 else (key, beg, if e \<ge> n then n - 1 else e, True))"

text \<open>
  One line of the file.  \<open>Some r\<close> ends the reading with status \<open>r\<close>.  \<open>inc\<close> is the recursive
  call for an included file.
\<close>

definition caught :: "config \<Rightarrow> config outcome \<Rightarrow> (int option \<times> config) outcome" where
  "caught c r = (case r of
     Ret c' \<Rightarrow> Ret (None, c')
   | Blocked \<Rightarrow> Blocked
   | Fault e \<Rightarrow> if e = Exception then Ret (Some FAILURE, c) else Fault e)"

definition apply_key ::
  "(string \<Rightarrow> config \<Rightarrow> (int \<times> config) outcome) \<Rightarrow> string \<Rightarrow> int \<Rightarrow> int \<Rightarrow> bool \<Rightarrow> string \<Rightarrow> config
   \<Rightarrow> (int option \<times> config) outcome" where
  "apply_key inc key beg e explicit value c =
     (if key = ''numOfNodes'' then
        case stoi value of
          None \<Rightarrow> Ret (Some FAILURE, c)
        | Some v \<Rightarrow> (case setNumberOfNodes v c of
                       (False, c') \<Rightarrow> Ret (Some FAILURE, c')
                     | (True, c') \<Rightarrow> Ret (None, cfg_set key value c'))
      else if numOfNodes c = 0 then Ret (Some FAILURE, c)
      else if e \<ge> numOfNodes c then Ret (Some FAILURE, c)
      else if key = ''nodeExec'' then caught c (setNodeSetExec value beg e c)
      else if key = ''captureFile'' then caught c (setNodeSetCapFile value beg e c)
      else if key = ''nodePosition'' then
        caught c (bindo (setNodePosition value beg e c) (\<lambda>(r, c'). Ret c'))
      else if key = ''nodePromiscuous'' then caught c (setNodePromis value beg e c)
      else if key = ''include'' then
        bindo (inc value c) (\<lambda>(r, c').
          if r = FAILURE then Ret (Some FAILURE, c') else Ret (None, c'))
      else if explicit then caught c (setNodeKV key value beg e c)
      else Ret (None, cfg_set key value c))"

definition config_line ::
  "(string \<Rightarrow> config \<Rightarrow> (int \<times> config) outcome) \<Rightarrow> string \<Rightarrow> config \<Rightarrow> (int option \<times> config) outcome" where
  "config_line inc line c =
     (if line = [] then Ret (None, c)
      else case getline (CHR ''='') line of (key0, rest) \<Rightarrow>
        if key0 \<noteq> [] \<and> hd key0 = CHR ''#'' then Ret (None, c)
        else case rest of
          None \<Rightarrow> Ret (None, c)
        | Some r \<Rightarrow>
            if r = [] then Ret (None, c)
            else
              let value = trim (fst (getline (CHR ''#'') r));
                  (key, beg, e, explicit) = getKeyRange (numOfNodes c) (trim key0)
              in apply_key inc key beg e explicit value c)"

fun config_lines ::
  "(string \<Rightarrow> config \<Rightarrow> (int \<times> config) outcome) \<Rightarrow> string list \<Rightarrow> config \<Rightarrow> (int \<times> config) outcome" where
  "config_lines inc [] c = Ret (SUCCESS, c)"
| "config_lines inc (l # ls) c =
     bindo (config_line inc l c) (\<lambda>(stop, c').
       case stop of Some r \<Rightarrow> Ret (r, c') | None \<Rightarrow> config_lines inc ls c')"

text \<open>Fuel bounds the nesting of \<open>include\<close>; out of fuel is a file that includes itself.\<close>

fun setConfigurationFromFile ::
  "nat \<Rightarrow> (string \<Rightarrow> string option) \<Rightarrow> string \<Rightarrow> config \<Rightarrow> (int \<times> config) outcome" where
  "setConfigurationFromFile 0 fs fname c = Blocked"
| "setConfigurationFromFile (Suc n) fs fname c = (case fs fname of
     None \<Rightarrow> Ret (FAILURE, c)
   | Some content \<Rightarrow>
       config_lines (setConfigurationFromFile n fs) (split_tokens (CHR 0x0A) content) c)"

section \<open>Well-formed configurations\<close>

definition config_ok :: "config \<Rightarrow> bool" where
  "config_ok c \<longleftrightarrow> 0 \<le> numOfNodes c \<and> length (nodeArray c) = nat (numOfNodes c)"

definition upd_range :: "(nodeinfo \<Rightarrow> nodeinfo) \<Rightarrow> int \<Rightarrow> int \<Rightarrow> nodeinfo list \<Rightarrow> nodeinfo list" where
  "upd_range f b e ns =
     map (\<lambda>i. if b \<le> int i \<and> int i \<le> e then f (ns ! i) else ns ! i) [0..<length ns]"

lemma length_upd_range [simp]: "length (upd_range f b e ns) = length ns"
  by (simp add: upd_range_def)

lemma nth_upd_range [simp]:
  "i < length ns \<Longrightarrow> upd_range f b e ns ! i = (if b \<le> int i \<and> int i \<le> e then f (ns ! i) else ns ! i)"
  by (simp add: upd_range_def)

lemma for_nodes_eq:
  "0 \<le> i \<Longrightarrow> e < int (length ns) \<Longrightarrow> for_nodes f i e ns = Ret (upd_range f i e ns)"
proof (induction f i e ns rule: for_nodes.induct)
  case (1 f i e ns)
  show ?case
  proof (cases "i > e")
    case True
    moreover have "upd_range f i e ns = ns"
      using True by (intro nth_equalityI) auto
    ultimately show ?thesis by (simp add: for_nodes.simps [of f i e ns])
  next
    case False
    with 1 have "for_nodes f i e ns = Ret (upd_range f (i + 1) e (ns[nat i := f (ns ! nat i)]))"
      by (simp add: for_nodes.simps [of f i e ns] nat_less_iff)
    moreover have "upd_range f (i + 1) e (ns[nat i := f (ns ! nat i)]) = upd_range f i e ns"
      using 1 False by (intro nth_equalityI) (auto simp: nth_list_update nat_less_iff)
    ultimately show ?thesis by simp
  qed
qed

lemma for_nodes_length: "for_nodes f i e ns = Ret ns' \<Longrightarrow> length ns' = length ns"
proof (induction f i e ns rule: for_nodes.induct)
  case (1 f i e ns)
  then show ?case by (subst (asm) (2) for_nodes.simps) (auto split: if_splits)
qed

lemma for_nodes_not_exception: "for_nodes f i e ns \<noteq> Fault Exception \<and> for_nodes f i e ns \<noteq> Blocked"
proof (induction f i e ns rule: for_nodes.induct)
  case (1 f i e ns)
  then show ?case by (subst (1 2) for_nodes.simps) auto
qed

lemma upd_nodes_ok: "upd_nodes f b e c = Ret c' \<Longrightarrow> config_ok c \<Longrightarrow> config_ok c'"
  by (auto simp: upd_nodes_def bindo_eq_Ret config_ok_def dest: for_nodes_length)

lemma throwing_ok: "throwing vo f b e c = Ret c' \<Longrightarrow> config_ok c \<Longrightarrow> config_ok c'"
  by (auto simp: throwing_def upd_nodes_ok split: if_splits option.splits)

lemma caught_eq_Ret:
  "caught c r = Ret (s, c') \<longleftrightarrow> (r = Ret c' \<and> s = None) \<or> (r = Fault Exception \<and> s = Some FAILURE \<and> c' = c)"
  by (auto simp: caught_def split: outcome.splits)

lemma config_ok_set [simp]: "config_ok (cfg_set k v c) = config_ok c"
  by (simp add: config_ok_def cfg_set_def)

lemma setNumberOfNodes_ok: "setNumberOfNodes v c = (b, c') \<Longrightarrow> config_ok c'"
  by (auto simp: setNumberOfNodes_def clearNodeArray_def config_ok_def Let_def split: if_splits)

lemmas node_setters = setNodeSetExec_def setNodeSetCapFile_def setNodePromis_def setNodeKV_def
  setNodePosition_def

definition keeps_ok :: "(string \<Rightarrow> config \<Rightarrow> (int \<times> config) outcome) \<Rightarrow> bool" where
  "keeps_ok inc \<longleftrightarrow> (\<forall>v c r c'. inc v c = Ret (r, c') \<longrightarrow> config_ok c \<longrightarrow> config_ok c')"

lemma apply_key_ok:
  assumes "apply_key inc key b e x v c = Ret (s, c')" "config_ok c" "keeps_ok inc"
  shows "config_ok c'"
proof -
  have inc: "\<And>v r c1. inc v c = Ret (r, c1) \<Longrightarrow> config_ok c1"
    using assms(2,3) by (auto simp: keeps_ok_def)
  note ok = upd_nodes_ok [OF _ assms(2)] throwing_ok [OF _ assms(2)] setNumberOfNodes_ok
  show ?thesis
    using assms(1,2) unfolding apply_key_def node_setters
    by (auto simp: caught_eq_Ret bindo_eq_Ret Let_def dest: inc ok
        split: if_splits option.splits prod.splits bool.splits)
qed

lemma config_line_ok:
  "config_line inc l c = Ret (s, c') \<Longrightarrow> config_ok c \<Longrightarrow> keeps_ok inc \<Longrightarrow> config_ok c'"
  by (auto simp: config_line_def Let_def dest: apply_key_ok split: if_splits option.splits prod.splits)

lemma config_lines_ok:
  "config_lines inc ls c = Ret (r, c') \<Longrightarrow> config_ok c \<Longrightarrow> keeps_ok inc \<Longrightarrow> config_ok c'"
proof (induction ls arbitrary: c)
  case (Cons l ls)
  then obtain s c1 where "config_line inc l c = Ret (s, c1)"
    by (auto simp: bindo_eq_Ret)
  with Cons config_line_ok [OF this] show ?case
    by (auto split: option.splits)
qed simp

lemma get_node_info_eq:
  assumes "config_ok c"
  shows "get_node_info c nid = (if unat nid < length (nodeArray c) then Some (nodeArray c ! unat nid) else None)"
proof -
  have "uint nid < numOfNodes c \<longleftrightarrow> unat nid < length (nodeArray c)"
    using assms uint_nat [of nid] by (simp add: config_ok_def zless_nat_eq_int_zless)
  then show ?thesis by (simp add: get_node_info_def IN_RANGE_def)
qed

section \<open>Key ranges\<close>

datatype node_range = AllNodes | One nat | Span nat nat

fun covers :: "node_range \<Rightarrow> nat \<Rightarrow> bool" where
  "covers AllNodes i = True"
| "covers (One a) i = (i = a)"
| "covers (Span a b) i = (a \<le> i \<and> i \<le> b)"

fun range_text :: "node_range \<Rightarrow> string" where
  "range_text AllNodes = []"
| "range_text (One a) = ''['' @ dec_nat a @ '']''"
| "range_text (Span a b) = ''['' @ dec_nat a @ ''-'' @ dec_nat b @ '']''"

text \<open>The numbers fit an \<open>int\<close>; a single node may be one that does not exist.\<close>

fun valid_range :: "node_range \<Rightarrow> bool" where
  "valid_range AllNodes = True"
| "valid_range (One a) = (a < 2 ^ 31)"
| "valid_range (Span a b) = (a < b \<and> b < 2 ^ 31)"

fun in_config :: "nat \<Rightarrow> node_range \<Rightarrow> bool" where
  "in_config n (One a) = (a < n)"
| "in_config n r = True"

fun range_lo :: "node_range \<Rightarrow> int" where
  "range_lo AllNodes = 0" | "range_lo (One a) = int a" | "range_lo (Span a b) = int a"

fun range_hi :: "nat \<Rightarrow> node_range \<Rightarrow> int" where
  "range_hi n AllNodes = int n - 1"
| "range_hi n (One a) = int a"
| "range_hi n (Span a b) = min (int b) (int n - 1)"

lemma not_in_dec_nat [simp]: "\<not> isdigit c \<Longrightarrow> c \<notin> set (dec_nat n)"
  by (auto dest: isdigit_dec_nat)

lemma not_digits [simp]:
  "\<not> isdigit (CHR ''['')" "\<not> isdigit (CHR '']'')" "\<not> isdigit (CHR ''-'')" "\<not> isdigit (CHR ''='')"
  "\<not> isdigit (CHR ''#'')" "\<not> isdigit (CHR 0x0A)"
  by (simp_all add: isdigit_def)

lemma atoi_dec_nat_stop [simp]: "\<not> isdigit c \<Longrightarrow> atoi (dec_nat n @ c # r) = int n"
  by (rule atoi_dec_nat) simp

lemma getKeyRange_text:
  assumes "CHR ''['' \<notin> set key" "valid_range r"
  shows "getKeyRange (int n) (key @ range_text r)
         = (key, range_lo r, range_hi n r, r \<noteq> AllNodes)"
proof (cases r)
  case AllNodes
  with assms show ?thesis by (simp add: getKeyRange_def)
next
  case (One a)
  have "strchr (CHR ''['') (key @ CHR ''['' # dec_nat a @ '']'') = Some (CHR ''['' # dec_nat a @ '']'')"
    "strchr (CHR ''-'') (dec_nat a @ '']'') = None"
    using assms by (simp_all add: strchr_eq_None_iff)
  with One assms show ?thesis by (simp add: getKeyRange_def Let_def)
next
  case (Span a b)
  have "strchr (CHR ''['') (key @ CHR ''['' # dec_nat a @ CHR ''-'' # dec_nat b @ '']'')
       = Some (CHR ''['' # dec_nat a @ CHR ''-'' # dec_nat b @ '']'')"
    "strchr (CHR ''-'') (dec_nat a @ CHR ''-'' # dec_nat b @ '']'') = Some (CHR ''-'' # dec_nat b @ '']'')"
    using assms by simp_all
  with Span assms show ?thesis by (simp add: getKeyRange_def Let_def min_def)
qed

section \<open>Directives and their abstract meaning\<close>

text \<open>
  A directive line is \<open>key<range>=value\<close>.  Its meaning is independent of the reader: each node it
  covers gets the value, or the global map does when no range is written.  A position with fewer
  than three parts changes nothing.
\<close>

type_synonym directive = "string \<times> node_range \<times> string"

fun directive_text :: "directive \<Rightarrow> string" where
  "directive_text (k, r, v) = k @ range_text r @ CHR ''='' # v"

definition plain_text :: "string \<Rightarrow> bool" where
  "plain_text s \<longleftrightarrow> s \<noteq> [] \<and> \<not> isspace (hd s) \<and> \<not> isspace (last s) \<and>
     CHR 0x0A \<notin> set s \<and> CHR ''#'' \<notin> set s"

fun valid_directive :: "directive \<Rightarrow> bool" where
  "valid_directive (k, r, v) =
     (plain_text k \<and> plain_text v \<and> valid_range r \<and>
      CHR ''='' \<notin> set k \<and> CHR ''['' \<notin> set k \<and> k \<noteq> ''numOfNodes'' \<and> k \<noteq> ''include'')"

definition numbers :: "string \<Rightarrow> rat option list" where
  "numbers v = map stod (split_tokens (CHR '','') v)"

fun node_effect :: "nat \<Rightarrow> directive \<Rightarrow> nodeinfo \<Rightarrow> nodeinfo" where
  "node_effect i (k, r, v) ni =
     (if \<not> covers r i then ni
      else if k = ''nodeExec'' then ni\<lparr>nodeExec := v\<rparr>
      else if k = ''captureFile'' then ni\<lparr>capFile := v\<rparr>
      else if k = ''nodePosition'' then
        (case numbers v of Some x # Some y # Some z # _ \<Rightarrow> ni\<lparr>position := (x, y, z), pos_set := 1\<rparr> | _ \<Rightarrow> ni)
      else if k = ''nodePromiscuous'' then
        (case stoi v of Some p \<Rightarrow> ni\<lparr>promis_mode := (if p = 0 then 0 else 1)\<rparr> | None \<Rightarrow> ni)
      else if r = AllNodes then ni else ni\<lparr>nkeyval := (nkeyval ni)(lower k := Some v)\<rparr>)"

definition node_key :: "string \<Rightarrow> bool" where
  "node_key k \<longleftrightarrow> k \<in> {''nodeExec'', ''captureFile'', ''nodePosition'', ''nodePromiscuous''}"

fun global_effect :: "directive \<Rightarrow> kvmap \<Rightarrow> kvmap" where
  "global_effect (k, r, v) m = (if node_key k \<or> r \<noteq> AllNodes then m else m(lower k := Some v))"

text \<open>A directive that ends the reading: for a node that does not exist, or with a bad number for one that does.\<close>

fun refused :: "nat \<Rightarrow> directive \<Rightarrow> bool" where
  "refused n (k, r, v) \<longleftrightarrow> \<not> in_config n r \<or> list_ex (covers r) [0..<n] \<and>
     (k = ''nodePosition'' \<and> 3 \<le> length (numbers v) \<and> None \<in> set (take 3 (numbers v)) \<or>
      k = ''nodePromiscuous'' \<and> stoi v = None)"

definition apply_directive :: "directive \<Rightarrow> config \<Rightarrow> config" where
  "apply_directive d c = c\<lparr>
     nodeArray := map (\<lambda>i. node_effect i d (nodeArray c ! i)) [0..<length (nodeArray c)],
     keyval := global_effect d (keyval c)\<rparr>"

lemma apply_directive_simps [simp]:
  "numOfNodes (apply_directive d c) = numOfNodes c"
  "length (nodeArray (apply_directive d c)) = length (nodeArray c)"
  "keyval (apply_directive d c) = global_effect d (keyval c)"
  "i < length (nodeArray c) \<Longrightarrow>
   nodeArray (apply_directive d c) ! i = node_effect i d (nodeArray c ! i)"
  by (simp_all add: apply_directive_def)

lemma config_ok_apply_directive [simp]: "config_ok (apply_directive d c) = config_ok c"
  by (simp add: config_ok_def)

lemma fold_directives:
  "numOfNodes (fold apply_directive ds c) = numOfNodes c"
  "length (nodeArray (fold apply_directive ds c)) = length (nodeArray c)"
  "keyval (fold apply_directive ds c) = fold global_effect ds (keyval c)"
  "i < length (nodeArray c) \<Longrightarrow>
   nodeArray (fold apply_directive ds c) ! i = fold (node_effect i) ds (nodeArray c ! i)"
  by (induction ds arbitrary: c) auto

lemma upd_nodes_range:
  assumes "config_ok c" "0 \<le> b" "e < numOfNodes c"
  shows "upd_nodes f b e c = Ret (c\<lparr>nodeArray := upd_range f b e (nodeArray c)\<rparr>)"
proof -
  have "e < int (length (nodeArray c))" using assms by (simp add: config_ok_def)
  with assms(2) show ?thesis by (simp add: upd_nodes_def for_nodes_eq)
qed

lemma covers_range:
  "i < n \<Longrightarrow> covers r i \<longleftrightarrow> range_lo r \<le> int i \<and> int i \<le> range_hi n r"
  by (cases r) auto

lemma range_bounds: "in_config n r \<Longrightarrow> 0 \<le> range_lo r \<and> range_hi n r < int n"
  by (cases r) auto

lemma range_outside: "\<not> in_config n r \<Longrightarrow> int n \<le> range_hi n r"
  by (cases r) auto

lemma range_nonempty:
  assumes "0 < n" "valid_range r" "in_config n r"
  shows "list_ex (covers r) [0..<n] \<longleftrightarrow> range_lo r \<le> range_hi n r"
proof (cases r)
  case (Span a b)
  have "(\<exists>i<n. a \<le> i \<and> i \<le> b) \<longleftrightarrow> a < n" using assms(2) by (auto simp: Span intro: exI [of _ a])
  then show ?thesis using assms(1,2) by (auto simp: Span list_ex_iff Bex_def)
qed (use assms in \<open>auto simp: list_ex_iff Bex_def\<close>)

lemma upd_range_covers:
  assumes "config_ok c" "n = nat (numOfNodes c)"
  shows "upd_range f (range_lo r) (range_hi n r) (nodeArray c)
         = map (\<lambda>i. if covers r i then f (nodeArray c ! i) else nodeArray c ! i) [0..<length (nodeArray c)]"
  using assms by (intro nth_equalityI) (auto simp: config_ok_def covers_range)

lemma upd_nodes_covers:
  assumes "config_ok c" "numOfNodes c = int n" "in_config n r"
  shows "upd_nodes f (range_lo r) (range_hi n r) c = Ret (c\<lparr>nodeArray :=
      map (\<lambda>i. if covers r i then f (nodeArray c ! i) else nodeArray c ! i) [0..<length (nodeArray c)]\<rparr>)"
  using assms range_bounds [OF assms(3)] by (simp add: upd_nodes_range upd_range_covers)

lemma covers_none:
  "\<not> list_ex (covers r) [0..<n] \<Longrightarrow> map (\<lambda>i. if covers r i then g i else h i) [0..<n] = map h [0..<n]"
  by (auto simp: list_ex_iff)

lemma throwing_covers:
  assumes "config_ok c" "numOfNodes c = int n" "0 < n" "valid_range r" "in_config n r"
  shows "throwing vo f (range_lo r) (range_hi n r) c = (if list_ex (covers r) [0..<n] \<and> vo = None then Fault Exception
    else Ret (c\<lparr>nodeArray := map (\<lambda>i. if covers r i then f (the vo) (nodeArray c ! i) else nodeArray c ! i) [0..<n]\<rparr>))"
proof -
  have len: "length (nodeArray c) = n" using assms by (simp add: config_ok_def)
  then have same: "map (\<lambda>i. nodeArray c ! i) [0..<n] = nodeArray c" using map_nth by blast
  show ?thesis
  proof (cases "list_ex (covers r) [0..<n]")
    case True
    then show ?thesis
      using range_nonempty [OF assms(3-5)] upd_nodes_covers [OF assms(1,2,5)] len
      by (auto simp: throwing_def split: option.splits)
  next
    case False
    then show ?thesis
      using range_nonempty [OF assms(3-5)] same by (simp add: throwing_def covers_none)
  qed
qed

lemma setNodePosition_covers:
  assumes "config_ok c" "numOfNodes c = int n" "0 < n" "valid_range r" "in_config n r"
  shows "caught c (bindo (setNodePosition v (range_lo r) (range_hi n r) c) (\<lambda>(r, c'). Ret c')) =
    Ret (if refused n (''nodePosition'', r, v) then (Some FAILURE, c) else (None, apply_directive (''nodePosition'', r, v) c))"
proof -
  have len: "length (nodeArray c) = n" using assms by (simp add: config_ok_def)
  then have same: "map (\<lambda>i. nodeArray c ! i) [0..<n] = nodeArray c" using map_nth by blast
  let ?t = "split_tokens (CHR '','') v"
  show ?thesis
  proof (cases "length ?t < 3")
    case True
    then have "node_effect i (''nodePosition'', r, v) ni = ni" for i and ni :: nodeinfo
      by (auto simp: numbers_def split: list.splits option.splits)
    then show ?thesis
      using True assms(5) len same
      by (simp add: setNodePosition_def caught_def apply_directive_def numbers_def node_key_def del: node_effect.simps)
  next
    case False
    then obtain x y z ts where t: "?t = x # y # z # ts"
      by (cases ?t; cases "tl ?t"; cases "tl (tl ?t)") auto
    define p where "p = parse_position ?t"
    have p: "p = None \<longleftrightarrow> None \<in> set (take 3 (numbers v))"
      by (auto simp: p_def parse_position_def numbers_def t split: option.splits)
    have e: "(if covers r i then (case the p of (x, y, z) \<Rightarrow> set_position x y z) ni else ni)
        = node_effect i (''nodePosition'', r, v) ni" if "p \<noteq> None" for i and ni :: nodeinfo
      using that by (auto simp: p_def parse_position_def numbers_def t set_position_def split: option.splits)
    have none: "node_effect i (''nodePosition'', r, v) ni = ni" if "\<not> covers r i \<or> p = None" for i and ni :: nodeinfo
      using that by (auto simp: p_def parse_position_def numbers_def t split: option.splits)
    have l: "3 \<le> length (numbers v)" by (simp add: numbers_def t)
    note th = throwing_covers [OF assms, of p "\<lambda>(x, y, z). set_position x y z"]
    show ?thesis
    proof (cases "p = None")
      case True
      then show ?thesis
        using th False p l assms(5) len same none
        by (auto simp: setNodePosition_def Let_def p_def [symmetric] caught_def apply_directive_def
            node_key_def covers_none simp del: node_effect.simps)
    next
      case q: False
      then show ?thesis
        using th False p l assms(5) len e [OF q]
        by (simp add: setNodePosition_def Let_def p_def [symmetric] caught_def apply_directive_def node_key_def del: node_effect.simps)
    qed
  qed
qed

lemma apply_key_directive:
  assumes ok: "config_ok c" "numOfNodes c = int n" "0 < n" and d: "valid_directive (k, r, v)"
  shows "apply_key inc k (range_lo r) (range_hi n r) (r \<noteq> AllNodes) v c
         = Ret (if refused n (k, r, v) then (Some FAILURE, c) else (None, apply_directive (k, r, v) c))"
proof (cases "in_config n r")
  case False
  then show ?thesis using range_outside [OF False] ok d by (simp add: apply_key_def)
next
  case True
  have len: "length (nodeArray c) = n" using ok by (simp add: config_ok_def)
  then have same: "map (\<lambda>i. nodeArray c ! i) [0..<n] = nodeArray c" using map_nth by blast
  have r: "valid_range r" and key: "k \<noteq> ''numOfNodes''" "k \<noteq> ''include''" using d by simp_all
  note upd = upd_nodes_covers [OF ok(1,2) True, unfolded len]
  have num: "numOfNodes c \<noteq> 0" "\<not> range_hi n r \<ge> numOfNodes c" using ok range_bounds [OF True] by simp_all
  note step = apply_key_def apply_directive_def len caught_def upd node_key_def
  consider "k = ''nodeExec''" | "k = ''captureFile''" | "k = ''nodePosition''" | "k = ''nodePromiscuous''"
    | (glob) "\<not> node_key k" "r = AllNodes" | (kv) "\<not> node_key k" "r \<noteq> AllNodes" by (auto simp: node_key_def)
  then show ?thesis
  proof cases
    case 1
    with num True show ?thesis by (simp add: step setNodeSetExec_def setNodeExecutable_def cong: map_cong)
  next
    case 2
    with num True show ?thesis by (simp add: step setNodeSetCapFile_def setNodeCaptureFile_def cong: map_cong)
  next
    case 3
    with num setNodePosition_covers [OF ok r True] show ?thesis by (simp add: apply_key_def)
  next
    case 4
    have e: "(if covers r i then setPromisMode (the (stoi v)) ni else ni) = node_effect i (''nodePromiscuous'', r, v) ni"
      if "stoi v = Some p" for i p and ni :: nodeinfo
      using that by (simp add: setPromisMode_def)
    have none: "node_effect i (''nodePromiscuous'', r, v) ni = ni" if "\<not> covers r i \<or> stoi v = None" for i and ni :: nodeinfo
      using that by auto
    note th = throwing_covers [OF ok r True, of "stoi v" setPromisMode]
    show ?thesis
    proof (cases "stoi v")
      case None
      then show ?thesis
        using 4 num th none same True
        by (auto simp: apply_key_def setNodePromis_def apply_directive_def len caught_def node_key_def covers_none
            simp del: node_effect.simps)
    next
      case (Some p)
      then show ?thesis
        using 4 num th e [OF Some] True
        by (simp add: apply_key_def setNodePromis_def apply_directive_def len caught_def node_key_def del: node_effect.simps)
    qed
  next
    case glob
    with num key True show ?thesis by (simp add: step same cfg_set_def kv_put_def)
  next
    case kv
    with num key True show ?thesis by (simp add: step setNodeKV_def setkv_def kv_put_def cong: map_cong)
  qed
qed

lemma plain_text_trim [simp]: "plain_text s \<Longrightarrow> trim s = s"
  by (rule trim_fixed) (auto simp: plain_text_def)

lemma set_range_text:
  "set (range_text r) \<subseteq> {CHR ''['', CHR ''-'', CHR '']''} \<union> {c. isdigit c}"
  by (cases r) (auto dest: isdigit_dec_nat)

lemma last_range_text: "r \<noteq> AllNodes \<Longrightarrow> last (range_text r) = CHR '']'' \<and> range_text r \<noteq> []"
  by (cases r) auto

lemma not_in_range_text [simp]:
  "CHR ''='' \<notin> set (range_text r)" "CHR 0x0A \<notin> set (range_text r)"
  using set_range_text [of r] by (auto simp: isdigit_def)

lemma trim_key_range [simp]:
  assumes "plain_text k" shows "trim (k @ range_text r) = k @ range_text r"
proof (cases "r = AllNodes")
  case True
  with assms show ?thesis by simp
next
  case False
  with assms last_range_text [of r] show ?thesis
    by (intro trim_fixed) (auto simp: plain_text_def isspace_def hd_append last_append)
qed

text \<open>Behind the value: white space and a comment.\<close>

definition trailer :: "string \<Rightarrow> bool" where
  "trailer w \<longleftrightarrow> CHR 0x0A \<notin> set w \<and> (dropWhile isspace w = [] \<or> hd (dropWhile isspace w) = CHR ''#'')"

lemma trim_spaces: "plain_text v \<Longrightarrow> list_all isspace w \<Longrightarrow> trim (v @ w) = v"
proof -
  assume v: "plain_text v" and w: "list_all isspace w"
  have "dropWhile isspace (rev w @ rev v) = dropWhile isspace (rev v)"
    using w by (intro dropWhile_append2) (simp add: list_all_iff)
  then have "trim (v @ w) = trim v" by (simp add: trim_def rtrim_def)
  with v show ?thesis by simp
qed

lemma trailer_value:
  assumes "plain_text v" "trailer w"
  shows "trim (fst (getline (CHR ''#'') (v @ w))) = v"
proof -
  let ?s = "takeWhile isspace w" and ?d = "dropWhile isspace w"
  have s: "\<forall>x \<in> set ?s. isspace x" using set_takeWhileD by fast
  moreover have "\<not> isspace (CHR ''#'')" by (simp add: isspace_def)
  ultimately have "\<forall>x \<in> set ?s. x \<noteq> CHR ''#''" by blast
  then have "takeWhile (\<lambda>x. x \<noteq> CHR ''#'') (?s @ ?d) = ?s @ takeWhile (\<lambda>x. x \<noteq> CHR ''#'') ?d"
    by (rule takeWhile_append2 [OF bspec])
  moreover have "takeWhile (\<lambda>x. x \<noteq> CHR ''#'') ?d = []"
  proof (cases ?d)
    case Nil
    then show ?thesis by (simp only: takeWhile.simps)
  next
    case (Cons x xs)
    then have "x = CHR ''#''" using assms(2) unfolding trailer_def by auto
    with Cons show ?thesis by simp
  qed
  ultimately have "takeWhile (\<lambda>x. x \<noteq> CHR ''#'') w = ?s" by simp
  moreover have "\<forall>x \<in> set v. x \<noteq> CHR ''#''" using assms(1) by (auto simp: plain_text_def)
  ultimately have "fst (getline (CHR ''#'') (v @ w)) = v @ ?s" by (simp add: getline_def takeWhile_append2)
  with trim_spaces [OF assms(1), of ?s] s show ?thesis by (simp add: list_all_iff)
qed

definition setting_line :: "string \<Rightarrow> node_range \<Rightarrow> string \<Rightarrow> string \<Rightarrow> string" where
  "setting_line k r v w = directive_text (k, r, v) @ w"

lemma config_line_setting:
  assumes k: "plain_text k" "CHR ''='' \<notin> set k" "CHR ''['' \<notin> set k" "valid_range r" "plain_text v" "trailer w"
    and n: "numOfNodes c = int n"
  shows "config_line inc (setting_line k r v w) c = apply_key inc k (range_lo r) (range_hi n r) (r \<noteq> AllNodes) v c"
proof -
  have "getline (CHR ''='') (setting_line k r v w) = (k @ range_text r, Some (v @ w))"
    using k getline_Some [of "CHR ''=''" "k @ range_text r" "v @ w"] by (simp add: setting_line_def)
  moreover have "hd (k @ range_text r) \<noteq> CHR ''#''" "k \<noteq> []" "v \<noteq> []" "setting_line k r v w \<noteq> []"
    using k hd_in_set [of k] by (auto simp: plain_text_def hd_append setting_line_def simp del: hd_in_set)
  moreover have "getKeyRange (int n) (k @ range_text r) = (k, range_lo r, range_hi n r, r \<noteq> AllNodes)"
    using k by (intro getKeyRange_text)
  ultimately show ?thesis
    using k(1) trailer_value [OF k(5,6)] n by (simp add: config_line_def)
qed

section \<open>Files and what reading them does\<close>

text \<open>
  The lines of a file: empty, a comment, a directive, or the inclusion of another file with its
  lines, or of one that cannot be opened.  The last argument is what stands behind the value.
\<close>

datatype config_item =
    Blank
  | Comment string
  | Setting directive string
  | Included node_range string string "config_item list"
  | Missing node_range string string

fun item_text :: "config_item \<Rightarrow> string" where
  "item_text Blank = []"
| "item_text (Comment s) = CHR ''#'' # s"
| "item_text (Setting (k, r, v) w) = setting_line k r v w"
| "item_text (Included r f w its) = setting_line ''include'' r f w"
| "item_text (Missing r f w) = setting_line ''include'' r f w"

fun item_ok :: "config_item \<Rightarrow> bool" where
  "item_ok Blank = True"
| "item_ok (Comment s) = (CHR 0x0A \<notin> set s)"
| "item_ok (Setting d w) = (valid_directive d \<and> trailer w)"
| "item_ok (Included r f w its) = (valid_range r \<and> plain_text f \<and> trailer w \<and> list_all item_ok its)"
| "item_ok (Missing r f w) = (valid_range r \<and> plain_text f \<and> trailer w)"

text \<open>The text of a file, with or without a new line at its end.\<close>

definition has_lines :: "string \<Rightarrow> string list \<Rightarrow> bool" where
  "has_lines s ls \<longleftrightarrow> s = concat (map (\<lambda>l. l @ [CHR 0x0A]) ls) \<or> ls \<noteq> [] \<and> last ls \<noteq> [] \<and> s = join (CHR 0x0A) ls"

fun stored :: "(string \<Rightarrow> string option) \<Rightarrow> config_item \<Rightarrow> bool" where
  "stored fs (Included r f w its) = ((case fs f of None \<Rightarrow> False | Some s \<Rightarrow> has_lines s (map item_text its)) \<and> list_all (stored fs) its)"
| "stored fs (Missing r f w) = (fs f = None)"
| "stored fs i = True"

fun item_depth :: "config_item \<Rightarrow> nat" where
  "item_depth (Included r f w its) = Suc (fold max (map item_depth its) 0)"
| "item_depth (Missing r f w) = 1"
| "item_depth i = 0"

text \<open>
  What the items mean for \<open>n\<close> nodes: the directives in the order they are read, \<open>None\<close> where the
  reading fails; an included file stands for its lines, and its range only has to exist.
\<close>

fun item_steps :: "nat \<Rightarrow> config_item \<Rightarrow> directive option list" where
  "item_steps n Blank = []"
| "item_steps n (Comment s) = []"
| "item_steps n (Setting d w) = [if refused n d then None else Some d]"
| "item_steps n (Included r f w its) = (if in_config n r then concat (map (item_steps n) its) else [None])"
| "item_steps n (Missing r f w) = [None]"

fun apply_steps :: "directive option list \<Rightarrow> config \<Rightarrow> int \<times> config" where
  "apply_steps [] c = (SUCCESS, c)"
| "apply_steps (None # ds) c = (FAILURE, c)"
| "apply_steps (Some d # ds) c = apply_steps ds (apply_directive d c)"

lemma apply_steps_append:
  "apply_steps (xs @ ys) c = (case apply_steps xs c of (r, c') \<Rightarrow> if r = FAILURE then (FAILURE, c') else apply_steps ys c')"
  by (induction xs c rule: apply_steps.induct) (auto simp: SUCCESS_def FAILURE_def)

lemma apply_steps_keeps:
  "apply_steps ds c = (r, c') \<Longrightarrow> config_ok c' = config_ok c \<and> numOfNodes c' = numOfNodes c"
  by (induction ds c rule: apply_steps.induct) auto

lemma apply_steps_eq:
  "apply_steps ds c = (if None \<in> set ds then FAILURE else SUCCESS,
     fold apply_directive (map the (takeWhile (\<lambda>d. d \<noteq> None) ds)) c)"
  by (induction ds c rule: apply_steps.induct) auto

lemma split_lines:
  assumes "has_lines s ls" "\<forall>l \<in> set ls. CHR 0x0A \<notin> set l"
  shows "split_tokens (CHR 0x0A) s = ls"
proof -
  have "\<forall>l \<in> set ls. d \<notin> set l \<Longrightarrow> split_tokens d (concat (map (\<lambda>l. l @ [d]) ls)) = ls" for d
    by (induction ls) (simp_all add: split_tokens_more)
  moreover have "\<forall>l \<in> set ls. d \<notin> set l \<Longrightarrow> ls \<noteq> [] \<Longrightarrow> last ls \<noteq> [] \<Longrightarrow> split_tokens d (join d ls) = ls" for d
    by (induction d ls rule: join.induct) (auto simp: split_tokens_last split_tokens_more)
  ultimately show ?thesis using assms unfolding has_lines_def by metis
qed

lemma line_text:
  assumes "plain_text k" "plain_text v" "trailer w"
  shows "CHR 0x0A \<notin> set (setting_line k r v w)"
  using assms by (auto simp: setting_line_def plain_text_def trailer_def)

lemma plain_include: "plain_text ''include''" "CHR ''='' \<notin> set ''include''" "CHR ''['' \<notin> set ''include''"
  by (simp_all add: plain_text_def isspace_def)

lemma item_line: "item_ok i \<Longrightarrow> CHR 0x0A \<notin> set (item_text i)"
  by (cases i rule: item_text.cases) (auto simp: line_text plain_include)

lemma config_line_skipped: "config_line inc [] c = Ret (None, c)" "config_line inc (CHR ''#'' # s) c = Ret (None, c)"
  by (auto simp: config_line_def getline_def split: list.splits)

lemma config_line_item:
  assumes ok: "config_ok c" "numOfNodes c = int n" "0 < n" and i: "item_ok i"
    and inc: "\<And>r f w its. i = Included r f w its \<Longrightarrow> inc f c = Ret (apply_steps (concat (map (item_steps n) its)) c)"
    and miss: "\<And>r f w. i = Missing r f w \<Longrightarrow> inc f c = Ret (FAILURE, c)"
  shows "config_line inc (item_text i) c
    = (case apply_steps (item_steps n i) c of (r, c') \<Rightarrow> Ret (if r = FAILURE then Some FAILURE else None, c'))"
proof -
  have ne: "SUCCESS \<noteq> FAILURE" by (simp add: SUCCESS_def FAILURE_def)
  have incl: "config_line inc (setting_line ''include'' r f w) c = (if in_config n r
      then bindo (inc f c) (\<lambda>(r, c'). if r = FAILURE then Ret (Some FAILURE, c') else Ret (None, c')) else Ret (Some FAILURE, c))"
    if "valid_range r" "plain_text f" "trailer w" for r f w
    using config_line_setting [OF plain_include that ok(2), of inc] ok range_bounds [of n r] range_outside [of n r]
    by (cases "in_config n r") (simp_all add: apply_key_def)
  show ?thesis
  proof (cases i rule: item_text.cases)
    case 1
    then show ?thesis using ne by (simp add: config_line_skipped)
  next
    case (2 s)
    then show ?thesis using ne by (simp add: config_line_skipped)
  next
    case (3 k r v w)
    then have d: "valid_directive (k, r, v)" "trailer w" using i by simp_all
    then have "config_line inc (setting_line k r v w) c = apply_key inc k (range_lo r) (range_hi n r) (r \<noteq> AllNodes) v c"
      using ok(2) by (intro config_line_setting) simp_all
    also note apply_key_directive [OF ok d(1)]
    finally show ?thesis using ne by (simp add: 3 del: refused.simps)
  next
    case (4 r f w its)
    then show ?thesis using incl [of r f w] i inc [OF 4] by (cases "in_config n r") (auto split: prod.splits)
  next
    case (5 r f w)
    then show ?thesis using incl [of r f w] i miss [OF 5] by simp
  qed
qed

lemma fold_max_le: "fold max xs (m :: nat) \<le> j \<longleftrightarrow> m \<le> j \<and> (\<forall>x \<in> set xs. x \<le> j)"
  by (induction xs arbitrary: m) auto

lemma lines_refine:
  "\<lbrakk>config_ok c; numOfNodes c = int n; 0 < n; \<forall>i \<in> set its. item_ok i \<and> stored fs i \<and> item_depth i \<le> m\<rbrakk> \<Longrightarrow>
   config_lines (setConfigurationFromFile m fs) (map item_text its) c = Ret (apply_steps (concat (map (item_steps n) its)) c)"
proof (induction m arbitrary: its c rule: less_induct)
  case (less m)
  from less.prems show ?case
  proof (induction its arbitrary: c)
    case (Cons i its)
    have i: "item_ok i" "stored fs i" "item_depth i \<le> m" using Cons.prems(4) by simp_all
    have inc: "setConfigurationFromFile m fs f c = Ret (apply_steps (concat (map (item_steps n) js)) c)"
      if "i = Included r f w js" for r f w js
    proof -
      note eq = that
      obtain j where j: "m = Suc j" using i(3) eq by (cases m) auto
      obtain s where s: "fs f = Some s" "has_lines s (map item_text js)" using i(2) eq by (auto split: option.splits)
      have js: "\<forall>x \<in> set js. item_ok x \<and> stored fs x \<and> item_depth x \<le> j"
        using i eq by (auto simp: j list_all_iff fold_max_le)
      then have "split_tokens (CHR 0x0A) s = map item_text js" using item_line by (intro split_lines [OF s(2)]) auto
      then show ?thesis using less.IH [of j c js] Cons.prems(1-3) js s(1) by (simp add: j)
    qed
    have miss: "setConfigurationFromFile m fs f c = Ret (FAILURE, c)" if "i = Missing r f w" for r f w
      using i that by (cases m) auto
    note line = config_line_item [OF Cons.prems(1-3) i(1), of "setConfigurationFromFile m fs", OF inc miss]
    obtain r c1 where r: "apply_steps (item_steps n i) c = (r, c1)" by fastforce
    note k = apply_steps_keeps [OF r]
    show ?case
    proof (cases "r = FAILURE")
      case True
      then show ?thesis using line r by (simp add: apply_steps_append)
    next
      case False
      have "\<forall>i \<in> set its. item_ok i \<and> stored fs i \<and> item_depth i \<le> m" using Cons.prems(4) by simp
      with Cons.IH [of c1] k Cons.prems(1-3) have "config_lines (setConfigurationFromFile m fs) (map item_text its) c1
          = Ret (apply_steps (concat (map (item_steps n) its)) c1)" by simp
      then show ?thesis using line r False by (simp add: apply_steps_append)
    qed
  qed simp
qed

definition nodes_line :: "nat \<Rightarrow> string" where
  "nodes_line n = ''numOfNodes='' @ dec_nat n"

definition sized_config :: "nat \<Rightarrow> config \<Rightarrow> config" where
  "sized_config n c = c\<lparr>nodeArray := replicate n new_nodeinfo, numOfNodes := int n,
     keyval := kv_put ''numOfNodes'' (dec_nat n) (keyval c)\<rparr>"

lemma plain_dec_nat [simp]: "plain_text (dec_nat n)"
  using isdigit_dec_nat [of "hd (dec_nat n)" n] isdigit_dec_nat [of "last (dec_nat n)" n]
  by (simp add: plain_text_def)

lemma config_line_nodes:
  assumes "n < 2 ^ 31" "trailer w"
  shows "config_line inc (nodes_line n @ w) c = Ret (None, sized_config n c)"
proof -
  have "getline (CHR ''='') (''numOfNodes'' @ CHR ''='' # dec_nat n @ w) = (''numOfNodes'', Some (dec_nat n @ w))"
    by (rule getline_Some) simp
  then have "getline (CHR ''='') (nodes_line n @ w) = (''numOfNodes'', Some (dec_nat n @ w))"
    by (simp add: nodes_line_def)
  moreover have "trim ''numOfNodes'' = ''numOfNodes''" by (rule trim_fixed) (simp add: isspace_def)
  moreover have "getKeyRange m ''numOfNodes'' = (''numOfNodes'', 0, m - 1, False)" for m
    by (simp add: getKeyRange_def)
  moreover have "nodes_line n \<noteq> []" by (simp add: nodes_line_def)
  moreover have "dec_nat n \<noteq> []" using plain_dec_nat [of n] by (simp add: plain_text_def)
  ultimately show ?thesis
    using assms trailer_value [OF plain_dec_nat assms(2), of n] by (simp add: config_line_def Let_def apply_key_def stoi_dec_nat
        setNumberOfNodes_def clearNodeArray_def cfg_set_def sized_config_def)
qed

text \<open>A whole file: comments and empty lines, the number of nodes, the items.\<close>

definition head_line :: "config_item \<Rightarrow> bool" where
  "head_line i \<longleftrightarrow> (case i of Blank \<Rightarrow> True | Comment s \<Rightarrow> True | _ \<Rightarrow> False)"

definition config_file :: "config_item list \<Rightarrow> nat \<Rightarrow> string \<Rightarrow> config_item list \<Rightarrow> string \<Rightarrow> bool" where
  "config_file hs n w its s \<longleftrightarrow> list_all head_line hs \<and> list_all item_ok hs \<and> trailer w \<and> list_all item_ok its \<and>
     has_lines s (map item_text hs @ (nodes_line n @ w) # map item_text its)"

lemma config_lines_head:
  "list_all head_line hs \<Longrightarrow> config_lines inc (map item_text hs @ ls) c = config_lines inc ls c"
proof (induction hs)
  case (Cons i hs)
  have "config_line inc (item_text i) c = Ret (None, c)"
    using Cons.prems by (cases i) (simp_all add: head_line_def config_line_skipped)
  with Cons show ?case by simp
qed simp

lemma load_config_file:
  assumes "0 < n" "n < 2 ^ 31" "fs f = Some s" "config_file hs n w its s" "list_all (stored fs) its" "\<forall>i \<in> set its. item_depth i \<le> m"
  shows "setConfigurationFromFile (Suc m) fs f c
         = Ret (apply_steps (concat (map (item_steps n) its)) (sized_config n c))"
proof -
  have w: "trailer w" and ls: "has_lines s (map item_text hs @ (nodes_line n @ w) # map item_text its)"
    and hs: "list_all head_line hs" and i: "\<forall>i \<in> set hs \<union> set its. item_ok i"
    using assms(4) by (auto simp: config_file_def list_all_iff)
  have "CHR 0x0A \<notin> set (nodes_line n @ w)" using w by (auto simp: nodes_line_def trailer_def)
  then have "split_tokens (CHR 0x0A) s = map item_text hs @ (nodes_line n @ w) # map item_text its"
    using item_line i by (intro split_lines [OF ls]) auto
  moreover have "config_ok (sized_config n c)" "numOfNodes (sized_config n c) = int n"
    by (simp_all add: config_ok_def sized_config_def)
  moreover have "\<forall>i \<in> set its. item_ok i \<and> stored fs i \<and> item_depth i \<le> m" using i assms(5,6) by (auto simp: list_all_iff)
  ultimately show ?thesis
    using assms(1-3) lines_refine [of "sized_config n c" n its fs m] config_line_nodes [OF assms(2) w]
    by (simp add: config_lines_head [OF hs])
qed

section \<open>Reading returns\<close>

text \<open>No line writes a negative index, and the files a file includes.\<close>

definition range_safe :: "string \<Rightarrow> bool" where
  "range_safe line \<longleftrightarrow> (case strchr (CHR ''['') (trim (fst (getline (CHR ''='') line))) of
     None \<Rightarrow> True | Some p \<Rightarrow> 0 \<le> atoi (tl p))"

definition included_by :: "string \<Rightarrow> string option" where
  "included_by line = (case getline (CHR ''='') line of
     (k, Some r) \<Rightarrow> if fst (getline (CHR ''['') (trim k)) = ''include''
                    then Some (trim (fst (getline (CHR ''#'') r))) else None
   | _ \<Rightarrow> None)"

definition file_lines :: "string \<Rightarrow> string list" where
  "file_lines s = split_tokens (CHR 0x0A) s"

definition returns_ok :: "(string \<Rightarrow> config \<Rightarrow> (int \<times> config) outcome) \<Rightarrow> string \<Rightarrow> bool" where
  "returns_ok inc v \<longleftrightarrow> (\<forall>c. config_ok c \<longrightarrow> (\<exists>r c'. inc v c = Ret (r, c') \<and> config_ok c' \<and> (r = SUCCESS \<or> r = FAILURE)))"

lemma caught_upd_nodes:
  assumes "config_ok c" "0 \<le> b" "e < numOfNodes c"
  shows "\<exists>c'. caught c (upd_nodes f b e c) = Ret (None, c') \<and> config_ok c'"
  using upd_nodes_range [OF assms, of f] upd_nodes_ok [of f b e c] assms(1) by (simp add: caught_def)

lemma caught_throwing:
  assumes "config_ok c" "0 \<le> b" "e < numOfNodes c"
  shows "\<exists>s c'. caught c (throwing vo f b e c) = Ret (s, c') \<and> config_ok c' \<and> (s = None \<or> s = Some FAILURE)"
  using caught_upd_nodes [OF assms, of "f (the vo)"] assms(1)
  by (auto simp: throwing_def caught_def split: option.splits)

lemma caught_position:
  assumes "config_ok c" "0 \<le> b" "e < numOfNodes c"
  shows "\<exists>s c'. caught c (bindo (setNodePosition v b e c) (\<lambda>(r, c'). Ret c')) = Ret (s, c') \<and> config_ok c' \<and>
    (s = None \<or> s = Some FAILURE)"
proof -
  have "caught c (bindo (bindo r (\<lambda>c'. Ret (SUCCESS, c'))) (\<lambda>(r, c'). Ret c')) = caught c r" for r
    by (cases r) simp_all
  with caught_throwing [OF assms, of "parse_position (split_tokens (CHR '','') v)"
      "\<lambda>(x, y, z). set_position x y z"] assms(1)
  show ?thesis
    by (simp add: setNodePosition_def Let_def) (simp add: caught_def)
qed

lemma apply_key_returns:
  assumes "config_ok c" "0 \<le> b" and inc: "key = ''include'' \<Longrightarrow> returns_ok inc v"
  shows "\<exists>s c'. apply_key inc key b e x v c = Ret (s, c') \<and> config_ok c' \<and> (s = None \<or> s = Some FAILURE)"
proof -
  consider (num) "key = ''numOfNodes''" | (early) "key \<noteq> ''numOfNodes''" "numOfNodes c = 0 \<or> e \<ge> numOfNodes c"
    | (inc) "key = ''include''" "numOfNodes c \<noteq> 0" "e < numOfNodes c"
    | (upd) "key \<noteq> ''numOfNodes''" "key \<noteq> ''include''" "numOfNodes c \<noteq> 0" "e < numOfNodes c"
    by fastforce
  then show ?thesis
  proof cases
    case num
    then show ?thesis using assms(1) setNumberOfNodes_ok
      by (fastforce simp: apply_key_def split: option.split prod.split bool.split)
  next
    case early
    then show ?thesis using assms(1) by (auto simp: apply_key_def)
  next
    case inc
    with assms show ?thesis by (fastforce simp: apply_key_def returns_ok_def)
  next
    case upd
    note ranges = caught_upd_nodes [OF assms(1,2) upd(4)] caught_throwing [OF assms(1,2) upd(4)]
      caught_position [OF assms(1,2) upd(4)]
    consider "key = ''nodeExec''" | "key = ''captureFile''" | "key = ''nodePosition''" | "key = ''nodePromiscuous''"
      | (other) "key \<notin> {''nodeExec'', ''captureFile'', ''nodePosition'', ''nodePromiscuous''}" by blast
    then show ?thesis
    proof cases
      case 1
      with upd ranges(1) show ?thesis by (simp add: apply_key_def setNodeSetExec_def) blast
    next
      case 2
      with upd ranges(1) show ?thesis by (simp add: apply_key_def setNodeSetCapFile_def) blast
    next
      case 3
      with upd ranges(3) show ?thesis by (simp add: apply_key_def)
    next
      case 4
      with upd ranges(2) [of "stoi v" setPromisMode] show ?thesis by (simp add: apply_key_def setNodePromis_def)
    next
      case other
      with upd ranges(1) [of "setkv key v"] assms(1) show ?thesis
        by (auto simp: apply_key_def setNodeKV_def)
    qed
  qed
qed

lemma key_of_range: "fst (getKeyRange n s) = fst (getline (CHR ''['') s) \<or> fst (getKeyRange n s) = []"
  by (auto simp: getKeyRange_def Let_def strchr_eq_None_iff split: option.split)

lemma begin_of_range:
  "0 \<le> (case strchr (CHR ''['') s of None \<Rightarrow> 0 | Some p \<Rightarrow> atoi (tl p)) \<Longrightarrow>
   getKeyRange n s = (k, b, e, x) \<Longrightarrow> 0 \<le> b"
  by (auto simp: getKeyRange_def Let_def split: option.splits if_splits)

lemma config_line_returns:
  assumes "config_ok c" "range_safe l" and inc: "\<And>v. included_by l = Some v \<Longrightarrow> returns_ok inc v"
  shows "\<exists>s c'. config_line inc l c = Ret (s, c') \<and> config_ok c' \<and> (s = None \<or> s = Some FAILURE)"
proof -
  obtain k0 rest where g: "getline (CHR ''='') l = (k0, rest)" by fastforce
  obtain k b e x where r: "getKeyRange (numOfNodes c) (trim k0) = (k, b, e, x)" by (metis prod_cases4)
  have "0 \<le> b"
    using assms(2) g by (intro begin_of_range [OF _ r]) (auto simp: range_safe_def split: option.splits)
  show ?thesis
  proof (cases rest)
    case None
    then show ?thesis using assms(1) g by (auto simp: config_line_def)
  next
    case (Some q)
    have "k = ''include'' \<Longrightarrow> returns_ok inc (trim (fst (getline (CHR ''#'') q)))"
      using key_of_range [of "numOfNodes c" "trim k0"] r g Some by (intro inc) (auto simp: included_by_def)
    with apply_key_returns [OF assms(1) \<open>0 \<le> b\<close>, of k inc "trim (fst (getline (CHR ''#'') q))" e x]
    have "\<exists>s c'. apply_key inc k b e x (trim (fst (getline (CHR ''#'') q))) c = Ret (s, c') \<and>
        config_ok c' \<and> (s = None \<or> s = Some FAILURE)" by blast
    with assms(1) show ?thesis
      unfolding config_line_def g Some prod.case option.case Let_def r by auto
  qed
qed

lemma config_lines_returns:
  "\<lbrakk>config_ok c; \<forall>l \<in> set ls. range_safe l \<and> (\<forall>v. included_by l = Some v \<longrightarrow> returns_ok inc v)\<rbrakk> \<Longrightarrow>
   \<exists>r c'. config_lines inc ls c = Ret (r, c') \<and> config_ok c' \<and> (r = SUCCESS \<or> r = FAILURE)"
proof (induction ls arbitrary: c)
  case (Cons l ls)
  then obtain s c1 where "config_line inc l c = Ret (s, c1)" "config_ok c1" "s = None \<or> s = Some FAILURE"
    using config_line_returns [of c l inc] by auto
  with Cons show ?case by auto
qed simp

definition safe_files :: "(string \<Rightarrow> string option) \<Rightarrow> (string \<Rightarrow> nat) \<Rightarrow> bool" where
  \<comment> \<open>\<open>rank\<close> decreases along \<open>include\<close>\<close>
  "safe_files fs rank \<longleftrightarrow> (\<forall>f s. fs f = Some s \<longrightarrow> (\<forall>l \<in> set (file_lines s).
     range_safe l \<and> (\<forall>v. included_by l = Some v \<longrightarrow> rank v < rank f)))"

lemma load_returns_ok:
  "safe_files fs rank \<Longrightarrow> rank f < n \<Longrightarrow> returns_ok (setConfigurationFromFile n fs) f"
proof (induction n arbitrary: f)
  case (Suc n)
  show ?case
  proof (cases "fs f")
    case None
    then show ?thesis by (simp add: returns_ok_def)
  next
    case (Some s)
    have "\<forall>l \<in> set (file_lines s). range_safe l \<and>
        (\<forall>v. included_by l = Some v \<longrightarrow> returns_ok (setConfigurationFromFile n fs) v)"
    proof (intro ballI conjI allI impI)
      fix l assume "l \<in> set (file_lines s)"
      with Suc.prems(1) Some have l: "range_safe l" "\<And>v. included_by l = Some v \<Longrightarrow> rank v < rank f"
        unfolding safe_files_def by blast+
      then show "range_safe l" by simp
      fix v assume "included_by l = Some v"
      with l(2) Suc.prems(2) have "rank v < n" by fastforce
      with Suc show "returns_ok (setConfigurationFromFile n fs) v" by blast
    qed
    then have "\<exists>r c'. config_lines (setConfigurationFromFile n fs) (file_lines s) c = Ret (r, c') \<and>
        config_ok c' \<and> (r = SUCCESS \<or> r = FAILURE)" if "config_ok c" for c
      by (rule config_lines_returns [OF that])
    with Some show ?thesis by (simp add: returns_ok_def file_lines_def)
  qed
qed simp

section \<open>The properties\<close>

text \<open>
  C4: Reading a configuration file has the effect of its directives: after \<open>numOfNodes\<close>, for any
  sequence of empty lines, comments, \<open>key<range>=value\<close> lines (programs, capture files, positions,
  promiscuous modes, keys of nodes and of the network) and inclusions of such files, each node gets
  the values of exactly the directives whose range covers it, those of included files in place, in
  the order of the files (the last one wins), the global map the directives written without a range,
  and nothing else.  The reading fails at the first line for a node that does not exist, with a bad
  number for a node that does, or naming a file that cannot be opened, and what was read before
  stays.  Not covered: a second \<open>numOfNodes\<close>, a range whose end is not behind its beginning.
\<close>

theorem load_refines_directives:
  assumes "0 < n" "n < 2 ^ 31" "fs f = Some s" "config_file hs n w its s" "list_all (stored fs) its" "\<forall>i \<in> set its. item_depth i \<le> m"
    and "steps = concat (map (item_steps n) its)" "ds = map the (takeWhile (\<lambda>d. d \<noteq> None) steps)"
  shows "\<exists>c'. setConfigurationFromFile (Suc m) fs f c = Ret (if None \<in> set steps then FAILURE else SUCCESS, c') \<and>
    numOfNodes c' = int n \<and>
    (\<forall>nid. get_node_info c' nid =
       (if unat nid < n then Some (fold (node_effect (unat nid)) ds new_nodeinfo) else None)) \<and>
    keyval c' = fold global_effect ds ((keyval c)(''numofnodes'' := Some (dec_nat n)))"
proof (intro exI conjI allI impI)
  let ?c = "fold apply_directive ds (sized_config n c)"
  show "setConfigurationFromFile (Suc m) fs f c = Ret (if None \<in> set steps then FAILURE else SUCCESS, ?c)"
    using load_config_file [OF assms(1-6), of c] by (simp add: apply_steps_eq assms(7,8))
  have "lower ''numOfNodes'' = ''numofnodes''" by code_simp
  then show "keyval ?c = fold global_effect ds ((keyval c)(''numofnodes'' := Some (dec_nat n)))"
    by (simp add: fold_directives sized_config_def kv_put_def del: lower_simps)
  fix nid :: u16
  have "uint nid < int n \<longleftrightarrow> unat nid < n" by (metis uint_nat of_nat_less_iff)
  then show "get_node_info ?c nid =
      (if unat nid < n then Some (fold (node_effect (unat nid)) ds new_nodeinfo) else None)"
    by (simp add: get_node_info_def IN_RANGE_def fold_directives sized_config_def)
qed (simp_all add: fold_directives sized_config_def)

text \<open>The example: a file for three nodes that includes another one, with a bad position at its end.\<close>

definition demo_items :: "config_item list" where
  "demo_items =
     [Setting (''nodeExec'', AllNodes, ''app $NODEID'') [], Setting (''nodeExec'', Span 1 9, ''root'') '' # the roots'',
      Blank, Included AllNodes ''b'' [] [Setting (''nodePosition'', One 2, ''1,2,3'') [], Setting (''nodePromiscuous'', AllNodes, ''1'') []],
      Setting (''speed'', AllNodes, ''x'') [], Setting (''nodePosition'', One 0, ''1,2,y'') [], Setting (''speed'', AllNodes, ''z'') []]"

definition demo_store :: "string \<Rightarrow> string option" where
  "demo_store f =
     (if f = ''a'' then Some (concat (map (\<lambda>l. l @ [CHR 0x0A]) (nodes_line 3 # map item_text demo_items)))
      else if f = ''b'' then Some (''nodePosition[2]=1,2,3'' @ [CHR 0x0A] @ ''nodePromiscuous=1'') else None)"

lemma load_refines_directives_witness:
  "\<exists>c'. setConfigurationFromFile 2 demo_store ''a'' new_config = Ret (FAILURE, c') \<and> numOfNodes c' = 3 \<and>
     keyval c' ''speed'' = Some ''x'' \<and>
     map_option nodeExec (get_node_info c' 2) = Some ''root'' \<and> map_option position (get_node_info c' 2) = Some (1, 2, 3) \<and>
     map_option nodeExec (get_node_info c' 0) = Some ''app $NODEID'' \<and> map_option promis_mode (get_node_info c' 0) = Some 1 \<and>
     get_node_info c' 3 = None"
proof -
  have d: "stod ''3'' = Some 3" "stod ''2'' = Some 2" "stod ''1'' = Some 1" "stod ''y'' = None"
    by (simp_all add: stod_def sign_split_def isspace_def isdigit_def Let_def frac_val_def exp10_def)
  have "split_tokens (CHR '','') ''1,2,3'' = [''1'', ''2'', ''3'']" "split_tokens (CHR '','') ''1,2,y'' = [''1'', ''2'', ''y'']"
    by code_simp+
  then have v: "numbers ''1,2,3'' = [Some 1, Some 2, Some 3]" "numbers ''1,2,y'' = [Some 1, Some 2, None]"
    using d by (simp_all add: numbers_def)
  have p: "stoi ''1'' = Some 1" by code_simp
  have s: "concat (map (item_steps 3) demo_items) = [Some (''nodeExec'', AllNodes, ''app $NODEID''), Some (''nodeExec'', Span 1 9, ''root''),
      Some (''nodePosition'', One 2, ''1,2,3''), Some (''nodePromiscuous'', AllNodes, ''1''), Some (''speed'', AllNodes, ''x''),
      None, Some (''speed'', AllNodes, ''z'')]"
    using v p by (simp add: demo_items_def upt_rec)
  have t: "trailer []" "trailer '' # the roots''" by (simp_all add: trailer_def isspace_def)
  have i: "list_all item_ok demo_items"
    using t by (simp add: demo_items_def plain_text_def isspace_def)
  have f: "demo_store ''a'' = Some (concat (map (\<lambda>l. l @ [CHR 0x0A]) (nodes_line 3 # map item_text demo_items)))"
    by (simp add: demo_store_def)
  have c: "config_file [] 3 [] demo_items (concat (map (\<lambda>l. l @ [CHR 0x0A]) (nodes_line 3 # map item_text demo_items)))"
    unfolding config_file_def has_lines_def using i t by simp
  have "setting_line ''nodePosition'' (One 2) ''1,2,3'' [] = ''nodePosition[2]=1,2,3''"
    "setting_line ''nodePromiscuous'' AllNodes ''1'' [] = ''nodePromiscuous=1''" by code_simp+
  then have st: "list_all (stored demo_store) demo_items"
    by (simp add: demo_items_def demo_store_def has_lines_def)
  have dp: "\<forall>i \<in> set demo_items. item_depth i \<le> 1" by (simp add: demo_items_def)
  let ?ds = "[(''nodeExec'', AllNodes, ''app $NODEID''), (''nodeExec'', Span 1 9, ''root''), (''nodePosition'', One 2, ''1,2,3''),
      (''nodePromiscuous'', AllNodes, ''1''), (''speed'', AllNodes, ''x'')]"
  have ds: "?ds = map the (takeWhile (\<lambda>d. d \<noteq> None) (concat (map (item_steps 3) demo_items)))" unfolding s by simp
  have no: "None \<in> set (concat (map (item_steps 3) demo_items))" unfolding s by simp
  have n: "0 < (3 :: nat)" "(3 :: nat) < 2 ^ 31" by simp_all
  obtain c' where c': "setConfigurationFromFile (Suc 1) demo_store ''a'' new_config = Ret (FAILURE, c')" "numOfNodes c' = int 3"
    "\<And>nid. get_node_info c' nid = (if unat nid < 3 then Some (fold (node_effect (unat nid)) ?ds new_nodeinfo) else None)"
    "keyval c' = fold global_effect ?ds ((keyval new_config)(''numofnodes'' := Some (dec_nat 3)))"
    using load_refines_directives [OF n f c st dp refl ds, of new_config] unfolding if_P [OF no] by blast
  have "lower ''speed'' = ''speed''" by code_simp
  then have "keyval c' ''speed'' = Some ''x''" unfolding c'(4) by (simp add: node_key_def del: lower_simps)
  moreover have "get_node_info c' 3 = None" "get_node_info c' 2 = Some (fold (node_effect 2) ?ds new_nodeinfo)"
    "get_node_info c' 0 = Some (fold (node_effect 0) ?ds new_nodeinfo)" unfolding c'(3) by simp_all
  ultimately show ?thesis using c'(1,2) v p by (simp add: numeral_2_eq_2)
qed

text \<open>
  C26: Reading returns: if no line writes a negative index and the files do not include each
  other in a cycle, reading a file ends with success or failure and leaves an array of exactly
  \<open>numOfNodes\<close> nodes, whatever the lines contain (bad numbers, bad ranges, missing files).
\<close>

theorem load_returns:
  assumes "config_ok c" "safe_files fs rank" "rank f < n"
  shows "\<exists>r c'. setConfigurationFromFile n fs f c = Ret (r, c') \<and> (r = SUCCESS \<or> r = FAILURE) \<and>
    length (nodeArray c') = nat (numOfNodes c') \<and>
    (\<forall>nid. get_node_info c' nid \<noteq> None \<longleftrightarrow> uint nid < numOfNodes c')"
proof -
  obtain r c' where "setConfigurationFromFile n fs f c = Ret (r, c')" "config_ok c'"
    "r = SUCCESS \<or> r = FAILURE"
    using load_returns_ok [OF assms(2,3)] assms(1) by (auto simp: returns_ok_def)
  then show ?thesis
    using uint_u16_range(1) by (auto simp: config_ok_def get_node_info_def IN_RANGE_def)
qed

definition demo_files :: "string \<Rightarrow> string option" where
  "demo_files f =
     (if f = ''a'' then Some (''numOfNodes=2'' @ [CHR 0x0A] @ ''include=b'')
      else if f = ''b'' then Some ''nodeExec[1]=x'' else None)"

lemma demo_files_safe: "safe_files demo_files (\<lambda>f. if f = ''a'' then 1 else 0)"
proof -
  have "file_lines (''numOfNodes=2'' @ [CHR 0x0A] @ ''include=b'') = [''numOfNodes=2'', ''include=b'']"
    "file_lines ''nodeExec[1]=x'' = [''nodeExec[1]=x'']"
    by code_simp+
  moreover have "range_safe ''numOfNodes=2''" "range_safe ''include=b''" "range_safe ''nodeExec[1]=x''"
    "included_by ''numOfNodes=2'' = None" "included_by ''include=b'' = Some ''b''"
    "included_by ''nodeExec[1]=x'' = None"
    by code_simp+
  ultimately show ?thesis
    unfolding safe_files_def demo_files_def by auto
qed

lemma load_returns_witness:
  "\<exists>r c'. setConfigurationFromFile 2 demo_files ''a'' new_config = Ret (r, c') \<and> (r = SUCCESS \<or> r = FAILURE) \<and>
    length (nodeArray c') = nat (numOfNodes c') \<and>
    (\<forall>nid. get_node_info c' nid \<noteq> None \<longleftrightarrow> uint nid < numOfNodes c')"
  by (rule load_returns [OF _ demo_files_safe]) (simp_all add: config_ok_def new_config_def)

text \<open>
  A negative index is not checked: a line \<open>nodeExec[-k]=value\<close> writes before the node array,
  for every non-empty configuration and every \<open>k\<close> up to any size.
\<close>

theorem negative_index_out_of_bounds:
  assumes "config_ok c" "0 < numOfNodes c" "0 < k" "plain_text v"
  shows "config_line inc (''nodeExec[-'' @ dec_nat k @ '']='' @ v) c = Fault Out_Of_Bounds"
proof -
  have "getline (CHR ''='') ((''nodeExec[-'' @ dec_nat k @ '']'') @ CHR ''='' # v)
      = (''nodeExec[-'' @ dec_nat k @ '']'', Some v)"
    by (rule getline_Some) simp
  then have g: "getline (CHR ''='') (''nodeExec[-'' @ dec_nat k @ '']='' @ v)
      = (''nodeExec[-'' @ dec_nat k @ '']'', Some v)" by simp
  have tr: "trim (''nodeExec[-'' @ dec_nat k @ '']'') = ''nodeExec[-'' @ dec_nat k @ '']''"
    by (rule trim_fixed) (simp add: isspace_def)
  have sc: "strchr (CHR ''['') (''nodeExec'' @ CHR ''['' # ''-'' @ dec_nat k @ '']'')
      = Some (CHR ''['' # ''-'' @ dec_nat k @ '']'')" by (rule strchr_Some) simp
  have sd: "strchr (CHR ''-'') ([] @ CHR ''-'' # dec_nat k @ '']'') = Some (CHR ''-'' # dec_nat k @ '']'')"
    by (rule strchr_Some) simp
  have gk: "getline (CHR ''['') (''nodeExec'' @ CHR ''['' # ''-'' @ dec_nat k @ '']'')
      = (''nodeExec'', Some (''-'' @ dec_nat k @ '']''))" by (rule getline_Some) simp
  have at: "atoi (CHR ''-'' # dec_nat k @ '']'') = - int k"
    using digits_val_dec_nat [of "'']''" k] by (simp add: atoi_def sign_split_def isspace_def)
  have rg: "getKeyRange (numOfNodes c) (''nodeExec[-'' @ dec_nat k @ '']'')
      = (''nodeExec'', - int k, min (int k) (numOfNodes c - 1), True)"
    using sc sd gk at assms(2,3) by (simp add: getKeyRange_def Let_def min_def)
  have "for_nodes f (- int k) e ns = Fault Out_Of_Bounds" if "- int k \<le> e" for f e ns
    using that assms(3) by (subst for_nodes.simps) simp
  moreover have "- int k \<le> min (int k) (numOfNodes c - 1)" "v \<noteq> []" "CHR ''#'' \<notin> set v"
    using assms(2-4) by (auto simp: plain_text_def)
  ultimately show ?thesis
    using assms unfolding config_line_def g prod.case option.case Let_def tr rg
    by (simp add: apply_key_def setNodeSetExec_def upd_nodes_def caught_def min_def)
qed

lemma negative_index_out_of_bounds_witness:
  "config_line (\<lambda>_ _. Blocked) (''nodeExec[-'' @ dec_nat 1 @ '']='' @ ''x'')
     (sized_config 3 new_config) = Fault Out_Of_Bounds"
  by (rule negative_index_out_of_bounds) (simp_all add: config_ok_def sized_config_def plain_text_def isspace_def)

end
