(* ===== verification/Mac_Stats.thy ===== *)
theory Mac_Stats
  imports Node_Config Commline_API
begin

text \<open>
  \<open>airline/mac_stats.cc\<close>: the counters of each node, their update on every packet, and the
  summary text of \<open>cmd_mac_stats\<close>; and \<open>SendAckToStackline\<close>, \<open>SendPacketToStackline\<close> of
  \<open>airline/common.cc\<close>, which count and forward.
\<close>

section \<open>State\<close>

text \<open>The flag \<open>is_inited\<close> is shared by all nodes; \<open>g_tv\<close> is the time of the last \<open>clear\<close>.\<close>

record macstats =
  cfg :: config
  is_inited :: bool
  g_tv :: int

definition AL_RX :: int where "AL_RX = 1"
definition AL_TX :: int where "AL_TX = 2"

datatype wf_status = WF_STATUS_ACK_OK | WF_STATUS_NO_ACK | WF_STATUS_ERR | WF_STATUS_FATAL

fun status_code :: "wf_status \<Rightarrow> u8" where
  "status_code WF_STATUS_ACK_OK = 0"
| "status_code WF_STATUS_NO_ACK = 1"
| "status_code WF_STATUS_ERR = 2"
| "status_code WF_STATUS_FATAL = 3"

definition has_flag :: "u8 \<Rightarrow> msg_buf \<Rightarrow> bool" where
  "has_flag fl m \<longleftrightarrow> flags m AND fl \<noteq> 0"

section \<open>One packet\<close>

definition set_tx_stats :: "msg_buf \<Rightarrow> stats_t \<Rightarrow> stats_t" where
  "set_tx_stats m st =
     (if has_flag MBUF_IS_CMD m then st
      else if dst_id m = 0xffff then st\<lparr>tx_mc_pkts := tx_mc_pkts st + 1\<rparr>
      else st\<lparr>tx_pkts := tx_pkts st + 1\<rparr>)"

definition set_rx_stats :: "msg_buf \<Rightarrow> stats_t \<Rightarrow> stats_t" where
  "set_rx_stats m st =
     (if has_flag MBUF_IS_CMD m then st
      else if has_flag MBUF_IS_ACK m then
        (if ack_status m = status_code WF_STATUS_ACK_OK then
           (if IN_RANGE (uint (ack_retries m)) 1 (int MAX_MAC_TX_RETRY_CNT)
            then st\<lparr>rx_ack_ok := (rx_ack_ok st)[unat (ack_retries m) := rx_ack_ok st ! unat (ack_retries m) + 1]\<rparr>
            else st)
         else st\<lparr>tx_fail := tx_fail st + 1\<rparr>)
      else if dst_id m \<noteq> 0 then st\<lparr>rx_mc_pkts := rx_mc_pkts st + 1\<rparr>
      else st\<lparr>rx_pkts := rx_pkts st + 1\<rparr>)"

definition add_stats :: "stats_t \<Rightarrow> stats_t \<Rightarrow> stats_t" where
  "add_stats s b =
     s\<lparr>tx_pkts := tx_pkts s + tx_pkts b, rx_pkts := rx_pkts s + rx_pkts b,
       tx_fail := tx_fail s + tx_fail b, tx_mc_pkts := tx_mc_pkts s + tx_mc_pkts b,
       rx_mc_pkts := rx_mc_pkts s + rx_mc_pkts b,
       rx_ack_ok := List.map (\<lambda>i. rx_ack_ok s ! i + rx_ack_ok b ! i) [0..<MAX_MAC_TX_RETRY_CNT]\<rparr>"

section \<open>All nodes\<close>

text \<open>
  The loops \<open>for (uint16_t i = 0;; i++)\<close> stop at the first id without a node; the counter is
  16 bits wide, so they stop only when there are fewer than 65536 nodes (\<open>None\<close>: for ever).
\<close>

definition node_ids :: "config \<Rightarrow> nat list option" where
  "node_ids c = (if numOfNodes c < 65536 then Some [0..<nat (numOfNodes c)] else None)"

definition reset :: "nodeinfo \<Rightarrow> nodeinfo" where
  "reset ni = ni\<lparr>stats := zero_stats\<rparr>"

definition clear :: "int \<Rightarrow> macstats \<Rightarrow> macstats outcome" where
  "clear now s = (case node_ids (cfg s) of
     None \<Rightarrow> Blocked
   | Some is \<Rightarrow> Ret (s\<lparr>g_tv := now,
       cfg := (cfg s)\<lparr>nodeArray := fold (\<lambda>i ns. ns[i := reset (ns ! i)]) is (nodeArray (cfg s))\<rparr>\<rparr>))"

definition upd_stats :: "nat \<Rightarrow> (stats_t \<Rightarrow> stats_t) \<Rightarrow> macstats \<Rightarrow> macstats" where
  "upd_stats i f s = s\<lparr>cfg := (cfg s)\<lparr>nodeArray :=
     (nodeArray (cfg s))[i := (nodeArray (cfg s) ! i)\<lparr>stats := f (stats (nodeArray (cfg s) ! i))\<rparr>]\<rparr>\<rparr>"

definition ms_set :: "int \<Rightarrow> nat \<Rightarrow> int \<Rightarrow> msg_buf \<Rightarrow> macstats \<Rightarrow> macstats outcome" where
  "ms_set now i dir m s =
     bindo (if is_inited s then Ret s else bindo (clear now s) (\<lambda>s1. Ret (s1\<lparr>is_inited := True\<rparr>))) (\<lambda>s1.
       Ret (if dir = AL_TX then upd_stats i (set_tx_stats m) s1
            else if dir = AL_RX then upd_stats i (set_rx_stats m) s1 else s1))"

definition set_stats :: "int \<Rightarrow> int \<Rightarrow> msg_buf \<Rightarrow> macstats \<Rightarrow> macstats outcome" where
  "set_stats now dir m s = (case get_node_info (cfg s) (src_id m) of
     None \<Rightarrow> Ret s
   | Some _ \<Rightarrow> ms_set now (unat (src_id m)) dir m s)"

section \<open>The summary\<close>

text \<open>
  One \<open>n += snprintf(buf + n, buflen - n - 1, ...)\<close>: the text written so far, the value of \<open>n\<close>.
  The size is an \<open>int\<close> passed as \<open>size_t\<close>; a negative one would be a huge bound and an overflow.
\<close>

definition append_text :: "int \<Rightarrow> string \<Rightarrow> string \<times> int \<Rightarrow> (string \<times> int) outcome" where
  "append_text buflen txt s = (case s of (out, n) \<Rightarrow>
     if buflen - n - 1 < 0 then Fault Out_Of_Bounds
     else Ret (take (nat n) out @ snprintf_text (nat (buflen - n - 1)) txt, n + int (length txt)))"

definition ld :: "u64 \<Rightarrow> string" where
  \<comment> \<open>the conversion \<open>%ld\<close>\<close>
  "ld w = dec_int (sint w)"

definition summary_counts :: "stats_t \<Rightarrow> string" where
  "summary_counts st =
     ''MCAST_PKTS: rx='' @ ld (rx_mc_pkts st) @ '',tx='' @ ld (tx_mc_pkts st) @ [CHR 0x0A] @
     ''UCAST_PKTS: rx='' @ ld (rx_pkts st) @ '',tx='' @ ld (tx_pkts st) @
     '',tx_succ='' @ ld (tx_pkts st - tx_fail st) @ '',tx_fail='' @ ld (tx_fail st)"

definition attempt_text :: "stats_t \<Rightarrow> nat \<Rightarrow> string" where
  "attempt_text st i = '',tx_attempt'' @ dec_nat i @ ''='' @ ld (rx_ack_ok st ! i)"

fun attempts :: "int \<Rightarrow> stats_t \<Rightarrow> nat list \<Rightarrow> string \<times> int \<Rightarrow> (string \<times> int) outcome" where
  "attempts buflen st [] s = Ret s"
| "attempts buflen st (i # is) s =
     (if i \<ge> length (rx_ack_ok st) then Fault Out_Of_Bounds
      else bindo (append_text buflen (attempt_text st i) s) (attempts buflen st is))"

definition sum_stats :: "config \<Rightarrow> nat list \<Rightarrow> stats_t" where
  "sum_stats c is = fold (\<lambda>i st. add_stats st (stats (nodeArray c ! i))) is zero_stats"

definition get_summary :: "int \<Rightarrow> u16 \<Rightarrow> int \<Rightarrow> macstats \<Rightarrow> (string \<times> int) outcome" where
  "get_summary now nid buflen s = (case stoi (cfg_get (cfg s) ''macMaxRetry'') of
     None \<Rightarrow> Fault Exception
   | Some mac_retries \<Rightarrow>
       bindo (if nid = CL_MGR_ID then
                (case node_ids (cfg s) of
                   None \<Rightarrow> Blocked
                 | Some is \<Rightarrow>
                     bindo (append_text buflen (''Airline MAC stats: duration='' @ dec_int (now - g_tv s) @ [CHR 0x0A]) ([], 0))
                       (\<lambda>t. Ret (Some (sum_stats (cfg s) is, t))))
              else Ret (map_option (\<lambda>ni. (stats ni, ([], 0))) (get_node_info (cfg s) nid))) (\<lambda>r.
       case r of
         None \<Rightarrow> Ret (snprintf_text (nat buflen) ''INTERNAL_ERROR'', 14)
       | Some (st, t) \<Rightarrow>
           bindo (append_text buflen (summary_counts st) t) (attempts buflen st [1..<Suc (nat mac_retries)])))"

section \<open>Messages to a node\<close>

definition SendAckToStackline ::
  "u32 \<Rightarrow> int \<Rightarrow> u16 \<Rightarrow> u16 \<Rightarrow> wf_status \<Rightarrow> int \<Rightarrow> usock \<Rightarrow> macstats \<Rightarrow> kernel \<Rightarrow> (macstats \<times> kernel) outcome" where
  "SendAckToStackline uid now sid did status retries u s k =
     (let m = DEFINE_MBUF\<lparr>src_id := sid, dst_id := did, info1 := status_code status,
                info0 := (if status = WF_STATUS_ACK_OK then word_of_int retries else 0),
                flags := 0 OR MBUF_IS_ACK, mb_len := 1\<rparr>
      in bindo (set_stats now AL_RX m s) (\<lambda>s1.
         bindo (cl_sendto_q uid (MTYPE STACKLINE sid) (Some m) (of_nat sizeof_msg_buf) u k) (\<lambda>(r, m', k1).
         Ret (s1, k1))))"

definition SendPacketToStackline ::
  "u32 \<Rightarrow> int \<Rightarrow> u16 \<Rightarrow> msg_buf \<Rightarrow> usock \<Rightarrow> macstats \<Rightarrow> kernel \<Rightarrow> (macstats \<times> kernel) outcome" where
  "SendPacketToStackline uid now nid m u s k =
     bindo (set_stats now AL_RX m s) (\<lambda>s1.
     bindo (cl_sendto_q uid (MTYPE STACKLINE nid) (Some m) (of_nat sizeof_msg_buf + mb_len m) u k) (\<lambda>(r, m', k1).
     Ret (s1, k1)))"

section \<open>Counting\<close>

type_synonym stat_event = "int \<times> msg_buf"

fun run_stats :: "int \<Rightarrow> stat_event list \<Rightarrow> macstats \<Rightarrow> macstats outcome" where
  "run_stats now [] s = Ret s"
| "run_stats now ((dir, m) # es) s = bindo (set_stats now dir m s) (run_stats now es)"

text \<open>What each counter is meant to count, as predicates on the events of a node.\<close>

fun data_ev :: "int \<Rightarrow> stat_event \<Rightarrow> bool" where
  "data_ev d (dir, m) = (dir = d \<and> \<not> has_flag MBUF_IS_CMD m)"

fun is_tx_uc :: "stat_event \<Rightarrow> bool" where
  "is_tx_uc (dir, m) = (data_ev AL_TX (dir, m) \<and> dst_id m \<noteq> 0xffff)"

fun is_tx_mc :: "stat_event \<Rightarrow> bool" where
  "is_tx_mc (dir, m) = (data_ev AL_TX (dir, m) \<and> dst_id m = 0xffff)"

fun is_ack_ok :: "nat \<Rightarrow> stat_event \<Rightarrow> bool" where
  "is_ack_ok r (dir, m) = (data_ev AL_RX (dir, m) \<and> has_flag MBUF_IS_ACK m \<and>
     ack_status m = 0 \<and> unat (ack_retries m) = r \<and> 1 \<le> r)"

fun is_fail :: "stat_event \<Rightarrow> bool" where
  "is_fail (dir, m) = (data_ev AL_RX (dir, m) \<and> has_flag MBUF_IS_ACK m \<and> ack_status m \<noteq> 0)"

fun is_rx :: "bool \<Rightarrow> stat_event \<Rightarrow> bool" where
  "is_rx zero (dir, m) = (data_ev AL_RX (dir, m) \<and> \<not> has_flag MBUF_IS_ACK m \<and> (dst_id m = 0) = zero)"

definition count_if :: "(stat_event \<Rightarrow> bool) \<Rightarrow> stat_event list \<Rightarrow> u64" where
  "count_if P es = of_nat (length (filter P es))"

lemma count_if_simps [simp]:
  "count_if P [] = 0" "count_if P (e # es) = (if P e then 1 else 0) + count_if P es"
  by (simp_all add: count_if_def)

definition counted :: "stats_t \<Rightarrow> stat_event list \<Rightarrow> stats_t" where
  "counted st es = \<lparr>tx_pkts = tx_pkts st + count_if is_tx_uc es,
     rx_pkts = rx_pkts st + count_if (is_rx True) es,
     rx_ack_ok = List.map (\<lambda>r. rx_ack_ok st ! r + count_if (is_ack_ok r) es) [0..<length (rx_ack_ok st)],
     tx_fail = tx_fail st + count_if is_fail es,
     tx_mc_pkts = tx_mc_pkts st + count_if is_tx_mc es,
     rx_mc_pkts = rx_mc_pkts st + count_if (is_rx False) es\<rparr>"

fun node_event :: "stat_event \<Rightarrow> stats_t \<Rightarrow> stats_t" where
  "node_event (dir, m) st = (if dir = AL_TX then set_tx_stats m st
     else if dir = AL_RX then set_rx_stats m st else st)"

lemma AL_neq [simp]: "AL_TX \<noteq> AL_RX" "AL_RX \<noteq> AL_TX"
  by (simp_all add: AL_TX_def AL_RX_def)

lemma rx_ack_ok_length: "length (rx_ack_ok (node_event e st)) = length (rx_ack_ok st)"
  by (cases e) (simp add: set_tx_stats_def set_rx_stats_def)

lemma counted_Nil: "counted st [] = st"
  by (simp add: counted_def map_nth)

lemma ack_slot:
  fixes xs :: "u64 list"
  assumes "length xs = 10"
  shows "List.map (\<lambda>r. (xs[unat (a :: u8) := xs ! unat a + 1]) ! r + c r) [0..<10]
       = List.map (\<lambda>r. xs ! r + ((if unat a = r then 1 else 0) + c r)) [0..<(10 :: nat)]"
  using assms by (intro map_cong) (auto simp: nth_list_update)

lemma counted_ack:
  assumes len: "length (rx_ack_ok st) = 10"
    and ack: "\<not> has_flag MBUF_IS_CMD m" "has_flag MBUF_IS_ACK m" "ack_status m = 0"
  shows "counted (set_rx_stats m st) es = counted st ((AL_RX, m) # es)"
proof -
  have slot: "IN_RANGE (uint (ack_retries m)) 1 (int MAX_MAC_TX_RETRY_CNT)
      \<longleftrightarrow> 1 \<le> unat (ack_retries m) \<and> unat (ack_retries m) < 10"
    by (simp add: IN_RANGE_def MAX_MAC_TX_RETRY_CNT_def uint_nat del: of_nat_unat)
  let ?f = "\<lambda>r. rx_ack_ok st ! r + ((if unat (ack_retries m) = r \<and> 1 \<le> r then 1 else 0) + count_if (is_ack_ok r) es)"
  show ?thesis
  proof (cases "1 \<le> unat (ack_retries m) \<and> unat (ack_retries m) < 10")
    case True
    then have "List.map (\<lambda>r. rx_ack_ok st ! r + ((if unat (ack_retries m) = r then 1 else 0) + count_if (is_ack_ok r) es)) [0..<10]
      = List.map ?f [0..<10]"
      by (intro map_cong) auto
    with True ack slot ack_slot [OF len, of "ack_retries m" "\<lambda>r. count_if (is_ack_ok r) es"] len
    show ?thesis by (simp add: counted_def set_rx_stats_def)
  next
    case False
    then have "List.map ?f [0..<10] = List.map (\<lambda>r. rx_ack_ok st ! r + count_if (is_ack_ok r) es) [0..<10]"
      by (intro map_cong) auto
    moreover have "\<not> IN_RANGE (uint (ack_retries m)) 1 (int MAX_MAC_TX_RETRY_CNT)"
      using False slot by blast
    ultimately show ?thesis using ack len by (simp add: counted_def set_rx_stats_def)
  qed
qed

lemma counted_Cons:
  assumes "length (rx_ack_ok st) = MAX_MAC_TX_RETRY_CNT"
  shows "counted (node_event e st) es = counted st (e # es)"
proof -
  obtain dir m where e: "e = (dir, m)" by (cases e)
  have len: "length (rx_ack_ok st) = 10" using assms by (simp add: MAX_MAC_TX_RETRY_CNT_def)
  consider "dir = AL_TX" | "dir = AL_RX" | "dir \<noteq> AL_TX" "dir \<noteq> AL_RX" by blast
  then show ?thesis
  proof cases
    case 1
    then show ?thesis by (simp add: e counted_def set_tx_stats_def add.assoc)
  next
    case 2
    note c = e 2 counted_def set_rx_stats_def len
    show ?thesis
    proof -
      consider (cmd) "has_flag MBUF_IS_CMD m"
        | (data) "\<not> has_flag MBUF_IS_CMD m" "\<not> has_flag MBUF_IS_ACK m"
        | (bad) "\<not> has_flag MBUF_IS_CMD m" "has_flag MBUF_IS_ACK m" "ack_status m \<noteq> 0"
        | (ack) "\<not> has_flag MBUF_IS_CMD m" "has_flag MBUF_IS_ACK m" "ack_status m = 0" by blast
      then show ?thesis
      proof cases
        case cmd
        then show ?thesis by (simp add: c)
      next
        case data
        then show ?thesis by (simp add: c add.assoc)
      next
        case bad
        then show ?thesis by (simp add: c add.assoc)
      next
        case ack
        then show ?thesis using counted_ack [OF len ack] 2 by (simp add: e)
      qed
    qed
  next
    case 3
    then show ?thesis by (simp add: e counted_def)
  qed
qed

lemma fold_node_event:
  "length (rx_ack_ok st) = MAX_MAC_TX_RETRY_CNT \<Longrightarrow> fold node_event es st = counted st es"
  by (induction es arbitrary: st) (simp_all add: counted_Nil counted_Cons rx_ack_ok_length)

section \<open>Every node counts its own packets\<close>

definition ms_ok :: "macstats \<Rightarrow> bool" where
  "ms_ok s \<longleftrightarrow> config_ok (cfg s) \<and> (\<forall>ni \<in> set (nodeArray (cfg s)). length (rx_ack_ok (stats ni)) = MAX_MAC_TX_RETRY_CNT)
     \<and> (\<not> is_inited s \<longrightarrow> numOfNodes (cfg s) < 65536 \<and> (\<forall>ni \<in> set (nodeArray (cfg s)). stats ni = zero_stats))"

definition ev_for :: "nat \<Rightarrow> stat_event list \<Rightarrow> stat_event list" where
  "ev_for i es = filter (\<lambda>(dir, m). unat (src_id m) = i) es"

lemma ev_for_simps [simp]:
  "ev_for i [] = []"
  "ev_for i ((dir, m) # es) = (if unat (src_id m) = i then [(dir, m)] else []) @ ev_for i es"
  by (simp_all add: ev_for_def)

lemma fold_reset:
  "\<forall>i < length ns. stats (ns ! i) = zero_stats \<Longrightarrow> fold (\<lambda>i ns. ns[i := reset (ns ! i)]) is ns = ns"
proof (induction "is" arbitrary: ns)
  case (Cons i "is")
  have "ns[i := reset (ns ! i)] = ns"
  proof (cases "i < length ns")
    case True
    with Cons.prems have "reset (ns ! i) = ns ! i" by (simp add: reset_def)
    then show ?thesis by simp
  qed (simp add: list_update_beyond)
  with Cons show ?case by simp
qed simp

lemma set_stats_eq:
  assumes "ms_ok s"
  shows "\<exists>b t. set_stats now dir m s = Ret (s\<lparr>is_inited := b, g_tv := t,
      cfg := (if unat (src_id m) < length (nodeArray (cfg s))
              then cfg (upd_stats (unat (src_id m)) (node_event (dir, m)) s) else cfg s)\<rparr>) \<and> (is_inited s \<longrightarrow> b \<and> t = g_tv s)
      \<and> (b \<or> \<not> unat (src_id m) < length (nodeArray (cfg s)))"
proof (cases "unat (src_id m) < length (nodeArray (cfg s))")
  case False
  with assms have "get_node_info (cfg s) (src_id m) = None"
    by (simp add: get_node_info_eq ms_ok_def)
  with False show ?thesis
    by (intro exI [of _ "is_inited s"] exI [of _ "g_tv s"]) (simp add: set_stats_def)
next
  case True
  with assms obtain ni where ni: "get_node_info (cfg s) (src_id m) = Some ni"
    by (simp add: get_node_info_eq ms_ok_def)
  define t where "t = (if is_inited s then g_tv s else now)"
  have "bindo (if is_inited s then Ret s else bindo (clear now s) (\<lambda>s1. Ret (s1\<lparr>is_inited := True\<rparr>))) f
      = f (s\<lparr>is_inited := True, g_tv := t\<rparr>)" for f :: "macstats \<Rightarrow> macstats outcome"
  proof -
    have "clear now s = Ret (s\<lparr>g_tv := now\<rparr>)" if "\<not> is_inited s"
      using assms that by (cases s) (simp add: clear_def node_ids_def ms_ok_def fold_reset)
    then show ?thesis by (cases s) (auto simp: t_def)
  qed
  with True ni show ?thesis
    by (intro exI [of _ True] exI [of _ t])
      (simp add: set_stats_def ms_set_def upd_stats_def t_def)
qed

lemma stats_after_upd:
  assumes "i < length ns"
  shows "stats (ns[j := (ns ! j)\<lparr>stats := f (stats (ns ! j))\<rparr>] ! i) = (if i = j then f (stats (ns ! i)) else stats (ns ! i))"
  using assms by (cases "i = j") simp_all

lemma ms_ok_set_stats:
  assumes "ms_ok s" "set_stats now dir m s = Ret s'"
  shows "ms_ok s' \<and> length (nodeArray (cfg s')) = length (nodeArray (cfg s)) \<and>
    (\<forall>i < length (nodeArray (cfg s)). stats (nodeArray (cfg s') ! i)
       = (if unat (src_id m) = i then node_event (dir, m) (stats (nodeArray (cfg s) ! i)) else stats (nodeArray (cfg s) ! i)))"
proof -
  let ?j = "unat (src_id m)"
  obtain b t where s': "s' = s\<lparr>is_inited := b, g_tv := t,
      cfg := (if ?j < length (nodeArray (cfg s)) then cfg (upd_stats ?j (node_event (dir, m)) s) else cfg s)\<rparr>"
    and b: "is_inited s \<longrightarrow> b" "b \<or> \<not> ?j < length (nodeArray (cfg s))"
    using set_stats_eq [OF assms(1), of now dir m] assms(2) by auto
  have st: "\<forall>i < length (nodeArray (cfg s)). stats (nodeArray (cfg s') ! i)
      = (if ?j = i then node_event (dir, m) (stats (nodeArray (cfg s) ! i)) else stats (nodeArray (cfg s) ! i))"
    using stats_after_upd [of _ "nodeArray (cfg s)" ?j "node_event (dir, m)"]
    by (auto simp: s' upd_stats_def)
  have len: "length (nodeArray (cfg s')) = length (nodeArray (cfg s))" "numOfNodes (cfg s') = numOfNodes (cfg s)"
    by (simp_all add: s' upd_stats_def)
  have ack: "\<forall>ni \<in> set (nodeArray (cfg s')). length (rx_ack_ok (stats ni)) = MAX_MAC_TX_RETRY_CNT"
  proof
    fix ni assume "ni \<in> set (nodeArray (cfg s'))"
    then obtain i where i: "i < length (nodeArray (cfg s))" "ni = nodeArray (cfg s') ! i"
      by (metis in_set_conv_nth len(1))
    with assms(1) have "length (rx_ack_ok (stats (nodeArray (cfg s) ! i))) = MAX_MAC_TX_RETRY_CNT"
      by (simp add: ms_ok_def)
    with st i show "length (rx_ack_ok (stats ni)) = MAX_MAC_TX_RETRY_CNT"
      by (simp add: rx_ack_ok_length del: node_event.simps)
  qed
  have "ms_ok s'"
  proof (cases b)
    case True
    then have "is_inited s'" by (simp add: s')
    with ack len assms(1) show ?thesis by (simp add: ms_ok_def config_ok_def)
  next
    case False
    then have "\<not> is_inited s" "cfg s' = cfg s" using b by (auto simp: s')
    with assms(1) ack show ?thesis by (simp add: ms_ok_def)
  qed
  with st len show ?thesis by blast
qed

lemma run_stats_counts:
  "ms_ok s \<Longrightarrow> \<exists>s'. run_stats now es s = Ret s' \<and> ms_ok s' \<and>
     length (nodeArray (cfg s')) = length (nodeArray (cfg s)) \<and>
     (\<forall>i < length (nodeArray (cfg s)). stats (nodeArray (cfg s') ! i)
        = fold node_event (ev_for i es) (stats (nodeArray (cfg s) ! i)))"
proof (induction es arbitrary: s)
  case (Cons e es)
  obtain dir m where e: "e = (dir, m)" by (cases e)
  obtain s1 where s1: "set_stats now dir m s = Ret s1" using set_stats_eq [OF Cons.prems] by blast
  from ms_ok_set_stats [OF Cons.prems s1] Cons.IH [of s1] show ?case
    by (auto simp: e s1 fold_append)
qed simp

definition demo_ms :: macstats where
  "demo_ms = \<lparr>cfg = sized_config 2 new_config, is_inited = False, g_tv = 0\<rparr>"

lemma demo_ms_ok: "ms_ok demo_ms"
  by (simp add: ms_ok_def demo_ms_def config_ok_def sized_config_def new_nodeinfo_def zero_stats_def)

text \<open>
  C13: The counters count: after any sequence of transmissions, receptions and acknowledgements
  each node's unicast, multicast, failure and per-attempt counters have grown by the number of
  its own events of that kind (modulo 2 to the 64), commands are never counted, a packet of one
  node never touches another node, and the lazy first \<open>clear\<close> loses nothing.
\<close>

theorem counters_count:
  assumes "ms_ok s"
  shows "\<exists>s'. run_stats now es s = Ret s' \<and> length (nodeArray (cfg s')) = length (nodeArray (cfg s)) \<and>
    (\<forall>i < length (nodeArray (cfg s)).
       stats (nodeArray (cfg s') ! i) = counted (stats (nodeArray (cfg s) ! i)) (ev_for i es))"
proof -
  have "\<forall>i < length (nodeArray (cfg s)). length (rx_ack_ok (stats (nodeArray (cfg s) ! i))) = MAX_MAC_TX_RETRY_CNT"
    using assms by (simp add: ms_ok_def)
  then show ?thesis
    using run_stats_counts [OF assms, of now es] fold_node_event by metis
qed

lemma counters_count_witness:
  "\<exists>s'. run_stats 5 [(AL_TX, DEFINE_MBUF\<lparr>src_id := 1, dst_id := 7\<rparr>), (AL_TX, DEFINE_MBUF)] demo_ms = Ret s' \<and>
     tx_pkts (stats (nodeArray (cfg s') ! 1)) = 1 \<and> rx_pkts (stats (nodeArray (cfg s') ! 1)) = 0"
proof -
  have c: "src_id DEFINE_MBUF = 0" "flags DEFINE_MBUF = 0"
    by (simp_all add: DEFINE_MBUF_def DEFINE_MBUF_SZ_def zero_mbuf_def)
  have n: "length (nodeArray (cfg demo_ms)) = 2" "stats (nodeArray (cfg demo_ms) ! 1) = zero_stats"
    by (simp_all add: demo_ms_def sized_config_def new_nodeinfo_def)
  have "counted zero_stats (ev_for 1 [(AL_TX, DEFINE_MBUF\<lparr>src_id := 1, dst_id := 7\<rparr>), (AL_TX, DEFINE_MBUF)])
      = zero_stats\<lparr>tx_pkts := 1\<rparr>"
  proof -
    have "replicate 10 (0 :: u64) = [0, 0, 0, 0, 0, 0, 0, 0, 0, 0]" by (simp add: numeral_eq_Suc)
    then show ?thesis
      by (simp add: counted_def c has_flag_def zero_stats_def MAX_MAC_TX_RETRY_CNT_def upt_rec)
  qed
  with counters_count [OF demo_ms_ok, of 5 "[(AL_TX, DEFINE_MBUF\<lparr>src_id := 1, dst_id := 7\<rparr>), (AL_TX, DEFINE_MBUF)]"] n
  show ?thesis by (auto simp: zero_stats_def)
qed

section \<open>The summary text\<close>

lemma length_ld: "length (ld w) \<le> 20"
proof -
  have "- (2 ^ 63) \<le> sint w" "sint w < 2 ^ 63"
    using sint_greater_eq [of w] sint_less [of w] by auto
  then have "nat (- sint w) < 10 ^ 19" "nat (sint w) < 10 ^ 19" by auto
  then show ?thesis
    using length_dec_nat [of "nat (- sint w)" 19] length_dec_nat [of "nat (sint w)" 19]
    by (auto simp: ld_def dec_int_def)
qed

lemma length_dec_int: "- (10 ^ 18) < d \<Longrightarrow> d < 10 ^ 18 \<Longrightarrow> length (dec_int d) \<le> 19"
  using length_dec_nat [of "nat (- d)" 18] length_dec_nat [of "nat d" 18]
  by (auto simp: dec_int_def nat_less_iff)

lemma length_summary_counts: "length (summary_counts st) \<le> 180"
  using length_ld [of "rx_mc_pkts st"] length_ld [of "tx_mc_pkts st"] length_ld [of "rx_pkts st"]
    length_ld [of "tx_pkts st"] length_ld [of "tx_pkts st - tx_fail st"] length_ld [of "tx_fail st"]
  by (simp add: summary_counts_def)

lemma length_attempt_text: "i < 10 \<Longrightarrow> length (attempt_text st i) \<le> 33"
  using length_ld [of "rx_ack_ok st ! i"] length_dec_nat [of i 1] by (simp add: attempt_text_def)

lemma append_text_fits:
  "int (length out) + int (length txt) + 1 < buflen \<Longrightarrow>
   append_text buflen txt (out, int (length out)) = Ret (out @ txt, int (length (out @ txt)))"
  by (simp add: append_text_def snprintf_text_def)

lemma attempts_fit:
  "\<lbrakk>length (rx_ack_ok st) = 10; \<forall>i \<in> set is. i < 10; int (length out) + 33 * int (length is) + 1 < buflen\<rbrakk> \<Longrightarrow>
   attempts buflen st is (out, int (length out))
   = Ret (out @ concat (List.map (attempt_text st) is), int (length (out @ concat (List.map (attempt_text st) is))))"
proof (induction "is" arbitrary: out)
  case (Cons i "is")
  have l: "length (attempt_text st i) \<le> 33" using Cons.prems by (intro length_attempt_text) simp
  then have "append_text buflen (attempt_text st i) (out, int (length out))
      = Ret (out @ attempt_text st i, int (length (out @ attempt_text st i)))"
    using Cons.prems by (intro append_text_fits) simp
  with Cons.IH [of "out @ attempt_text st i"] Cons.prems l show ?case by simp
qed simp

text \<open>The report of one node, and of all nodes together.\<close>

definition report :: "stats_t \<Rightarrow> nat \<Rightarrow> string" where
  "report st retries = summary_counts st @ concat (List.map (attempt_text st) [1..<Suc retries])"

text \<open>
  C24: With at most 9 retries configured, the summary command returns the complete report of the
  node (or, for the manager id, the duration and the report of the sums over all nodes) and its
  exact length, without truncation, in any buffer of more than 600 bytes.
\<close>

theorem summary_complete:
  assumes "ms_ok s" "stoi (cfg_get (cfg s) ''macMaxRetry'') = Some (int r)" "r < 10" "600 < buflen"
    and "numOfNodes (cfg s) < 65536" "\<bar>now - g_tv s\<bar> < 10 ^ 18"
  shows "get_summary now nid buflen s =
    (if nid = CL_MGR_ID then
       (let t = ''Airline MAC stats: duration='' @ dec_int (now - g_tv s) @ [CHR 0x0A] @
                report (sum_stats (cfg s) [0..<length (nodeArray (cfg s))]) r
        in Ret (t, int (length t)))
     else if unat nid < length (nodeArray (cfg s)) then
       (let t = report (stats (nodeArray (cfg s) ! unat nid)) r in Ret (t, int (length t)))
     else Ret (''INTERNAL_ERROR'', 14))"
proof -
  have rest: "bindo (append_text buflen (summary_counts st) (out, int (length out)))
      (attempts buflen st [1..<Suc (nat (int r))]) = Ret (out @ report st r, int (length (out @ report st r)))"
    if "length (rx_ack_ok st) = 10" "length out < 50" for st out
  proof -
    have "append_text buflen (summary_counts st) (out, int (length out))
        = Ret (out @ summary_counts st, int (length (out @ summary_counts st)))"
      using length_summary_counts [of st] that assms(4) by (intro append_text_fits) simp
    moreover have "attempts buflen st [1..<Suc r] (out @ summary_counts st, int (length (out @ summary_counts st)))
        = Ret (out @ report st r, int (length (out @ report st r)))"
      using attempts_fit [of st "[1..<Suc r]" "out @ summary_counts st" buflen]
        length_summary_counts [of st] that assms(3,4) by (simp add: report_def del: upt_Suc)
    ultimately show ?thesis by (simp del: upt_Suc)
  qed
  have ok: "config_ok (cfg s)" "\<forall>ni \<in> set (nodeArray (cfg s)). length (rx_ack_ok (stats ni)) = 10"
    using assms(1) by (auto simp: ms_ok_def MAX_MAC_TX_RETRY_CNT_def)
  have n: "nat (numOfNodes (cfg s)) = length (nodeArray (cfg s))" using ok(1) by (simp add: config_ok_def)
  show ?thesis
  proof (cases "nid = CL_MGR_ID")
    case True
    let ?out = "''Airline MAC stats: duration='' @ dec_int (now - g_tv s) @ [CHR 0x0A]"
    have l: "length ?out < 50" using length_dec_int [of "now - g_tv s"] assms(6) by (simp add: abs_less_iff)
    have a: "append_text buflen ?out ([], 0) = Ret (?out, int (length ?out))"
      using append_text_fits [of "[]" ?out buflen] l assms(4) by simp
    have sum: "length (rx_ack_ok (sum_stats (cfg s) is)) = 10" for "is"
      unfolding sum_stats_def
      by (induction "is" rule: rev_induct) (auto simp: add_stats_def zero_stats_def MAX_MAC_TX_RETRY_CNT_def)
    show ?thesis
      using True assms(2,5) rest [OF sum l, of "[0..<length (nodeArray (cfg s))]"]
      unfolding get_summary_def node_ids_def a n by (simp add: Let_def a [simplified] del: upt_Suc)
  next
    case False
    show ?thesis
    proof (cases "unat nid < length (nodeArray (cfg s))")
      case True
      with ok(2) have "length (rx_ack_ok (stats (nodeArray (cfg s) ! unat nid))) = 10" by simp
      from rest [OF this, of "[]"] True False assms(2) show ?thesis
        by (simp add: get_summary_def get_node_info_eq [OF ok(1)] Let_def del: upt_Suc)
    next
      case F: False
      with False assms(2,4) show ?thesis
        by (simp add: get_summary_def get_node_info_eq [OF ok(1)] snprintf_text_def)
    qed
  qed
qed

definition demo_retry :: "nat \<Rightarrow> macstats" where
  "demo_retry r = demo_ms\<lparr>cfg := cfg_set ''macMaxRetry'' (dec_nat r) (cfg demo_ms)\<rparr>"

lemma demo_retry_ok: "ms_ok (demo_retry r)"
  using demo_ms_ok by (simp add: ms_ok_def demo_retry_def config_ok_def cfg_set_def)

lemma demo_retry_get: "r < 100 \<Longrightarrow> stoi (cfg_get (cfg (demo_retry r)) ''macMaxRetry'') = Some (int r)"
  by (simp add: demo_retry_def cfg_store.get_put_same stoi_dec_nat)

lemma demo_retry_nodes [simp]:
  "numOfNodes (cfg (demo_retry r)) = 2" "length (nodeArray (cfg (demo_retry r))) = 2" "g_tv (demo_retry r) = 0"
  by (simp_all add: demo_retry_def demo_ms_def sized_config_def cfg_set_def)

lemma summary_complete_witness:
  "get_summary 0 5 1024 (demo_retry 3) = Ret (''INTERNAL_ERROR'', 14)
   \<and> get_summary 0 1 1024 (demo_retry 3) = (let t = report (stats (nodeArray (cfg (demo_retry 3)) ! 1)) 3 in Ret (t, int (length t)))"
  using summary_complete [OF demo_retry_ok demo_retry_get, of 3 1024 0 5]
    summary_complete [OF demo_retry_ok demo_retry_get, of 3 1024 0 1]
  by (simp add: CL_MGR_ID_def del: upt_Suc)

lemma append_text_ret_or_fault:
  "append_text b txt s = Fault Out_Of_Bounds \<or> (\<exists>s'. append_text b txt s = Ret s')"
  by (cases s) (simp add: append_text_def)

lemma attempts_past_end:
  "\<exists>i \<in> set is. length (rx_ack_ok st) \<le> i \<Longrightarrow> attempts b st is s = Fault Out_Of_Bounds"
proof (induction "is" arbitrary: s)
  case (Cons i "is")
  show ?case
  proof (cases "length (rx_ack_ok st) \<le> i")
    case False
    with Cons.prems have "attempts b st is s' = Fault Out_Of_Bounds" for s' by (intro Cons.IH) auto
    with append_text_ret_or_fault [of b "attempt_text st i" s] False show ?thesis by auto
  qed simp
qed simp

text \<open>
  With 10 or more retries configured the summary of every existing node reads the counter
  array past its end, whatever the size of the reply buffer.
\<close>

theorem many_retries_read_past_end:
  assumes "ms_ok s" "stoi (cfg_get (cfg s) ''macMaxRetry'') = Some (int r)" "10 \<le> r"
    and "nid \<noteq> CL_MGR_ID" "unat nid < length (nodeArray (cfg s))"
  shows "get_summary now nid buflen s = Fault Out_Of_Bounds"
proof -
  let ?st = "stats (nodeArray (cfg s) ! unat nid)"
  have "length (rx_ack_ok ?st) = 10"
    using assms(1,5) by (simp add: ms_ok_def MAX_MAC_TX_RETRY_CNT_def)
  then have "attempts buflen ?st [1..<Suc (nat (int r))] t = Fault Out_Of_Bounds" for t
    using assms(3) by (intro attempts_past_end bexI [of _ 10]) auto
  then show ?thesis
    using append_text_ret_or_fault [of buflen "summary_counts ?st" "([], 0)"] assms
    by (auto simp: get_summary_def get_node_info_eq ms_ok_def simp del: upt_Suc)
qed

lemma many_retries_read_past_end_witness:
  "get_summary 0 1 4096 (demo_retry 10) = Fault Out_Of_Bounds"
  using many_retries_read_past_end [OF demo_retry_ok demo_retry_get, of 10 1 0 4096] by (simp add: CL_MGR_ID_def)

text \<open>
  A received unicast packet is credited to the wrong node and the wrong counter: delivering a
  packet from node \<open>a\<close> to any node \<open>b\<close> other than 0 raises the multicast receive counter of the
  sender \<open>a\<close>, and no counter of any other node, the receiver included.
\<close>

theorem unicast_rx_counted_for_sender:
  assumes "ms_ok s" "is_inited s" "uopen uid su cap rcv k (STACKLINE, b)" "fits_buf m"
    and "flags m = 0" "dst_id m = b" "b \<noteq> 0" "unat (src_id m) < length (nodeArray (cfg s))"
  shows "\<exists>s'. SendPacketToStackline uid now b m su s k = Ret (s', usend uid su (STACKLINE, b) m k) \<and>
    (\<forall>i < length (nodeArray (cfg s)). stats (nodeArray (cfg s') ! i) =
      (let st = stats (nodeArray (cfg s) ! i)
       in if i = unat (src_id m) then st\<lparr>rx_mc_pkts := rx_mc_pkts st + 1\<rparr> else st))"
proof -
  obtain s' where s': "set_stats now AL_RX m s = Ret s'"
    using set_stats_eq [OF assms(1)] by blast
  have "set_rx_stats m st = st\<lparr>rx_mc_pkts := rx_mc_pkts st + 1\<rparr>" for st
    using assms(5-7) by (simp add: set_rx_stats_def has_flag_def)
  moreover have "of_nat sizeof_msg_buf + mb_len m = send_len m" by (simp add: send_len_def)
  ultimately show ?thesis
    using ms_ok_set_stats [OF assms(1) s'] usend_eq [OF assms(3,4)] s'
    by (auto simp: SendPacketToStackline_def usend_def Let_def)
qed

lemma unicast_rx_counted_for_sender_witness:
  "\<exists>s'. SendPacketToStackline 0 9 1 (DEFINE_MBUF\<lparr>src_id := 0, dst_id := 1\<rparr>) demo_all (demo_ms\<lparr>is_inited := True\<rparr>)
      (demo_at (STACKLINE, 1)) = Ret (s', usend 0 demo_all (STACKLINE, 1) (DEFINE_MBUF\<lparr>src_id := 0, dst_id := 1\<rparr>) (demo_at (STACKLINE, 1))) \<and>
     rx_mc_pkts (stats (nodeArray (cfg s') ! 0)) = 1 \<and> stats (nodeArray (cfg s') ! 1) = zero_stats"
proof -
  have "ms_ok (demo_ms\<lparr>is_inited := True\<rparr>)" using demo_ms_ok by (auto simp: ms_ok_def)
  moreover have "fits_buf (DEFINE_MBUF\<lparr>src_id := 0, dst_id := 1\<rparr>)" by (simp add: fits_buf_def)
  moreover have "flags DEFINE_MBUF = 0" by (simp add: DEFINE_MBUF_def DEFINE_MBUF_SZ_def zero_mbuf_def)
  ultimately show ?thesis
    using unicast_rx_counted_for_sender [OF _ _ demo_open_at [of "(STACKLINE, 1)"],
        of "demo_ms\<lparr>is_inited := True\<rparr>" "DEFINE_MBUF\<lparr>src_id := 0, dst_id := 1\<rparr>" 9]
    by (auto simp: demo_ms_def sized_config_def new_nodeinfo_def zero_stats_def Let_def numeral_2_eq_2 less_Suc_eq)
qed

end
