(* ===== verification/Addr_Codec.thy ===== *)
theory Addr_Codec
  imports Msg_Buf
begin

text \<open>
  The encodings of a node id as a link-layer address: the 8-byte address of the stacklines
  (\<open>commline/cl_stackline_helpers.c\<close>), the 16-bit short address (\<open>airline/NS3/LrwpanIface.cc\<close>)
  and the 48-bit address of the power-line interface (\<open>PowerLineCommHandler.cc\<close>).  The locale
  \<open>addr_codec\<close> is what the senders and receivers of packets rely on.
\<close>

locale addr_codec =
  fixes enc :: "'i \<Rightarrow> 'a"
    and dec :: "'a \<Rightarrow> 'i"
    and valid :: "'i \<Rightarrow> bool"
  assumes dec_enc: "valid i \<Longrightarrow> dec (enc i) = i"
begin

lemma enc_inject: "valid i \<Longrightarrow> valid j \<Longrightarrow> enc i = enc j \<longleftrightarrow> i = j"
  using dec_enc by metis

lemma enc_eq_iff_dec: "valid i \<Longrightarrow> a = enc i \<Longrightarrow> dec a = i"
  by (simp add: dec_enc)

text \<open>A receiver that compares the decoded destination with its own id accepts its own packets only.\<close>

lemma accepts_own: "valid i \<Longrightarrow> valid j \<Longrightarrow> (dec (enc i) = j) = (i = j)"
  by (simp add: dec_enc)

end

section \<open>Bytes of a 16-bit id\<close>

definition lo_byte :: "u16 \<Rightarrow> u8" where "lo_byte i = ucast i"
definition hi_byte :: "u16 \<Rightarrow> u8" where "hi_byte i = ucast (drop_bit 8 i)"
definition join_bytes :: "u8 \<Rightarrow> u8 \<Rightarrow> u16" where
  \<comment> \<open>low byte first, as in memory\<close>
  "join_bytes lo hi = ucast lo OR push_bit 8 (ucast hi)"

lemma join_bytes [simp]: "join_bytes (lo_byte i) (hi_byte i) = i"
  by (simp add: join_bytes_def lo_byte_def hi_byte_def u16_split)

lemma zero_bytes: "lo_byte i = 0 \<Longrightarrow> hi_byte i = 0 \<Longrightarrow> i = 0"
  by (metis join_bytes lo_byte_def hi_byte_def drop_bit_of_0 unsigned_0)

section \<open>The stackline's long address\<close>

definition g_serial_id :: "u8 list" where
  "g_serial_id = [0x01, 0x02, 0x03, 0x04, 0x05, 0x06, 0x07, 0x08]"

definition cl_get_id2longaddr :: "u16 \<Rightarrow> u8 list \<Rightarrow> int \<Rightarrow> int \<times> u8 list" where
  "cl_get_id2longaddr i addr addrlen =
     (if addrlen \<noteq> 8 then (FAILURE, addr)
      else if i = 0xffff then (SUCCESS, replicate 8 0 @ drop 8 addr)
      else (SUCCESS, ((g_serial_id @ drop 8 addr)[6 := hi_byte i])[7 := lo_byte i]))"

definition cl_get_longaddr2id :: "u8 list option \<Rightarrow> u16" where
  "cl_get_longaddr2id addr = (case addr of
     None \<Rightarrow> 0xffff
   | Some a \<Rightarrow>
       if a ! 0 OR a ! 1 OR a ! 2 OR a ! 3 OR a ! 4 OR a ! 5 OR a ! 6 OR a ! 7 = 0 then 0xffff
       else join_bytes (a ! 7) (a ! 6))"

definition long_enc :: "u16 \<Rightarrow> u8 list" where
  "long_enc i = snd (cl_get_id2longaddr i (replicate 8 0) 8)"

lemma or_eq_0: "(a OR b = 0) = (a = 0 \<and> b = (0 :: u8))"
  by (metis or.right_neutral or_eq_0_iff)

lemma long_codec: "cl_get_longaddr2id (Some (snd (cl_get_id2longaddr i addr 8))) = i"
  by (simp add: cl_get_id2longaddr_def cl_get_longaddr2id_def g_serial_id_def or_eq_0 nth_append)

interpretation long: addr_codec long_enc "\<lambda>a. cl_get_longaddr2id (Some a)" "\<lambda>_. True"
  by unfold_locales (simp add: long_enc_def long_codec)

section \<open>The short address\<close>

text \<open>A \<open>Mac16Address\<close> is its two bytes (\<open>CopyFrom\<close> and \<open>CopyTo\<close> copy them).\<close>

type_synonym mac16 = "u8 \<times> u8"

definition id2addr :: "u16 \<Rightarrow> mac16" where
  "id2addr i = (let ptr = (lo_byte i, hi_byte i) in (snd ptr, fst ptr))"

definition addr2id :: "mac16 \<Rightarrow> u16" where
  "addr2id str = join_bytes (snd str) (fst str)"

definition short_address :: "u16 \<Rightarrow> mac16" where
  \<comment> \<open>the address \<open>setShortAddress\<close> gives to a device\<close>
  "short_address i = (ucast (drop_bit 8 i AND 0xff), ucast (i AND 0xff))"

lemma short_address_id2addr [simp]: "short_address i = id2addr i"
proof -
  have "ucast (x AND 0xff) = (ucast x :: u8)" for x :: u16
  proof -
    have ff: "(0xff :: u16) = mask 8" by (simp add: mask_eq_exp_minus_1)
    show ?thesis
      unfolding ff by (intro bit_word_eqI) (auto simp: bit_ucast_iff bit_and_iff bit_mask_iff)
  qed
  then show ?thesis by (simp add: short_address_def id2addr_def lo_byte_def hi_byte_def)
qed

interpretation short: addr_codec id2addr addr2id "\<lambda>_. True"
  by unfold_locales (simp add: id2addr_def addr2id_def)

section \<open>The power-line address\<close>

text \<open>
  \<open>Mac48Address\<close> is part of the simulator: \<open>parse\<close> stands for its constructor from text, and
  \<open>mac48_spec\<close> is what its documentation states, that \<open>xx:xx:xx:xx:xx:xx\<close> in hexadecimal
  denotes the six bytes.
\<close>

type_synonym mac48 = "u8 list"

definition hex2 :: "u8 \<Rightarrow> string" where "hex2 b = hex_pad 2 (unat b)"

definition mac48_text :: "u8 list \<Rightarrow> string" where
  "mac48_text bs = join (CHR '':'') (map hex2 bs)"

definition mac48_spec :: "(string \<Rightarrow> mac48) \<Rightarrow> bool" where
  "mac48_spec parse \<longleftrightarrow> (\<forall>bs. length bs = 6 \<longrightarrow> parse (mac48_text bs) = bs)"

definition getMacAddress :: "(string \<Rightarrow> mac48) \<Rightarrow> u16 \<Rightarrow> mac48" where
  "getMacAddress parse i =
     (if i = 0xffff then parse ''ff:ff:ff:ff:ff:ff''
      else let i' = i + 1; idbuf = (hi_byte i', lo_byte i')
           in parse (''00:00:00:00:'' @ hex2 (fst idbuf) @ '':'' @ hex2 (snd idbuf)))"

definition IsBroadcast :: "mac48 \<Rightarrow> bool" where
  "IsBroadcast a \<longleftrightarrow> a = replicate 6 0xff"

definition getIdFromMacAddr :: "mac48 \<Rightarrow> u16" where
  "getIdFromMacAddr addr =
     (if IsBroadcast addr then 0xffff
      else let i = join_bytes (addr ! 5) (addr ! 4) - 1
           in if i \<ge> 0xff00 then 0 else i)"

lemma hex2_ff: "hex2 0xff = ''ff''" and hex2_00: "hex2 0 = ''00''"
  by code_simp+

lemma getMacAddress_bytes:
  assumes "mac48_spec parse"
  shows "getMacAddress parse i = (if i = 0xffff then replicate 6 0xff
    else [0, 0, 0, 0, hi_byte (i + 1), lo_byte (i + 1)])"
proof -
  have "mac48_text (replicate 6 0xff) = ''ff:ff:ff:ff:ff:ff''"
    by (simp add: mac48_text_def hex2_ff numeral_eq_Suc)
  moreover have "mac48_text [0, 0, 0, 0, hi_byte (i + 1), lo_byte (i + 1)]
      = ''00:00:00:00:'' @ hex2 (hi_byte (i + 1)) @ '':'' @ hex2 (lo_byte (i + 1))"
    by (simp add: mac48_text_def hex2_00)
  ultimately show ?thesis
    using assms [unfolded mac48_spec_def, rule_format, of "replicate 6 0xff"]
      assms [unfolded mac48_spec_def, rule_format, of "[0, 0, 0, 0, hi_byte (i + 1), lo_byte (i + 1)]"]
    by (simp add: getMacAddress_def Let_def)
qed

lemma mac48_roundtrip:
  assumes "mac48_spec parse"
  shows "getIdFromMacAddr (getMacAddress parse i) = (if i = 0xffff \<or> i < 0xff00 then i else 0)"
proof -
  have "replicate 6 (0xff :: u8) = 0xff # replicate 5 0xff" 
    using replicate_Suc [of 5 "0xff :: u8"] by (simp del: replicate_Suc)
  then have "\<not> IsBroadcast [0, 0, 0, 0, a, b]" for a b by (simp add: IsBroadcast_def)
  moreover have "i \<ge> 0xff00 \<longleftrightarrow> \<not> i < 0xff00" by (rule linorder_not_less [symmetric])
  ultimately show ?thesis
    by (simp add: getMacAddress_bytes [OF assms] getIdFromMacAddr_def IsBroadcast_def Let_def)
qed

section \<open>The properties\<close>

text \<open>
  C39: The long address of a node id decodes to that id for every id, the broadcast id included,
  whatever the buffer held; two ids never share an address; no bytes behind the eight are
  written; and a buffer of any other size is refused untouched.
\<close>

theorem long_address_identifies_node:
  "cl_get_longaddr2id (Some (snd (cl_get_id2longaddr i addr 8))) = i \<and>
   fst (cl_get_id2longaddr i addr 8) = SUCCESS \<and>
   drop 8 (snd (cl_get_id2longaddr i addr 8)) = drop 8 addr \<and>
   (long_enc i = long_enc j \<longleftrightarrow> i = j) \<and>
   (\<forall>n. n = 8 \<or> cl_get_id2longaddr i addr n = (FAILURE, addr))"
  using long_codec long.enc_inject [of i j]
  by (auto simp: cl_get_id2longaddr_def g_serial_id_def)

text \<open>
  The 48-bit address of a node decodes to its id exactly for the ids below \<open>0xff00\<close> and the
  broadcast id: every id from \<open>0xff00\<close> to \<open>0xfffe\<close> gets an address that decodes to node 0.
\<close>

theorem plc_address_decodes:
  assumes "mac48_spec parse"
  shows "getIdFromMacAddr (getMacAddress parse i) = (if i = 0xffff \<or> i < 0xff00 then i else 0)"
  by (rule mac48_roundtrip [OF assms])

definition parse_mac48 :: "string \<Rightarrow> mac48" where
  "parse_mac48 s = map (\<lambda>h. of_nat (of_base 16 h)) (splits (CHR '':'') s)"

lemma to_base_digits: "c \<in> set (to_base 16 n) \<Longrightarrow> \<exists>d < 16. c = digit_char d"
proof (induction "16 :: nat" n rule: to_base.induct)
  case (1 n)
  then show ?case
    by (cases "n < 16") (auto simp: to_base.simps [of 16 n] intro: exI [of _ "n mod 16"])
qed

lemma hex2_no_colon: "CHR '':'' \<notin> set (hex2 b)"
proof
  assume "CHR '':'' \<in> set (hex2 b)"
  then obtain d where "d < 16" "CHR '':'' = digit_char d"
    using to_base_digits by (auto simp: hex2_def hex_pad_def pad0_def)
  then have "of_char (CHR '':'') = (of_char (digit_char d) :: nat)" by simp
  with \<open>d < 16\<close> show False by (simp add: digit_char_def split: if_splits)
qed

lemma parse_mac48_spec: "mac48_spec parse_mac48"
proof -
  have "parse_mac48 (mac48_text bs) = bs" if "length bs = 6" for bs
  proof -
    have "bs \<noteq> []" using that by auto
    moreover have "of_nat (of_base 16 (hex2 b)) = b" for b
      by (simp add: hex2_def hex_pad_def pad0_def of_base_zeros of_base_to_base)
    ultimately show ?thesis
      by (simp add: parse_mac48_def mac48_text_def splits_join hex2_no_colon comp_def)
  qed
  then show ?thesis by (simp add: mac48_spec_def)
qed

lemma plc_address_decodes_witness:
  "getIdFromMacAddr (getMacAddress parse_mac48 0xff00) = 0 \<and> getIdFromMacAddr (getMacAddress parse_mac48 300) = 300"
  by (simp add: plc_address_decodes [OF parse_mac48_spec])

end
