(* ===== verification/Propagation.thy ===== *)
theory Propagation
  imports Node_Config "HOL-Library.Multiset"
begin

text \<open>
  \<open>airline/NS3/PropagationModel.cc\<close>: the loss and delay models named in the configuration.  A
  model object of the simulator is the name of its class and the list of the setters called on
  it; creation itself cannot fail (the simulator aborts), so the null checks behind
  \<open>CreateObject\<close> have no branch here.
\<close>

section \<open>Model objects\<close>

record prop_model =
  pm_class :: string
  pm_settings :: "(string \<times> rat list) list"

definition CreateObject :: "string \<Rightarrow> prop_model" where
  "CreateObject c = \<lparr>pm_class = c, pm_settings = []\<rparr>"

definition setting :: "string \<Rightarrow> rat list \<Rightarrow> prop_model \<Rightarrow> prop_model" where
  "setting f xs p = p\<lparr>pm_settings := pm_settings p @ [(f, xs)]\<rparr>"

text \<open>\<open>if (!v.empty()) plm->f(stod(v))\<close>.\<close>

definition set_if :: "string \<Rightarrow> string \<Rightarrow> prop_model \<Rightarrow> prop_model outcome" where
  "set_if f v p = (if v = [] then Ret p else case stod v of
     None \<Rightarrow> Fault Exception | Some x \<Rightarrow> Ret (setting f [x] p))"

section \<open>Loss models\<close>

definition getLogDistancePLM :: "kvmap \<Rightarrow> (prop_model \<times> kvmap) outcome" where
  "getLogDistancePLM m =
     (let plm = CreateObject ''LogDistancePropagationLossModel'';
          (ple, m1) = getMapCfg m ''PathLossExp'';
          (refdist, m2) = getMapCfg m1 ''refDist'';
          (refloss, m3) = getMapCfg m2 ''refLoss''
      in bindo (set_if ''SetPathLossExponent'' ple plm) (\<lambda>p1.
         if refdist \<noteq> [] \<and> refloss \<noteq> [] then
           (case (stod refdist, stod refloss) of
              (Some d, Some l) \<Rightarrow> Ret (setting ''SetReference'' [d, l] p1, m3)
            | _ \<Rightarrow> Fault Exception)
         else Ret (p1, m3)))"

definition getFriisPLM :: "kvmap \<Rightarrow> (prop_model \<times> kvmap) outcome" where
  "getFriisPLM m =
     (let plm = CreateObject ''FriisPropagationLossModel'';
          (freq, m1) = getMapCfg m ''freq'';
          (minloss, m2) = getMapCfg m1 ''minloss'';
          (sysloss, m3) = getMapCfg m2 ''sysloss''
      in bindo (set_if ''SetFrequency'' freq plm) (\<lambda>p1.
         bindo (set_if ''SetMinLoss'' minloss p1) (\<lambda>p2.
         bindo (set_if ''SetSystemLoss'' sysloss p2) (\<lambda>p3. Ret (p3, m3)))))"

definition getFixedRssPLM :: "kvmap \<Rightarrow> (prop_model \<times> kvmap) outcome" where
  "getFixedRssPLM m =
     (let plm = CreateObject ''FixedRssLossModel''; (rss, m1) = getMapCfg m ''rss''
      in bindo (set_if ''SetRss'' rss plm) (\<lambda>p1. Ret (p1, m1)))"

definition getMatrixPLM :: "kvmap \<Rightarrow> (prop_model \<times> kvmap) outcome" where
  "getMatrixPLM m =
     (let plm = CreateObject ''MatrixPropagationLossModel''; (defloss, m1) = getMapCfg m ''defloss''
      in bindo (set_if ''SetDefaultLoss'' defloss plm) (\<lambda>p1. Ret (p1, m1)))"

definition getTwoRayGroundPLM :: "kvmap \<Rightarrow> (prop_model \<times> kvmap) outcome" where
  "getTwoRayGroundPLM m =
     (let plm = CreateObject ''TwoRayGroundPropagationLossModel'';
          (sysloss, m1) = getMapCfg m ''sysloss'';
          (freq, m2) = getMapCfg m1 ''freq'';
          (htabovez, m3) = getMapCfg m2 ''HeightAboveZ'';
          (mindist, m4) = getMapCfg m3 ''minDist''
      in bindo (set_if ''SetSystemLoss'' sysloss plm) (\<lambda>p1.
         bindo (set_if ''SetFrequency'' freq p1) (\<lambda>p2.
         bindo (set_if ''SetHeightAboveZ'' htabovez p2) (\<lambda>p3.
         bindo (set_if ''SetMinDistance'' mindist p3) (\<lambda>p4. Ret (p4, m4))))))"

text \<open>\<open>None\<close> is the null pointer: the name is unknown.  Unprocessed parameters are only logged.\<close>

definition getLossModel :: "string \<Rightarrow> string \<Rightarrow> prop_model option outcome" where
  "getLossModel loss_model param =
     (let cfgmap = splitKV param;
          some = (\<lambda>r. bindo r (\<lambda>(p, m). Ret (Some p)))
      in if stricmp_eq loss_model ''LogDistance'' then some (getLogDistancePLM cfgmap)
         else if stricmp_eq loss_model ''Friis'' then some (getFriisPLM cfgmap)
         else if stricmp_eq loss_model ''FixedRss'' then some (getFixedRssPLM cfgmap)
         else if stricmp_eq loss_model ''Matrix'' then some (getMatrixPLM cfgmap)
         else if stricmp_eq loss_model ''TwoRayGround'' then some (getTwoRayGroundPLM cfgmap)
         else if stricmp_eq loss_model ''Random'' then Ret (Some (CreateObject ''RandomPropagationLossModel''))
         else if stricmp_eq loss_model ''Range'' then Ret (Some (CreateObject ''RangePropagationLossModel''))
         else if stricmp_eq loss_model ''ThreeLogDistance''
              then Ret (Some (CreateObject ''ThreeLogDistancePropagationLossModel''))
         else Ret None)"

section \<open>Delay models\<close>

definition getConstantSpeedPDM :: "kvmap \<Rightarrow> (prop_model \<times> kvmap) outcome" where
  "getConstantSpeedPDM m =
     (let pdm = CreateObject ''ConstantSpeedPropagationDelayModel''; (speed, m1) = getMapCfg m ''speed''
      in bindo (set_if ''SetSpeed'' speed pdm) (\<lambda>p1. Ret (p1, m1)))"

definition getDelayModel :: "string \<Rightarrow> string \<Rightarrow> prop_model option outcome" where
  "getDelayModel del_model param =
     (let cfgmap = splitKV param
      in if stricmp_eq del_model ''ConstantSpeed''
         then bindo (getConstantSpeedPDM cfgmap) (\<lambda>(p, m). Ret (Some p))
         else if stricmp_eq del_model ''Random'' then Ret (Some (CreateObject ''RandomPropagationDelayModel''))
         else Ret None)"

section \<open>Parameter texts\<close>

definition kv_text :: "(string \<times> string) list \<Rightarrow> string" where
  "kv_text ps = join (CHR '','') (map (\<lambda>(k, v). k @ CHR ''='' # v) ps)"

definition kv_ok :: "string \<times> string \<Rightarrow> bool" where
  "kv_ok p \<longleftrightarrow> (case p of (k, v) \<Rightarrow> CHR ''='' \<notin> set k \<and> v \<noteq> [] \<and> CHR '','' \<notin> set v \<and> \<not> isspace (hd v))"

lemma kv_pairs_text: "\<forall>p \<in> set ps. kv_ok p \<Longrightarrow> kv_pairs (kv_text ps) = ps"
proof (induction ps)
  case Nil
  then show ?case by (simp add: kv_text_def kv_pairs.simps)
next
  case (Cons p ps)
  obtain k v where p: "p = (k, v)" by (cases p)
  have ok: "CHR ''='' \<notin> set k" "v \<noteq> []" "CHR '','' \<notin> set v" "\<not> isspace (hd v)"
    using Cons.prems by (simp_all add: p kv_ok_def)
  show ?case
  proof (cases ps)
    case Nil
    have t: "kv_text (p # ps) = k @ CHR ''='' # v" by (simp add: kv_text_def Nil p)
    obtain x xs where "v = x # xs" "\<not> isspace x" using ok by (cases v) auto
    with ok Nil show ?thesis unfolding t by (subst kv_pairs.simps) (simp add: p Let_def)
  next
    case (Cons p' ps')
    have t: "kv_text (p # ps) = k @ CHR ''='' # v @ CHR '','' # kv_text ps"
      by (simp add: kv_text_def Cons p)
    obtain x xs where "v = x # xs" "\<not> isspace x" using ok by (cases v) auto
    moreover have "getline (CHR '','') (v @ CHR '','' # kv_text ps) = (v, Some (kv_text ps))"
      using ok(3) by simp
    ultimately show ?thesis using ok Cons.IH Cons.prems
      unfolding t by (subst kv_pairs.simps) (simp add: p Let_def)
  qed
qed

lemma splitKV_lookup:
  "\<forall>p \<in> set ps. kv_ok p \<Longrightarrow>
   splitKV (kv_text ps) k = map_of (rev (map (\<lambda>(a, v). (lower a, v)) ps)) k"
proof -
  have "fold (\<lambda>(k, v). kv_put k v) ps m k
      = (case map_of (rev (map (\<lambda>(a, v). (lower a, v)) ps)) k of Some v \<Rightarrow> Some v | None \<Rightarrow> m k)" for m
    by (induction ps arbitrary: m) (auto simp: kv_put_def map_add_def split: option.splits)
  from this [of "\<lambda>_. None"] show "\<forall>p \<in> set ps. kv_ok p \<Longrightarrow> ?thesis"
    by (simp add: splitKV_def kv_pairs_text split: option.splits)
qed

lemma splitKV_order:
  assumes "\<forall>p \<in> set ps. kv_ok p" "distinct (map (lower \<circ> fst) ps)" "mset qs = mset ps"
  shows "splitKV (kv_text qs) = splitKV (kv_text ps)"
proof
  fix k
  let ?l = "\<lambda>xs. rev (map (\<lambda>(a, v). (lower a, v :: string)) xs)"
  have fsts: "map fst (?l xs) = rev (map (lower \<circ> fst) xs)" for xs
    by (simp add: rev_map case_prod_beta comp_def)
  have "set qs = set ps" using assms(3) by (metis set_mset_mset)
  moreover have "distinct (map (lower \<circ> fst) qs)"
    using assms(2,3) by (metis mset_map mset_eq_imp_distinct_iff)
  ultimately have "map_of (?l qs) = map_of (?l ps)"
    using assms(2) by (subst map_of_inject_set) (auto simp: fsts)
  with assms(1) \<open>set qs = set ps\<close> show "splitKV (kv_text qs) k = splitKV (kv_text ps) k"
    by (simp add: splitKV_lookup)
qed

section \<open>The properties\<close>

text \<open>
  What the configuration promises: the class of each model, and its setters with the parameters they
  take.  Names and parameters are given in lower case, since their case does not matter.
\<close>

type_synonym model_table = "(string \<times> string \<times> (string \<times> string list) list) list"

definition loss_models :: model_table where
  "loss_models =
     [(''logdistance'', ''LogDistancePropagationLossModel'',
         [(''SetPathLossExponent'', [''pathlossexp'']), (''SetReference'', [''refdist'', ''refloss''])]),
      (''friis'', ''FriisPropagationLossModel'',
         [(''SetFrequency'', [''freq'']), (''SetMinLoss'', [''minloss'']), (''SetSystemLoss'', [''sysloss''])]),
      (''fixedrss'', ''FixedRssLossModel'', [(''SetRss'', [''rss''])]),
      (''matrix'', ''MatrixPropagationLossModel'', [(''SetDefaultLoss'', [''defloss''])]),
      (''tworayground'', ''TwoRayGroundPropagationLossModel'',
         [(''SetSystemLoss'', [''sysloss'']), (''SetFrequency'', [''freq'']),
          (''SetHeightAboveZ'', [''heightabovez'']), (''SetMinDistance'', [''mindist''])]),
      (''random'', ''RandomPropagationLossModel'', []),
      (''range'', ''RangePropagationLossModel'', []),
      (''threelogdistance'', ''ThreeLogDistancePropagationLossModel'', [])]"

definition delay_models :: model_table where
  "delay_models =
     [(''constantspeed'', ''ConstantSpeedPropagationDelayModel'', [(''SetSpeed'', [''speed''])]),
      (''random'', ''RandomPropagationDelayModel'', [])]"

text \<open>A setter is called when all its parameters are given; \<open>None\<close> is a value that is no number.\<close>

fun settings :: "(string \<Rightarrow> string option) \<Rightarrow> (string \<times> string list) list \<Rightarrow> (string \<times> rat list) list option" where
  "settings m [] = Some []"
| "settings m ((f, ks) # ss) =
     (case those (map m ks) of
        None \<Rightarrow> settings m ss
      | Some vs \<Rightarrow> (case those (map stod vs) of
            None \<Rightarrow> None
          | Some xs \<Rightarrow> map_option (\<lambda>ys. (f, xs) # ys) (settings m ss)))"

text \<open>The last value a parameter is given, under any spelling of its name.\<close>

definition given :: "(string \<times> string) list \<Rightarrow> string \<Rightarrow> string option" where
  "given ps k = map_of (rev (map (\<lambda>(a, v). (lower a, v)) ps)) k"

definition configured :: "string \<Rightarrow> (string \<times> string list) list \<Rightarrow> (string \<Rightarrow> string option) \<Rightarrow> prop_model option outcome" where
  "configured c ss m = (case settings m ss of
     None \<Rightarrow> Fault Exception | Some xs \<Rightarrow> Ret (Some \<lparr>pm_class = c, pm_settings = xs\<rparr>))"

definition built :: "model_table \<Rightarrow> string \<Rightarrow> (string \<Rightarrow> string option) \<Rightarrow> prop_model option outcome" where
  "built table name m = (case map_of table (lower name) of None \<Rightarrow> Ret None | Some (c, ss) \<Rightarrow> configured c ss m)"

lemma getMapCfg_eq: "getMapCfg m k = (case m (lower k) of None \<Rightarrow> [] | Some v \<Rightarrow> v, m(lower k := None))"
  by (auto simp: getMapCfg_def kv_find_def kv_erase_def fun_upd_idem split: option.splits)

lemma lower_lits:
  "lower ''PathLossExp'' = ''pathlossexp''" "lower ''refDist'' = ''refdist''" "lower ''refLoss'' = ''refloss''"
  "lower ''freq'' = ''freq''" "lower ''minloss'' = ''minloss''" "lower ''sysloss'' = ''sysloss''" "lower ''rss'' = ''rss''"
  "lower ''defloss'' = ''defloss''" "lower ''HeightAboveZ'' = ''heightabovez''" "lower ''minDist'' = ''mindist''"
  "lower ''speed'' = ''speed''"
  by code_simp+

lemma lower_names:
  "lower ''LogDistance'' = ''logdistance''" "lower ''Friis'' = ''friis''" "lower ''FixedRss'' = ''fixedrss''"
  "lower ''Matrix'' = ''matrix''" "lower ''TwoRayGround'' = ''tworayground''" "lower ''Random'' = ''random''"
  "lower ''Range'' = ''range''" "lower ''ThreeLogDistance'' = ''threelogdistance''"
  "lower ''ConstantSpeed'' = ''constantspeed''"
  by code_simp+

text \<open>One setter after the other.\<close>

lemma settings_snoc:
  "settings m (ss @ [(f, [k])]) = (case settings m ss of None \<Rightarrow> None
     | Some xs \<Rightarrow> (case m k of None \<Rightarrow> Some xs
         | Some v \<Rightarrow> (case stod v of None \<Rightarrow> None | Some x \<Rightarrow> Some (xs @ [(f, [x])]))))"
proof (induction ss)
  case (Cons s ss)
  obtain g ks where s: "s = (g, ks)" by (cases s)
  show ?case
  proof (cases "those (map m ks)")
    case (Some vs)
    then show ?thesis using Cons by (cases "those (map stod vs)") (auto simp: s split: option.splits)
  qed (use Cons in \<open>simp add: s\<close>)
qed (auto split: option.splits)

definition model_of :: "(string \<Rightarrow> string option) \<Rightarrow> string \<Rightarrow> (string \<times> string list) list \<Rightarrow> prop_model outcome" where
  "model_of m c ss = (case settings m ss of None \<Rightarrow> Fault Exception | Some xs \<Rightarrow> Ret \<lparr>pm_class = c, pm_settings = xs\<rparr>)"

lemma set_next:
  assumes "m k \<noteq> Some []"
  shows "bindo (model_of m c ss) (\<lambda>p. bindo (set_if f (case m k of None \<Rightarrow> [] | Some v \<Rightarrow> v) p) G)
    = bindo (model_of m c (ss @ [(f, [k])])) G"
  using assms by (auto simp: model_of_def settings_snoc set_if_def setting_def split: option.splits)

lemma set_first:
  "m k \<noteq> Some [] \<Longrightarrow> bindo (set_if f (case m k of None \<Rightarrow> [] | Some v \<Rightarrow> v) (CreateObject c)) G
    = bindo (model_of m c [(f, [k])]) G"
  using set_next [of m k c "[]" f G] by (simp add: model_of_def CreateObject_def)

lemma model_done: "bindo (model_of m c ss) (\<lambda>p. Ret (Some p)) = configured c ss m"
  by (simp add: model_of_def configured_def split: option.splits)

text \<open>Each model on its own; no parameter has an empty value.\<close>

lemma log_distance_configured:
  assumes "\<And>k. m k \<noteq> Some []"
  shows "bindo (getLogDistancePLM m) (\<lambda>(p, m'). Ret (Some p)) = configured ''LogDistancePropagationLossModel''
      [(''SetPathLossExponent'', [''pathlossexp'']), (''SetReference'', [''refdist'', ''refloss''])] m"
proof -
  have s: "settings m [(''SetPathLossExponent'', [''pathlossexp'']), (''SetReference'', [''refdist'', ''refloss''])]
    = (case settings m [(''SetPathLossExponent'', [''pathlossexp''])] of None \<Rightarrow> None
       | Some xs \<Rightarrow> map_option ((@) xs) (settings m [(''SetReference'', [''refdist'', ''refloss''])]))"
    by (simp split: option.splits)
  show ?thesis
    unfolding getLogDistancePLM_def getMapCfg_eq lower_lits Let_def prod.case set_first [where m = m, OF assms] bindo_assoc configured_def s
    using assms [of "''refdist''"] assms [of "''refloss''"]
    by (cases "settings m [(''SetPathLossExponent'', [''pathlossexp''])]"; cases "m ''refdist''"; cases "m ''refloss''")
      (auto simp: model_of_def setting_def simp del: settings.simps(2) split: option.splits, (simp add: settings.simps split: option.splits)+)
qed

lemma models_configured:
  assumes "\<And>k. m k \<noteq> Some []"
  shows "bindo (getFriisPLM m) (\<lambda>(p, m'). Ret (Some p)) = configured ''FriisPropagationLossModel''
      [(''SetFrequency'', [''freq'']), (''SetMinLoss'', [''minloss'']), (''SetSystemLoss'', [''sysloss''])] m"
    and "bindo (getFixedRssPLM m) (\<lambda>(p, m'). Ret (Some p)) = configured ''FixedRssLossModel'' [(''SetRss'', [''rss''])] m"
    and "bindo (getMatrixPLM m) (\<lambda>(p, m'). Ret (Some p)) = configured ''MatrixPropagationLossModel'' [(''SetDefaultLoss'', [''defloss''])] m"
    and "bindo (getTwoRayGroundPLM m) (\<lambda>(p, m'). Ret (Some p)) = configured ''TwoRayGroundPropagationLossModel''
      [(''SetSystemLoss'', [''sysloss'']), (''SetFrequency'', [''freq'']), (''SetHeightAboveZ'', [''heightabovez'']),
       (''SetMinDistance'', [''mindist''])] m"
    and "bindo (getConstantSpeedPDM m) (\<lambda>(p, m'). Ret (Some p)) = configured ''ConstantSpeedPropagationDelayModel'' [(''SetSpeed'', [''speed''])] m"
  by (simp_all add: getFriisPLM_def getFixedRssPLM_def getMatrixPLM_def getTwoRayGroundPLM_def getConstantSpeedPDM_def
      getMapCfg_eq lower_lits Let_def bindo_assoc set_first [where m = m, OF assms] set_next [where m = m, OF assms] model_done
      del: lower_simps)

lemma splitKV_given: "\<forall>p \<in> set ps. kv_ok p \<Longrightarrow> splitKV (kv_text ps) = given ps"
  by (simp add: fun_eq_iff splitKV_lookup given_def)

lemma given_nonempty: "\<forall>p \<in> set ps. kv_ok p \<Longrightarrow> given ps k \<noteq> Some []"
  by (auto simp: given_def kv_ok_def dest!: map_of_SomeD)

text \<open>
  C38: A propagation model gets the parameters of the configuration: for every model name, in any
  case, and every list of \<open>key=value\<close> pairs (no \<open>=\<close> in a key, no comma in a value, which is not empty
  and does not begin with white space), the loss and the delay model have the class of that name, and
  every setter whose parameters are all given is called with their values, the last one where a key
  is repeated; a needed value that is no number is an exception, an unknown name gives no model, and
  other keys are ignored.  With different keys the order of the pairs does not matter.
\<close>

theorem model_gets_its_parameters:
  assumes "\<forall>p \<in> set ps. kv_ok p"
  shows "getLossModel name (kv_text ps) = built loss_models name (given ps) \<and>
    getDelayModel name (kv_text ps) = built delay_models name (given ps) \<and>
    (mset qs = mset ps \<longrightarrow> distinct (map (lower \<circ> fst) ps) \<longrightarrow> given qs = given ps)"
proof -
  note m = log_distance_configured [OF given_nonempty [OF assms]] models_configured [OF given_nonempty [OF assms]]
  have none: "configured c [] m = Ret (Some (CreateObject c))" for c m by (simp add: configured_def CreateObject_def)
  have "getLossModel name (kv_text ps) = built loss_models name (given ps)"
    unfolding getLossModel_def Let_def splitKV_given [OF assms] m
    by (simp add: built_def loss_models_def stricmp_eq_def strcasecmp_eq_def lower_names none del: lower_simps)
  moreover have "getDelayModel name (kv_text ps) = built delay_models name (given ps)"
    unfolding getDelayModel_def Let_def splitKV_given [OF assms] m
    by (simp add: built_def delay_models_def stricmp_eq_def strcasecmp_eq_def lower_names none del: lower_simps)
  moreover have "given qs = given ps" if "mset qs = mset ps" "distinct (map (lower \<circ> fst) ps)"
  proof -
    have "\<forall>p \<in> set qs. kv_ok p" using assms that(1) by (metis set_mset_mset)
    then show ?thesis using splitKV_order [OF assms that(2,1)] splitKV_given assms by metis
  qed
  ultimately show ?thesis by blast
qed

lemma model_gets_its_parameters_witness:
  "getLossModel ''logDistance'' (kv_text [(''refloss'', ''46''), (''pathLossExp'', ''3''), (''refDist'', ''1'')])
   = Ret (Some \<lparr>pm_class = ''LogDistancePropagationLossModel'',
      pm_settings = [(''SetPathLossExponent'', [3]), (''SetReference'', [1, 46])]\<rparr>)"
proof -
  let ?ps = "[(''refloss'', ''46''), (''pathLossExp'', ''3''), (''refDist'', ''1'')]"
  have d: "stod ''3'' = Some 3" "stod ''1'' = Some 1" "stod ''46'' = Some 46"
    by (simp_all add: stod_def sign_split_def isspace_def isdigit_def Let_def frac_val_def exp10_def)
  have ok: "\<forall>p \<in> set ?ps. kv_ok p" by (simp add: kv_ok_def isspace_def)
  have "given ?ps ''refloss'' = Some ''46''" "given ?ps ''pathlossexp'' = Some ''3''" "given ?ps ''refdist'' = Some ''1''"
    "lower ''logDistance'' = ''logdistance''" by code_simp+
  then have "built loss_models ''logDistance'' (given ?ps) = Ret (Some \<lparr>pm_class = ''LogDistancePropagationLossModel'',
      pm_settings = [(''SetPathLossExponent'', [3]), (''SetReference'', [1, 46])]\<rparr>)"
    using d by (simp add: built_def loss_models_def configured_def del: lower_simps)
  then show ?thesis using model_gets_its_parameters [OF ok, of "''logDistance''" "[]"] by simp
qed

end
