(* ===== verification/Lrwpan_Iface.thy ===== *)
theory Lrwpan_Iface
  imports Mac_Stats Addr_Codec Propagation
begin

text \<open>
  \<open>airline/NS3/LrwpanIface.cc\<close>: the IEEE 802.15.4 interface.  The simulator is the log of the
  calls made on it and what the code asks it for: the number of nodes and whether a node's
  first device is an 802.15.4 device.
\<close>

section \<open>The simulator as a log of calls\<close>

datatype addr_mode = NO_PANID_ADDR | SHORT_ADDR | EXT_ADDR
datatype tx_option = TX_OPTION_NONE | TX_OPTION_ACK

record data_request =
  m_srcAddrMode :: addr_mode
  m_dstAddrMode :: addr_mode
  m_dstPanId :: int
  m_dstAddr :: mac16
  m_msduHandle :: int
  m_txOptions :: tx_option

datatype ns_call =
    McpsDataRequest nat data_request "char list"
  | SetPromiscuousMode nat
  | SetTxPower nat rat
  | SetExtendedAddress nat "char list"
  | SetMacMaxFrameRetries nat int
  | SetDataCallbacks nat nat
  | SetShortAddress nat mac16
  | SetMacHeaderAdd nat bool
  | AddPropagationLossModel prop_model
  | SetPropagationDelayModel prop_model
  | SetChannel nat
  | AssociateToPan int
  | EnablePcapAll string
  | SetPosition nat rat rat rat
  | PlcSend nat mac48 "char list"
  | SetPlcAddress nat "char list"

record ns3 =
  n_nodes :: nat
  has_lrwpan :: "nat \<Rightarrow> bool"
  ns_log :: "ns_call list"

definition call :: "ns_call \<Rightarrow> ns3 \<Rightarrow> ns3" where
  "call x w = w\<lparr>ns_log := ns_log w @ [x]\<rparr>"

lemma call_fields [simp]: "n_nodes (call x w) = n_nodes w" "has_lrwpan (call x w) = has_lrwpan w"
  "ns_log (call x w) = ns_log w @ [x]"
  by (simp_all add: call_def)

definition getDev :: "int \<Rightarrow> ns3 \<Rightarrow> bool outcome" where
  "getDev i w = (if 0 \<le> i \<and> i < int (n_nodes w) then Ret (has_lrwpan w (nat i)) else Fault Out_Of_Bounds)"

section \<open>Configuration values\<close>

definition CFG_INT :: "config \<Rightarrow> string \<Rightarrow> string \<Rightarrow> int outcome" where
  "CFG_INT c key d = (case stoi0 (cfg_get_def_val c key d) of None \<Rightarrow> Fault Exception | Some v \<Rightarrow> Ret v)"

definition CFG_STOI :: "config \<Rightarrow> string \<Rightarrow> int outcome" where
  \<comment> \<open>\<open>stoi(CFG(key))\<close>\<close>
  "CFG_STOI c key = (case stoi (cfg_get c key) of None \<Rightarrow> Fault Exception | Some v \<Rightarrow> Ret v)"

definition CFG_PANID :: "config \<Rightarrow> int outcome" where
  "CFG_PANID c = CFG_INT c ''panID'' ''0xface''"

section \<open>Confirmations and indications\<close>

datatype mcps_status =
    IEEE_802_15_4_SUCCESS | IEEE_802_15_4_TRANSACTION_OVERFLOW | IEEE_802_15_4_TRANSACTION_EXPIRED
  | IEEE_802_15_4_CHANNEL_ACCESS_FAILURE | IEEE_802_15_4_INVALID_GTS | IEEE_802_15_4_COUNTER_ERROR
  | IEEE_802_15_4_FRAME_TOO_LONG | IEEE_802_15_4_UNAVAILABLE_KEY | IEEE_802_15_4_UNSUPPORTED_SECURITY
  | IEEE_802_15_4_INVALID_PARAMETER | IEEE_802_15_4_NO_ACK

fun wf_ack_status :: "mcps_status \<Rightarrow> wf_status" where
  "wf_ack_status IEEE_802_15_4_SUCCESS = WF_STATUS_ACK_OK"
| "wf_ack_status IEEE_802_15_4_NO_ACK = WF_STATUS_NO_ACK"
| "wf_ack_status IEEE_802_15_4_TRANSACTION_OVERFLOW = WF_STATUS_ERR"
| "wf_ack_status IEEE_802_15_4_TRANSACTION_EXPIRED = WF_STATUS_ERR"
| "wf_ack_status IEEE_802_15_4_CHANNEL_ACCESS_FAILURE = WF_STATUS_ERR"
| "wf_ack_status _ = WF_STATUS_FATAL"

text \<open>The parameters the callbacks read.\<close>

record data_confirm =
  cf_dst :: mac16
  cf_status :: mcps_status
  cf_retries :: nat

record data_indication =
  in_src :: mac16
  in_dst :: mac16
  in_lqi :: u8

definition DataConfirm ::
  "u32 \<Rightarrow> int \<Rightarrow> nat \<Rightarrow> data_confirm \<Rightarrow> usock \<Rightarrow> macstats \<Rightarrow> kernel \<Rightarrow> (macstats \<times> kernel) outcome" where
  "DataConfirm uid now i ps u s k =
     (let dst_id = addr2id (cf_dst ps)
      in if dst_id = 0xffff then Ret (s, k)
         else SendAckToStackline uid now (of_nat i) dst_id (wf_ack_status (cf_status ps))
                (int (cf_retries ps) + 1) u s k)"

definition DataIndication ::
  "u32 \<Rightarrow> int \<Rightarrow> nat \<Rightarrow> data_indication \<Rightarrow> char list \<Rightarrow> usock \<Rightarrow> macstats \<Rightarrow> kernel \<Rightarrow> (macstats \<times> kernel) outcome" where
  "DataIndication uid now i ps p u s k =
     (if length p \<ge> COMMLINE_MAX_BUF then Ret (s, k)
      else let m = (put_buf p DEFINE_MBUF)\<lparr>mb_len := of_nat (length p), src_id := addr2id (in_src ps),
                     dst_id := addr2id (in_dst ps), info0 := in_lqi ps\<rparr>
           in SendPacketToStackline uid now (of_nat i) m u s k)"

section \<open>Setting up\<close>

definition setShortAddress :: "nat \<Rightarrow> u16 \<Rightarrow> ns3 \<Rightarrow> ns3" where
  "setShortAddress i nid w = call (SetShortAddress i (short_address nid)) w"

text \<open>One node of the loop.\<close>

definition set_node_param :: "config \<Rightarrow> bool \<Rightarrow> bool \<Rightarrow> nat \<Rightarrow> ns3 \<Rightarrow> ns3 outcome" where
  "set_node_param c macAdd chan i w =
     (if \<not> has_lrwpan w i then Ret w
      else bindo (CFG_INT c ''macMaxRetry'' ''3'') (\<lambda>retries.
        let w1 = setShortAddress i (of_nat i) (call (SetDataCallbacks i i) (call (SetMacMaxFrameRetries i retries) w));
            w2 = (if macAdd then w1 else call (SetMacHeaderAdd i macAdd) w1)
        in Ret (if chan then call (SetChannel i) w2 else w2)))"

fun set_nodes_param :: "config \<Rightarrow> bool \<Rightarrow> bool \<Rightarrow> nat list \<Rightarrow> ns3 \<Rightarrow> ns3 outcome" where
  "set_nodes_param c macAdd chan [] w = Ret w"
| "set_nodes_param c macAdd chan (i # is) w =
     bindo (set_node_param c macAdd chan i w) (set_nodes_param c macAdd chan is)"

definition setAllNodesParam :: "config \<Rightarrow> ns3 \<Rightarrow> (int \<times> ns3) outcome" where
  "setAllNodesParam c w =
     (let loss_model = cfg_get c ''lossModel''; del_model = cfg_get c ''delayModel'';
          chan = (loss_model \<noteq> [] \<or> del_model \<noteq> [])
      in bindo (CFG_INT c ''macHeaderAdd'' ''1'') (\<lambda>add.
         bindo (if loss_model = [] then Ret (Some w)
                else bindo (getLossModel loss_model (cfg_get c ''lossModelParam''))
                       (\<lambda>plm. Ret (map_option (\<lambda>p. call (AddPropagationLossModel p) w) plm))) (\<lambda>w1.
         case w1 of None \<Rightarrow> Ret (FAILURE, w)
         | Some w1 \<Rightarrow>
             bindo (if del_model = [] then Ret (Some w1)
                    else bindo (getDelayModel del_model (cfg_get c ''delayModelParam''))
                           (\<lambda>pdm. Ret (map_option (\<lambda>p. call (SetPropagationDelayModel p) w1) pdm))) (\<lambda>w2.
             case w2 of None \<Rightarrow> Ret (FAILURE, w1)
             | Some w2 \<Rightarrow>
                 bindo (set_nodes_param c (add \<noteq> 0) chan [0..<n_nodes w] w2) (\<lambda>w3.
                 Ret (SUCCESS, w3))))))"

text \<open>The result of \<open>setAllNodesParam\<close> is not looked at.\<close>

definition lrwpanSetup :: "config \<Rightarrow> ns3 \<Rightarrow> (int \<times> ns3) outcome" where
  "lrwpanSetup c w =
     bindo (CFG_PANID c) (\<lambda>pan.
       let w1 = call (AssociateToPan pan) (w\<lparr>has_lrwpan := (\<lambda>_. True)\<rparr>);
           capfile = cfg_get c ''NS3_captureFile'';
           w2 = (if capfile = [] then w1 else call (EnablePcapAll capfile) w1)
       in bindo (setAllNodesParam c w2) (\<lambda>(r, w3). Ret (SUCCESS, w3)))"

section \<open>The operations of the interface\<close>

definition lrwpanSetTxPower :: "int \<Rightarrow> rat \<Rightarrow> ns3 \<Rightarrow> (int \<times> ns3) outcome" where
  "lrwpanSetTxPower i txpow w = bindo (getDev i w) (\<lambda>dev.
     Ret (if \<not> dev then (FAILURE, w) else (SUCCESS, call (SetTxPower (nat i) txpow) w)))"

definition lrwpanSetPromiscuous :: "int \<Rightarrow> ns3 \<Rightarrow> (int \<times> ns3) outcome" where
  "lrwpanSetPromiscuous i w = bindo (getDev i w) (\<lambda>dev.
     Ret (if \<not> dev then (FAILURE, w) else (SUCCESS, call (SetPromiscuousMode (nat i)) w)))"

definition lrwpanSetAddress :: "int \<Rightarrow> char list \<Rightarrow> int \<Rightarrow> ns3 \<Rightarrow> (int \<times> ns3) outcome" where
  "lrwpanSetAddress i b sz w = bindo (getDev i w) (\<lambda>dev.
     Ret (if \<not> dev then (FAILURE, w)
          else (SUCCESS, if sz = 8 then call (SetExtendedAddress (nat i) b) w else w)))"

definition lrwpanSendPacket :: "config \<Rightarrow> int \<Rightarrow> msg_buf \<Rightarrow> ns3 \<Rightarrow> (int \<times> ns3) outcome" where
  "lrwpanSendPacket c i m w =
     bindo (CFG_STOI c ''numOfNodes'') (\<lambda>numNodes.
     bindo (getDev i w) (\<lambda>dev.
       if \<not> dev then Ret (FAILURE, w)
       else if has_flag MBUF_IS_CMD m then Ret (FAILURE, w)
       else if length (buf m) < unat (mb_len m) then Fault Out_Of_Bounds
       else bindo (CFG_PANID c) (\<lambda>pan.
         let opt = (if dst_id m \<noteq> 0xffff then TX_OPTION_ACK else TX_OPTION_NONE);
             promis = (if IN_RANGE (uint (src_id m)) 0 numNodes
                       then (case get_node_info c (src_id m) of None \<Rightarrow> False | Some ni \<Rightarrow> getPromisMode ni \<noteq> 0)
                       else False);
             ps = \<lparr>m_srcAddrMode = SHORT_ADDR, m_dstAddrMode = SHORT_ADDR, m_dstPanId = pan,
                   m_dstAddr = id2addr (dst_id m), m_msduHandle = 0,
                   m_txOptions = (if promis then TX_OPTION_NONE else opt)\<rparr>
         in Ret (SUCCESS, call (McpsDataRequest (nat i) ps (take (unat (mb_len m)) (buf m))) w))))"

section \<open>Setup configures the nodes\<close>

definition node_calls :: "int \<Rightarrow> bool \<Rightarrow> bool \<Rightarrow> nat \<Rightarrow> ns_call list" where
  "node_calls retries macAdd chan i =
     [SetMacMaxFrameRetries i retries, SetDataCallbacks i i, SetShortAddress i (id2addr (of_nat i))] @
     (if macAdd then [] else [SetMacHeaderAdd i False]) @ (if chan then [SetChannel i] else [])"

lemma set_nodes_param_log:
  "\<lbrakk>CFG_INT c ''macMaxRetry'' ''3'' = Ret retries; \<forall>i \<in> set is. has_lrwpan w i\<rbrakk> \<Longrightarrow>
   set_nodes_param c macAdd chan is w
   = Ret (w\<lparr>ns_log := ns_log w @ concat (map (node_calls retries macAdd chan) is)\<rparr>)"
proof (induction "is" arbitrary: w)
  case (Cons i "is")
  have "set_node_param c macAdd chan i w = Ret (w\<lparr>ns_log := ns_log w @ node_calls retries macAdd chan i\<rparr>)"
    using Cons.prems
    by (simp add: set_node_param_def node_calls_def setShortAddress_def call_def Let_def del: short_address_def)
  with Cons show ?case by simp
qed simp

text \<open>The models the configuration names, as the calls made for them.\<close>

definition model_calls :: "config \<Rightarrow> ns_call list outcome" where
  "model_calls c =
     bindo (if cfg_get c ''lossModel'' = [] then Ret []
            else bindo (getLossModel (cfg_get c ''lossModel'') (cfg_get c ''lossModelParam'')) (\<lambda>p.
                 case p of None \<Rightarrow> Blocked | Some p \<Rightarrow> Ret [AddPropagationLossModel p])) (\<lambda>l.
     bindo (if cfg_get c ''delayModel'' = [] then Ret []
            else bindo (getDelayModel (cfg_get c ''delayModel'') (cfg_get c ''delayModelParam'')) (\<lambda>p.
                 case p of None \<Rightarrow> Blocked | Some p \<Rightarrow> Ret [SetPropagationDelayModel p])) (\<lambda>d.
     Ret (l @ d)))"

lemma call_log: "call x w = w\<lparr>ns_log := ns_log w @ [x]\<rparr>"
  by (simp add: call_def)

lemma setAllNodesParam_log:
  assumes "CFG_INT c ''macMaxRetry'' ''3'' = Ret retries" "CFG_INT c ''macHeaderAdd'' ''1'' = Ret add"
    and "model_calls c = Ret ms" "\<forall>i < n_nodes w. has_lrwpan w i"
  shows "setAllNodesParam c w = Ret (SUCCESS, w\<lparr>ns_log := ns_log w @ ms @ concat (map
     (node_calls retries (add \<noteq> 0) (cfg_get c ''lossModel'' \<noteq> [] \<or> cfg_get c ''delayModel'' \<noteq> [])) [0..<n_nodes w])\<rparr>)"
proof -
  have nodes: "set_nodes_param c a ch [0..<n_nodes w] (w\<lparr>ns_log := l\<rparr>)
      = Ret (w\<lparr>ns_log := l @ concat (map (node_calls retries a ch) [0..<n_nodes w])\<rparr>)" for a ch l
    using set_nodes_param_log [OF assms(1), of "[0..<n_nodes w]" "w\<lparr>ns_log := l\<rparr>" a ch] assms(4) by simp
  have nodes0: "set_nodes_param c a ch [0..<n_nodes w] w
      = Ret (w\<lparr>ns_log := ns_log w @ concat (map (node_calls retries a ch) [0..<n_nodes w])\<rparr>)" for a ch
    using set_nodes_param_log [OF assms(1), of "[0..<n_nodes w]" w a ch] assms(4) by simp
  obtain l d where ms: "ms = l @ d"
    and l: "(cfg_get c ''lossModel'' = [] \<and> l = []) \<or> (\<exists>p. cfg_get c ''lossModel'' \<noteq> [] \<and> l = [AddPropagationLossModel p] \<and>
      getLossModel (cfg_get c ''lossModel'') (cfg_get c ''lossModelParam'') = Ret (Some p))"
    and d: "(cfg_get c ''delayModel'' = [] \<and> d = []) \<or> (\<exists>p. cfg_get c ''delayModel'' \<noteq> [] \<and> d = [SetPropagationDelayModel p] \<and>
      getDelayModel (cfg_get c ''delayModel'') (cfg_get c ''delayModelParam'') = Ret (Some p))"
    using assms(3) unfolding model_calls_def
    by (auto simp: bindo_eq_Ret split: if_splits option.splits)
  show ?thesis
    using l d unfolding setAllNodesParam_def Let_def ms
    by (elim disjE exE conjE) (simp_all add: assms(2) call_log nodes nodes0)
qed

section \<open>The properties\<close>

text \<open>
  C16: When every value of the configuration can be parsed and its models exist, setting up the
  interface succeeds and configures every node exactly once, in order: retries, callbacks bound to
  its own id, the short address that decodes to its own id, the header switch and the channel.
\<close>

theorem lrwpan_setup_configures_all:
  assumes "CFG_PANID c = Ret pan" "CFG_INT c ''macMaxRetry'' ''3'' = Ret retries"
    and "CFG_INT c ''macHeaderAdd'' ''1'' = Ret add" "model_calls c = Ret ms"
  shows "\<exists>w'. lrwpanSetup c w = Ret (SUCCESS, w') \<and> n_nodes w' = n_nodes w \<and>
    ns_log w' = ns_log w @ [AssociateToPan pan] @
      (if cfg_get c ''NS3_captureFile'' = [] then [] else [EnablePcapAll (cfg_get c ''NS3_captureFile'')]) @ ms @
      concat (map (node_calls retries (add \<noteq> 0) (cfg_get c ''lossModel'' \<noteq> [] \<or> cfg_get c ''delayModel'' \<noteq> []))
                  [0..<n_nodes w])"
proof -
  let ?w1 = "call (AssociateToPan pan) (w\<lparr>has_lrwpan := (\<lambda>_. True)\<rparr>)"
  let ?w2 = "if cfg_get c ''NS3_captureFile'' = [] then ?w1 else call (EnablePcapAll (cfg_get c ''NS3_captureFile'')) ?w1"
  have "setAllNodesParam c ?w2 = Ret (SUCCESS, ?w2\<lparr>ns_log := ns_log ?w2 @ ms @ concat (map
     (node_calls retries (add \<noteq> 0) (cfg_get c ''lossModel'' \<noteq> [] \<or> cfg_get c ''delayModel'' \<noteq> [])) [0..<n_nodes ?w2])\<rparr>)"
    by (rule setAllNodesParam_log [OF assms(2-4)]) simp
  then show ?thesis
    using assms(1) by (simp add: lrwpanSetup_def Let_def)
qed

definition demo_net :: "nat \<Rightarrow> ns3" where
  "demo_net n = \<lparr>n_nodes = n, has_lrwpan = (\<lambda>_. True), ns_log = []\<rparr>"

lemma demo_cfg_ints:
  "CFG_PANID (sized_config n new_config) = Ret 0xface"
  "CFG_INT (sized_config n new_config) ''macMaxRetry'' ''3'' = Ret 3"
  "CFG_INT (sized_config n new_config) ''macHeaderAdd'' ''1'' = Ret 1"
  "model_calls (sized_config n new_config) = Ret []"
  "cfg_get (sized_config n new_config) ''NS3_captureFile'' = []"
  "cfg_get (sized_config n new_config) ''lossModel'' = []" "cfg_get (sized_config n new_config) ''delayModel'' = []"
proof -
  have "cfg_get (sized_config n new_config) k = (if lower k = lower ''numOfNodes'' then dec_nat n else [])" for k
    by (simp add: cfg_get_def sized_config_def new_config_def kv_find_def kv_put_def del: lower_simps)
  moreover have "lower ''panID'' \<noteq> lower ''numOfNodes''" "lower ''macMaxRetry'' \<noteq> lower ''numOfNodes''"
    "lower ''macHeaderAdd'' \<noteq> lower ''numOfNodes''" "lower ''NS3_captureFile'' \<noteq> lower ''numOfNodes''"
    "lower ''lossModel'' \<noteq> lower ''numOfNodes''" "lower ''delayModel'' \<noteq> lower ''numOfNodes''"
    by code_simp+
  ultimately show "CFG_PANID (sized_config n new_config) = Ret 0xface"
  "CFG_INT (sized_config n new_config) ''macMaxRetry'' ''3'' = Ret 3"
  "CFG_INT (sized_config n new_config) ''macHeaderAdd'' ''1'' = Ret 1"
  "model_calls (sized_config n new_config) = Ret []"
  "cfg_get (sized_config n new_config) ''NS3_captureFile'' = []"
  "cfg_get (sized_config n new_config) ''lossModel'' = []" "cfg_get (sized_config n new_config) ''delayModel'' = []"
    by (simp_all add: CFG_PANID_def CFG_INT_def cfg_get_def_val_def model_calls_def del: lower_simps)
qed

lemma lrwpan_setup_configures_all_witness:
  "\<exists>w'. lrwpanSetup (sized_config 2 new_config) (demo_net 2) = Ret (SUCCESS, w') \<and>
    ns_log w' = AssociateToPan 0xface #
      [SetMacMaxFrameRetries 0 3, SetDataCallbacks 0 0, SetShortAddress 0 (0, 0),
       SetMacMaxFrameRetries 1 3, SetDataCallbacks 1 1, SetShortAddress 1 (0, 1)]"
proof -
  have "id2addr 0 = (0, 0)" "id2addr 1 = (0, 1)"
    by (simp_all add: id2addr_def lo_byte_def hi_byte_def)
  with lrwpan_setup_configures_all [OF demo_cfg_ints(1-4), of 2 "demo_net 2"] show ?thesis
    by (auto simp: demo_cfg_ints demo_net_def node_calls_def upt_rec)
qed

text \<open>
  A wrong loss model is not an error: when the configured name is unknown the setup still
  reports success, but no node is configured (no callback, no address), so the network is deaf.
\<close>

theorem unknown_loss_model_ignored:
  assumes "CFG_PANID c = Ret pan" "CFG_INT c ''macHeaderAdd'' ''1'' = Ret add"
    and "cfg_get c ''lossModel'' \<noteq> []"
    and "getLossModel (cfg_get c ''lossModel'') (cfg_get c ''lossModelParam'') = Ret None"
  shows "\<exists>w'. lrwpanSetup c w = Ret (SUCCESS, w') \<and>
    ns_log w' = ns_log w @ [AssociateToPan pan] @
      (if cfg_get c ''NS3_captureFile'' = [] then [] else [EnablePcapAll (cfg_get c ''NS3_captureFile'')])"
  using assms by (simp add: lrwpanSetup_def setAllNodesParam_def Let_def)

lemma unknown_loss_model_ignored_witness:
  "\<exists>w'. lrwpanSetup (cfg_set ''lossModel'' ''Fries'' new_config) (demo_net 2) = Ret (SUCCESS, w') \<and>
    ns_log w' = [AssociateToPan 0xface]"
proof -
  let ?c = "cfg_set ''lossModel'' ''Fries'' new_config"
  have g: "cfg_get ?c k = (if lower k = lower ''lossModel'' then ''Fries'' else [])" for k
    by (simp add: cfg_get_def cfg_set_def new_config_def kv_find_def kv_put_def del: lower_simps)
  have l: "lower ''panID'' \<noteq> lower ''lossModel''" "lower ''macHeaderAdd'' \<noteq> lower ''lossModel''"
    "lower ''NS3_captureFile'' \<noteq> lower ''lossModel''" "lower ''lossModelParam'' \<noteq> lower ''lossModel''"
    by code_simp+
  have n: "getLossModel ''Fries'' [] = Ret None" by code_simp
  have "CFG_PANID ?c = Ret 0xface" "CFG_INT ?c ''macHeaderAdd'' ''1'' = Ret 1"
    using l by (simp_all add: CFG_PANID_def CFG_INT_def cfg_get_def_val_def g del: lower_simps)
  from unknown_loss_model_ignored [OF this, of "demo_net 2"] show ?thesis
    using l n by (simp add: g demo_net_def del: lower_simps)
qed

section \<open>A packet and its confirmation\<close>

lemma of_nat_len: "n < 2048 \<Longrightarrow> unat (of_nat n :: u16) = n"
  by (simp add: unat_of_nat)

definition air_msg :: "u16 \<Rightarrow> u16 \<Rightarrow> u8 \<Rightarrow> char list \<Rightarrow> msg_buf" where
  \<comment> \<open>the message \<open>DataIndication\<close> sends for a packet\<close>
  "air_msg a b lqi p = (put_buf p DEFINE_MBUF)\<lparr>mb_len := of_nat (length p), src_id := a, dst_id := b, info0 := lqi\<rparr>"

lemma air_msg_fields [simp]:
  "src_id (air_msg a b l p) = a" "dst_id (air_msg a b l p) = b" "info0 (air_msg a b l p) = l"
  "mb_len (air_msg a b l p) = of_nat (length p)" "flags (air_msg a b l p) = 0"
  by (simp_all add: air_msg_def) (simp add: DEFINE_MBUF_def DEFINE_MBUF_SZ_def zero_mbuf_def)

lemma air_msg_buf:
  assumes "length p < 2048"
  shows "fits_buf (air_msg a b l p)" "take (length p) (buf (air_msg a b l p)) = p"
  using assms by (auto simp: fits_buf_def of_nat_len air_msg_def put_buf_def)

lemma DataIndication_sends:
  assumes "ms_ok s" "uopen uid su cap rcv k (STACKLINE, of_nat i)" "length p < 2048"
  shows "\<exists>s'. DataIndication uid now i \<lparr>in_src = id2addr a, in_dst = id2addr b, in_lqi = l\<rparr> p su s k
    = Ret (s', usend uid su (STACKLINE, of_nat i) (air_msg a b l p) k)"
proof -
  obtain s' where "set_stats now AL_RX (air_msg a b l p) s = Ret s'"
    using set_stats_eq [OF assms(1)] by blast
  moreover have "of_nat sizeof_msg_buf + mb_len (air_msg a b l p) = send_len (air_msg a b l p)"
    by (simp add: send_len_def)
  ultimately show ?thesis
    using usend_eq [OF assms(2) air_msg_buf(1) [OF assms(3)]] assms(3)
    by (auto simp: DataIndication_def COMMLINE_MAX_BUF_def SendPacketToStackline_def usend_def
        short.dec_enc air_msg_def [symmetric] Let_def)
qed

text \<open>
  C6: A packet crosses the air unchanged: when the radio delivers the request that
  \<open>lrwpanSendPacket\<close> made for node \<open>a\<close> to node \<open>b\<close>, the stackline process of \<open>b\<close> receives exactly the
  payload the stackline of \<open>a\<close> sent, with both node ids and the link quality, and the request
  asks for an acknowledgement exactly for unicast packets of nodes not in promiscuous mode.
\<close>

theorem packet_crosses_the_air:
  assumes "CFG_STOI c ''numOfNodes'' = Ret n" "CFG_PANID c = Ret pan"
    and "unat a < n_nodes w" "has_lrwpan w (unat a)" "\<not> has_flag MBUF_IS_CMD m"
    and "length p < 2048" "mb_len m = of_nat (length p)" "take (length p) (buf m) = p" "length p \<le> length (buf m)"
    and "ms_ok s" "uopen uid su cap rcv k (STACKLINE, b)" "upending rcv k (STACKLINE, b) = []"
    and "length p \<le> cap" "length (buf m0) = cap + 1"
  shows "\<exists>ps. lrwpanSendPacket c (int (unat a)) m w = Ret (SUCCESS, call (McpsDataRequest (unat a) ps p) w) \<and>
    m_dstAddr ps = short_address (dst_id m) \<and> m_dstPanId ps = pan \<and>
    (m_txOptions ps = TX_OPTION_ACK \<longleftrightarrow> dst_id m \<noteq> 0xffff \<and>
       \<not> (uint (src_id m) < n \<and> (\<exists>ni. get_node_info c (src_id m) = Some ni \<and> getPromisMode ni \<noteq> 0))) \<and>
    (\<exists>s1 k1 m1. DataIndication uid now (unat b)
        \<lparr>in_src = short_address a, in_dst = m_dstAddr ps, in_lqi = lqi\<rparr> p su s k = Ret (s1, k1) \<and>
      cl_recvfrom_q (MTYPE STACKLINE b) (Some m0) (of_nat (16 + cap)) nowait (rcv (STACKLINE, b)) k1
        = Ret (16 + int (length p), Some m1, k) \<and>
      src_id m1 = a \<and> dst_id m1 = dst_id m \<and> sig_lqi m1 = lqi \<and> flags m1 = 0 \<and>
      unat (mb_len m1) = length p \<and> take (length p) (buf m1) = p)"
proof -
  define opt where "opt = (if dst_id m \<noteq> 0xffff then TX_OPTION_ACK else TX_OPTION_NONE)"
  define promis where "promis = (if IN_RANGE (uint (src_id m)) 0 n
      then (case get_node_info c (src_id m) of None \<Rightarrow> False | Some ni \<Rightarrow> getPromisMode ni \<noteq> 0) else False)"
  define ps where "ps = \<lparr>m_srcAddrMode = SHORT_ADDR, m_dstAddrMode = SHORT_ADDR, m_dstPanId = pan,
      m_dstAddr = id2addr (dst_id m), m_msduHandle = 0, m_txOptions = (if promis then TX_OPTION_NONE else opt)\<rparr>"
  have len: "unat (mb_len m) = length p" using assms(6,7) by (simp add: of_nat_len)
  have "getDev (int (unat a)) w = Ret True"
    using assms(3,4) by (simp add: getDev_def del: of_nat_unat)
  then have send: "lrwpanSendPacket c (int (unat a)) m w = Ret (SUCCESS, call (McpsDataRequest (unat a) ps p) w)"
    using assms(1,2,5,8,9) len
    by (simp add: lrwpanSendPacket_def Let_def ps_def opt_def promis_def del: of_nat_unat)
  have tx: "m_txOptions ps = TX_OPTION_ACK \<longleftrightarrow> dst_id m \<noteq> 0xffff \<and>
       \<not> (uint (src_id m) < n \<and> (\<exists>ni. get_node_info c (src_id m) = Some ni \<and> getPromisMode ni \<noteq> 0))"
    using uint_u16_range(1) [of "src_id m"]
    by (auto simp: ps_def opt_def promis_def IN_RANGE_def split: option.splits)
  let ?m = "air_msg a (dst_id m) lqi p"
  have o: "uopen uid su cap rcv k (STACKLINE, of_nat (unat b))" using assms(11) by simp
  obtain s1 where ind: "DataIndication uid now (unat b)
        \<lparr>in_src = short_address a, in_dst = m_dstAddr ps, in_lqi = lqi\<rparr> p su s k
      = Ret (s1, usend uid su (STACKLINE, b) ?m k)"
    using DataIndication_sends [OF assms(10) o assms(6), of now a "dst_id m" lqi] by (auto simp: ps_def)
  note fits = air_msg_buf [OF assms(6), of a "dst_id m" lqi]
  have q: "usend uid su (STACKLINE, b) ?m k
      = k\<lparr>k_queue := (k_queue k)(rfd rcv (STACKLINE, b) := [wire (STACKLINE, b) ?m])\<rparr>"
    using usend_queue [OF assms(11) fits(1)] assms(12) by (simp add: upending_def)
  have "cl_recvfrom_q (mt (STACKLINE, b)) (Some m0) (of_nat (16 + cap)) nowait (rcv (STACKLINE, b))
      (usend uid su (STACKLINE, b) ?m k)
    = Ret (16 + int (unat (mb_len ?m)), Some (received (STACKLINE, b) ?m m0),
        (usend uid su (STACKLINE, b) ?m k)\<lparr>k_queue := (k_queue (usend uid su (STACKLINE, b) ?m k))(rfd rcv (STACKLINE, b) := [])\<rparr>)"
    using assms(11,13,14) fits(1) assms(6) by (intro recv_wire) (simp_all add: q of_nat_len)
  moreover have "(usend uid su (STACKLINE, b) ?m k)\<lparr>k_queue :=
      (k_queue (usend uid su (STACKLINE, b) ?m k))(rfd rcv (STACKLINE, b) := [])\<rparr> = k"
    using assms(12) by (simp add: q upending_def fun_upd_idem)
  moreover have "take (length p) (buf (received (STACKLINE, b) ?m m0)) = p"
    using fits assms(6) by (simp add: received_def of_nat_len fits_buf_def min_def)
  ultimately have "cl_recvfrom_q (MTYPE STACKLINE b) (Some m0) (of_nat (16 + cap)) nowait (rcv (STACKLINE, b))
      (usend uid su (STACKLINE, b) ?m k) = Ret (16 + int (length p), Some (received (STACKLINE, b) ?m m0), k)"
    "take (length p) (buf (received (STACKLINE, b) ?m m0)) = p"
    using assms(6) by (simp_all add: of_nat_len)
  with send tx ind assms(6) show ?thesis
    by (intro exI [of _ ps] conjI exI [of _ s1] exI [of _ "usend uid su (STACKLINE, b) ?m k"]
        exI [of _ "received (STACKLINE, b) ?m m0"]) (simp_all add: ps_def of_nat_len)
qed

lemma sized_numOfNodes: "n < 2 ^ 31 \<Longrightarrow> CFG_STOI (sized_config n c) ''numOfNodes'' = Ret (int n)"
  by (simp add: CFG_STOI_def cfg_get_def sized_config_def kv_find_def kv_put_def stoi_dec_nat)

lemma packet_crosses_the_air_witness:
  "\<exists>ps s1 k1 m1. lrwpanSendPacket (sized_config 2 new_config) 1 (air_msg 1 0 0 ''hi'') (demo_net 2)
      = Ret (SUCCESS, call (McpsDataRequest 1 ps ''hi'') (demo_net 2)) \<and> m_txOptions ps = TX_OPTION_ACK \<and>
    DataIndication 0 5 0 \<lparr>in_src = short_address 1, in_dst = m_dstAddr ps, in_lqi = 200\<rparr> ''hi'' demo_all demo_ms
      (demo_at (STACKLINE, 0)) = Ret (s1, k1) \<and>
    cl_recvfrom_q (MTYPE STACKLINE 0) (Some DEFINE_MBUF) (of_nat (16 + 2048)) True demo_all k1
      = Ret (18, Some m1, demo_at (STACKLINE, 0)) \<and> src_id m1 = 1 \<and> take 2 (buf m1) = ''hi''"
proof -
  let ?c = "sized_config 2 new_config" and ?m = "air_msg 1 0 0 ''hi''"
  have ni: "\<forall>ni. get_node_info ?c 1 = Some ni \<longrightarrow> getPromisMode ni = 0"
    by (auto simp: get_node_info_def sized_config_def new_nodeinfo_def getPromisMode_def IN_RANGE_def numeral_2_eq_2)
  have b: "take (length ''hi'') (buf ?m) = ''hi''" by (rule air_msg_buf(2)) simp
  have l: "length ''hi'' \<le> length (buf ?m)"
    using air_msg_buf(1) [of "''hi''" 1 0 0] by (simp add: fits_buf_def)
  obtain ps where ps: "lrwpanSendPacket ?c (int (unat (1::u16))) ?m (demo_net 2)
      = Ret (SUCCESS, call (McpsDataRequest (unat (1::u16)) ps ''hi'') (demo_net 2))"
    "m_txOptions ps = TX_OPTION_ACK \<longleftrightarrow> dst_id ?m \<noteq> 0xffff \<and>
       \<not> (uint (src_id ?m) < int 2 \<and> (\<exists>ni. get_node_info ?c (src_id ?m) = Some ni \<and> getPromisMode ni \<noteq> 0))"
    "\<exists>s1 k1 m1. DataIndication 0 5 (unat (0::u16))
        \<lparr>in_src = short_address 1, in_dst = m_dstAddr ps, in_lqi = 200\<rparr> ''hi'' demo_all demo_ms (demo_at (STACKLINE, 0)) = Ret (s1, k1) \<and>
      cl_recvfrom_q (MTYPE STACKLINE 0) (Some DEFINE_MBUF) (of_nat (16 + 2048)) True demo_all k1
        = Ret (16 + int (length ''hi''), Some m1, demo_at (STACKLINE, 0)) \<and>
      src_id m1 = 1 \<and> dst_id m1 = dst_id ?m \<and> sig_lqi m1 = 200 \<and> flags m1 = 0 \<and>
      unat (mb_len m1) = length ''hi'' \<and> take (length ''hi'') (buf m1) = ''hi''"
    using packet_crosses_the_air [OF sized_numOfNodes demo_cfg_ints(1), of 2 1 "demo_net 2" ?m "''hi''" demo_ms 0
        demo_all 2048 "\<lambda>_. demo_all" "demo_at (STACKLINE, 0)" 0 DEFINE_MBUF 5 200 True]
      demo_ms_ok demo_open_at [of "(STACKLINE, 0)"] b l
    by (auto simp: demo_net_def has_flag_def)
  have "m_txOptions ps = TX_OPTION_ACK" using ps(2) ni by auto
  moreover have "length ''hi'' = 2" by simp
  ultimately show ?thesis using ps(1,3) by (intro exI [of _ ps]) (auto simp del: list.size)
qed

text \<open>
  C14: A confirmation reaches the sender's stackline as an acknowledgement with the status of the
  MAC and, when it was acknowledged, the number of attempts, and it is counted for the sender; the
  confirmation of a broadcast is dropped without a message or a count.
\<close>

theorem confirmation_reaches_sender:
  assumes "ms_ok s" "uopen uid su cap rcv k (STACKLINE, i)" "upending rcv k (STACKLINE, i) = []"
    and "unat i < length (nodeArray (cfg s))" "length (buf m0) = cap + 1" "d \<noteq> 0xffff"
  shows "DataConfirm uid now (unat i) \<lparr>cf_dst = id2addr 0xffff, cf_status = st, cf_retries = r\<rparr> su s k = Ret (s, k) \<and>
    (\<exists>s1 k1 m1.
      DataConfirm uid now (unat i) \<lparr>cf_dst = id2addr d, cf_status = st, cf_retries = r\<rparr> su s k = Ret (s1, k1) \<and>
      cl_recvfrom_q (MTYPE STACKLINE i) (Some m0) (of_nat (16 + cap)) nowait (rcv (STACKLINE, i)) k1 = Ret (16, Some m1, k) \<and>
      src_id m1 = i \<and> dst_id m1 = d \<and> flags m1 = MBUF_IS_ACK \<and>
      ack_status m1 = status_code (wf_ack_status st) \<and>
      ack_retries m1 = (if wf_ack_status st = WF_STATUS_ACK_OK then of_nat r + 1 else 0) \<and>
      stats (nodeArray (cfg s1) ! unat i) = set_rx_stats m1 (stats (nodeArray (cfg s) ! unat i)))"
proof (intro conjI)
  show "DataConfirm uid now (unat i) \<lparr>cf_dst = id2addr 0xffff, cf_status = st, cf_retries = r\<rparr> su s k = Ret (s, k)"
    by (simp add: DataConfirm_def short.dec_enc)
  let ?a = "(STACKLINE, i)"
  define m where "m = DEFINE_MBUF\<lparr>src_id := i, dst_id := d, info1 := status_code (wf_ack_status st),
      info0 := (if wf_ack_status st = WF_STATUS_ACK_OK then word_of_int (int r + 1) else 0),
      flags := 0 OR MBUF_IS_ACK, mb_len := 1\<rparr>"
  let ?m = "m\<lparr>mb_mtype := word_of_int (mt ?a)\<rparr>"
  define k1 where "k1 = k\<lparr>k_queue := (k_queue k)(rfd rcv ?a := [take 16 (mem ?m)])\<rparr>"
  define m1 where "m1 = ?m\<lparr>buf := take 1 (buf m) @ drop 1 (buf m0)\<rparr>"
  obtain s1 where s1: "set_stats now AL_RX m s = Ret s1" using set_stats_eq [OF assms(1)] by blast
  have len: "length (mem m) = 2064" "length (mem ?m) = 2064" by (simp_all add: m_def length_mem)
  have q: "k_queue k (rfd rcv ?a) = []" using assms(3) by (simp add: upending_def)
  have "cl_sendto_q uid (mt ?a) (Some m) 16 su k = Ret (SUCCESS, Some ?m, k1)"
    using sendto_len [OF assms(2), of 16 m] len q by (simp add: k1_def)
  then have "SendAckToStackline uid now i d (wf_ack_status st) (int r + 1) su s k = Ret (s1, k1)"
    unfolding SendAckToStackline_def m_def [symmetric] Let_def s1 sizeof_msg_buf_def by simp
  then have conf: "DataConfirm uid now (unat i) \<lparr>cf_dst = id2addr d, cf_status = st, cf_retries = r\<rparr> su s k = Ret (s1, k1)"
    using assms(6) by (simp add: DataConfirm_def short.dec_enc)
  have "uopen uid su cap rcv k1 ?a" using assms(2) by (simp add: k1_def)
  moreover have "k_queue k1 (rfd rcv ?a) = take 16 (mem ?m) # []" by (simp add: k1_def)
  moreover have "k1\<lparr>k_queue := (k_queue k1)(rfd rcv ?a := [])\<rparr> = k" using q by (simp add: k1_def fun_upd_idem)
  ultimately have recv: "cl_recvfrom_q (MTYPE STACKLINE i) (Some m0) (of_nat (16 + cap)) nowait (rcv ?a) k1 = Ret (16, Some m1, k)"
    using recv_len [of uid su cap rcv k1 ?a 16 ?m "[]" m0 nowait] len assms(5) by (simp add: m1_def)
  have "set_rx_stats m1 = set_rx_stats m"
    by (rule ext) (simp add: set_rx_stats_def has_flag_def m1_def)
  then have "stats (nodeArray (cfg s1) ! unat i) = set_rx_stats m1 (stats (nodeArray (cfg s) ! unat i))"
    using ms_ok_set_stats [OF assms(1) s1] assms(4) by (simp add: m_def)
  moreover have "(word_of_int (int r + 1) :: u8) = of_nat r + 1" by simp
  ultimately show "\<exists>s1 k1 m1.
      DataConfirm uid now (unat i) \<lparr>cf_dst = id2addr d, cf_status = st, cf_retries = r\<rparr> su s k = Ret (s1, k1) \<and>
      cl_recvfrom_q (MTYPE STACKLINE i) (Some m0) (of_nat (16 + cap)) nowait (rcv (STACKLINE, i)) k1 = Ret (16, Some m1, k) \<and>
      src_id m1 = i \<and> dst_id m1 = d \<and> flags m1 = MBUF_IS_ACK \<and>
      ack_status m1 = status_code (wf_ack_status st) \<and>
      ack_retries m1 = (if wf_ack_status st = WF_STATUS_ACK_OK then of_nat r + 1 else 0) \<and>
      stats (nodeArray (cfg s1) ! unat i) = set_rx_stats m1 (stats (nodeArray (cfg s) ! unat i))"
    using conf recv by (intro exI [of _ s1] exI [of _ k1] exI [of _ m1] conjI) (simp_all add: m1_def m_def)
qed

lemma confirmation_reaches_sender_witness:
  "\<exists>s1 k1 m1. DataConfirm 0 5 1 \<lparr>cf_dst = id2addr 0, cf_status = IEEE_802_15_4_NO_ACK, cf_retries = 3\<rparr>
      demo_all demo_ms (demo_at (STACKLINE, 1)) = Ret (s1, k1) \<and>
    cl_recvfrom_q (MTYPE STACKLINE 1) (Some DEFINE_MBUF) (of_nat (16 + 2048)) True demo_all k1
      = Ret (16, Some m1, demo_at (STACKLINE, 1)) \<and> ack_status m1 = 1 \<and>
    tx_fail (stats (nodeArray (cfg s1) ! 1)) = 1"
proof -
  have n: "unat (1::u16) < length (nodeArray (cfg demo_ms))" "stats (nodeArray (cfg demo_ms) ! 1) = zero_stats"
    by (simp_all add: demo_ms_def sized_config_def new_nodeinfo_def)
  have "\<exists>s1 k1 m1. DataConfirm 0 5 (unat (1::u16)) \<lparr>cf_dst = id2addr 0, cf_status = IEEE_802_15_4_NO_ACK, cf_retries = 3\<rparr>
      demo_all demo_ms (demo_at (STACKLINE, 1)) = Ret (s1, k1) \<and>
    cl_recvfrom_q (MTYPE STACKLINE 1) (Some DEFINE_MBUF) (of_nat (16 + 2048)) True demo_all k1
      = Ret (16, Some m1, demo_at (STACKLINE, 1)) \<and> src_id m1 = 1 \<and> dst_id m1 = 0 \<and> flags m1 = MBUF_IS_ACK \<and>
      ack_status m1 = status_code (wf_ack_status IEEE_802_15_4_NO_ACK) \<and>
      ack_retries m1 = (if wf_ack_status IEEE_802_15_4_NO_ACK = WF_STATUS_ACK_OK then of_nat 3 + 1 else 0) \<and>
      stats (nodeArray (cfg s1) ! unat (1::u16)) = set_rx_stats m1 (stats (nodeArray (cfg demo_ms) ! unat (1::u16)))"
    using confirmation_reaches_sender [OF demo_ms_ok demo_open_at [of "(STACKLINE, 1)"], of DEFINE_MBUF 0 5 IEEE_802_15_4_NO_ACK 3 True] n
    by simp
  then show ?thesis
    using n apply (elim exE conjE)
    subgoal for s1 k1 m1
      by (intro exI [of _ s1] exI [of _ k1] exI [of _ m1])
        (simp add: set_rx_stats_def has_flag_def MBUF_IS_ACK_def MBUF_IS_CMD_def zero_stats_def)
    done
qed

end
