(* ===== verification/Plc_Iface.thy ===== *)
theory Plc_Iface
  imports Lrwpan_Iface
begin

text \<open>
  \<open>airline/NS3/PowerLineCommHandler.cc\<close> and \<open>PLCIface.cc\<close>: the power-line interface.  Cables,
  spectrum models, nodes and outlets of the simulator are recorded as the calls that create
  them; the positions of the nodes and the parser of MAC addresses are parameters.
\<close>

section \<open>State\<close>

datatype spectrum = Narrowband | Wideband | G3 | Current_Model

datatype plc_call =
    PlcOutlet nat "rat option"
  | PlcAddNode nat "rat \<times> rat \<times> rat" string
  | PlcLine nat nat string
  | PlcDeviceSetup spectrum rat
  | PlcInitChannel
  | PlcCallbacks nat
  | PlcEnableLog string

record plc =
  plcNodes :: "nat list"
  plc_devs :: "string list"
  plc_log :: "plc_call list"

definition pcall :: "plc_call \<Rightarrow> plc \<Rightarrow> plc" where
  "pcall x p = p\<lparr>plc_log := plc_log p @ [x]\<rparr>"

lemma pcall_fields [simp]: "plcNodes (pcall x p) = plcNodes p" "plc_devs (pcall x p) = plc_devs p"
  "plc_log (pcall x p) = plc_log p @ [x]"
  by (simp_all add: pcall_def)

section \<open>Names\<close>

definition getDevName :: "u16 \<Rightarrow> string" where
  "getDevName i = ''node'' @ dec_int (uint i)"

definition plcGetSpectrumModel :: "string \<Rightarrow> spectrum option" where
  "plcGetSpectrumModel str =
     (if str = ''narrowband'' then Some Narrowband
      else if str = [] then Some Wideband
      else if str = ''G3'' then Some G3 else None)"

definition plcGetCable :: "string \<Rightarrow> string option" where
  "plcGetCable cableStr =
     (if cableStr = ''AL3x95XLPE'' then Some ''PLC_AL3x95XLPE_Cable''
      else if cableStr = ''NYCY70SM35'' then Some ''PLC_NYCY70SM35_Cable''
      else if cableStr = ''NAYY50SE'' then Some ''PLC_NAYY50SE_Cable''
      else if cableStr = ''MV_Overhead'' then Some ''PLC_MV_Overhead_Cable''
      else if cableStr = ''NAYY150SE'' then Some ''PLC_NAYY150SE_Cable''
      else if cableStr = [] then Some ''PLC_NAYY150SE_Cable''
      else None)"

section \<open>Nodes and links\<close>

definition plcConnectLink :: "nat \<Rightarrow> nat \<Rightarrow> string \<Rightarrow> plc \<Rightarrow> (int \<times> plc) outcome" where
  "plcConnectLink i1 i2 cableStr p =
     (if i1 \<ge> length (plcNodes p) \<or> i2 \<ge> length (plcNodes p) then Fault Out_Of_Bounds
      else case plcGetCable cableStr of
             None \<Rightarrow> Ret (FAILURE, p)
           | Some cable \<Rightarrow> Ret (SUCCESS, pcall (PlcLine i1 i2 cable) p))"

definition getTxPsd :: "config \<Rightarrow> rat outcome" where
  "getTxPsd c = (let s = cfg_get c ''plc_tx_psd'' in
     case stod (if s = [] then ''1e-8'' else s) of None \<Rightarrow> Fault Exception | Some v \<Rightarrow> Ret v)"

definition plcAddOutlet :: "config \<Rightarrow> nat \<Rightarrow> plc \<Rightarrow> plc outcome" where
  "plcAddOutlet c i p = (let outletimp = getNodeCfg c (of_nat i) ''plc_outlet_impedance''
     in if outletimp = [] then Ret (pcall (PlcOutlet i None) p)
        else case stod outletimp of None \<Rightarrow> Fault Exception
             | Some z \<Rightarrow> Ret (pcall (PlcOutlet i (Some z)) p))"

definition plcAddNode ::
  "config \<Rightarrow> (nat \<Rightarrow> (rat \<times> rat \<times> rat) option) \<Rightarrow> nat \<Rightarrow> plc \<Rightarrow> (int \<times> plc) outcome" where
  "plcAddNode c mob i p = (case mob i of
     None \<Rightarrow> Ret (FAILURE, p)
   | Some (x, y, z) \<Rightarrow>
       bindo (plcAddOutlet c i p) (\<lambda>p1.
       Ret (SUCCESS, (pcall (PlcAddNode i (x * 100, y * 100, z * 100) (getDevName (of_nat i))) p1)
                       \<lparr>plcNodes := plcNodes p1 @ [i]\<rparr>)))"

fun plcAddNodes ::
  "config \<Rightarrow> (nat \<Rightarrow> (rat \<times> rat \<times> rat) option) \<Rightarrow> nat list \<Rightarrow> plc \<Rightarrow> (int \<times> plc) outcome" where
  "plcAddNodes c mob [] p = Ret (SUCCESS, p)"
| "plcAddNodes c mob (i # is) p =
     bindo (plcAddNode c mob i p) (\<lambda>(r, p1).
       if r \<noteq> SUCCESS then Ret (FAILURE, p1) else plcAddNodes c mob is p1)"

text \<open>One node's \<open>plc_link\<close>: the other node and, optionally, the cable.\<close>

definition plcLinkNode :: "config \<Rightarrow> int \<Rightarrow> nat \<Rightarrow> plc \<Rightarrow> (int \<times> plc) outcome" where
  "plcLinkNode c numNodes i p =
     (let plc_link = getNodeCfg c (of_nat i) ''plc_link''
      in if plc_link = [] then Ret (SUCCESS, p)
         else let arr = split_tokens (CHR '','') plc_link
              in if length arr < 1 then Ret (FAILURE, p)
                 else case stoi (arr ! 0) of
                        None \<Rightarrow> Fault Exception
                      | Some v \<Rightarrow>
                          let j = (word_of_int v :: u16)
                          in if \<not> IN_RANGE (uint j) 0 numNodes then Ret (FAILURE, p)
                             else plcConnectLink i (unat j) (if length arr > 1 then arr ! 1 else ''NAYY150SE'') p)"

fun plcLinkNodes :: "config \<Rightarrow> int \<Rightarrow> nat list \<Rightarrow> plc \<Rightarrow> (int \<times> plc) outcome" where
  "plcLinkNodes c numNodes [] p = Ret (SUCCESS, p)"
| "plcLinkNodes c numNodes (i # is) p =
     bindo (plcLinkNode c numNodes i p) (\<lambda>(r, p1).
       if r \<noteq> SUCCESS then Ret (FAILURE, p1) else plcLinkNodes c numNodes is p1)"

text \<open>Every device of the map by its name; an unknown name inserts a null device and fails.\<close>

fun plcConfigAllNodes :: "nat list \<Rightarrow> plc \<Rightarrow> (int \<times> plc) outcome" where
  "plcConfigAllNodes [] p = Ret (SUCCESS, p)"
| "plcConfigAllNodes (i # is) p =
     (if getDevName (of_nat i) \<in> set (plc_devs p) then plcConfigAllNodes is (pcall (PlcCallbacks i) p)
      else Ret (FAILURE, p))"

definition plcEnableLog :: "config \<Rightarrow> plc \<Rightarrow> plc" where
  "plcEnableLog c p = fold (\<lambda>m. pcall (PlcEnableLog m)) (split_tokens (CHR '','') (cfg_get c ''plc_log_enable'')) p"

text \<open>
  The loop counter is 16 bits wide and compared with an \<open>int\<close>: it never reaches 65536 nodes.
  The device helper of the simulator creates one device per node, under the node's name.
\<close>

definition plcInstall ::
  "config \<Rightarrow> (nat \<Rightarrow> (rat \<times> rat \<times> rat) option) \<Rightarrow> plc \<Rightarrow> (int \<times> plc) outcome" where
  "plcInstall c mob p =
     bindo (CFG_STOI c ''numOfNodes'') (\<lambda>numNodes.
       let p1 = plcEnableLog c p
       in case plcGetSpectrumModel (cfg_get c ''plc_spectrum_model'') of
            None \<Rightarrow> Ret (FAILURE, p1)
          | Some sm \<Rightarrow>
              if numNodes > 65535 then Blocked
              else
                bindo (plcAddNodes c mob [0..<nat numNodes] p1) (\<lambda>(r, p2).
                  if r \<noteq> SUCCESS then Ret (FAILURE, p2)
                  else bindo (plcLinkNodes c numNodes [0..<nat numNodes] p2) (\<lambda>(r, p3).
                    if r \<noteq> SUCCESS then Ret (FAILURE, p3)
                    else bindo (getTxPsd c) (\<lambda>psd.
                      let p4 = pcall PlcInitChannel (pcall (PlcDeviceSetup sm psd)
                                 (p3\<lparr>plc_devs := map (\<lambda>i. getDevName (of_nat i)) (plcNodes p3)\<rparr>))
                      in plcConfigAllNodes [0..<length (plc_devs p4)] p4))))"

section \<open>Sending and receiving\<close>

definition plcSetAddress :: "int \<Rightarrow> char list \<Rightarrow> int \<Rightarrow> ns3 \<Rightarrow> plc \<Rightarrow> (int \<times> ns3) outcome" where
  "plcSetAddress i b sz w p =
     (if sz \<noteq> 6 then Ret (FAILURE, w)
      else if getDevName (word_of_int i) \<in> set (plc_devs p) then Ret (SUCCESS, call (SetPlcAddress (nat i) (take 6 b)) w)
      else Fault Out_Of_Bounds)"

definition plcSendPacket :: "(string \<Rightarrow> mac48) \<Rightarrow> int \<Rightarrow> msg_buf \<Rightarrow> ns3 \<Rightarrow> (int \<times> ns3) outcome" where
  "plcSendPacket parse i m w =
     (if length (buf m) < unat (mb_len m) then Fault Out_Of_Bounds
      else Ret (SUCCESS, call (PlcSend (nat i) (getMacAddress parse (dst_id m))
                                (take (unat (mb_len m)) (buf m))) w))"

definition plcHandleAck ::
  "u32 \<Rightarrow> int \<Rightarrow> u16 \<Rightarrow> nat \<Rightarrow> mac48 \<Rightarrow> usock \<Rightarrow> macstats \<Rightarrow> kernel \<Rightarrow> (macstats \<times> kernel) outcome" where
  "plcHandleAck uid now i retries rcv u s k =
     SendAckToStackline uid now i (getIdFromMacAddr rcv) WF_STATUS_ACK_OK (int retries + 1) u s k"

definition plcHandleTxFail ::
  "u32 \<Rightarrow> int \<Rightarrow> u16 \<Rightarrow> mac48 \<Rightarrow> usock \<Rightarrow> macstats \<Rightarrow> kernel \<Rightarrow> (macstats \<times> kernel) outcome" where
  "plcHandleTxFail uid now i rcvr u s k =
     SendAckToStackline uid now i (getIdFromMacAddr rcvr) WF_STATUS_NO_ACK 0 u s k"

text \<open>The simulator's packet has eight bytes in front of the data.\<close>

definition plcHandleData ::
  "u32 \<Rightarrow> int \<Rightarrow> u16 \<Rightarrow> char list \<Rightarrow> mac48 \<Rightarrow> mac48 \<Rightarrow> usock \<Rightarrow> macstats \<Rightarrow> kernel \<Rightarrow> (macstats \<times> kernel) outcome" where
  "plcHandleData uid now i pin sndr rcvr u s k =
     (if length pin < 8 then Fault Out_Of_Bounds
      else let p = drop 8 pin
           in if length p \<ge> COMMLINE_MAX_BUF then Ret (s, k)
              else let m = (put_buf p DEFINE_MBUF)\<lparr>mb_len := of_nat (length p), src_id := getIdFromMacAddr sndr,
                             dst_id := getIdFromMacAddr rcvr, info0 := 0, info1 := 0\<rparr>
                   in SendPacketToStackline uid now i m u s k)"

section \<open>What a configuration means\<close>

text \<open>The link a node asks for, and when it is usable.\<close>

definition link_of :: "config \<Rightarrow> int \<Rightarrow> nat \<Rightarrow> (nat \<times> string) option option" where
  \<comment> \<open>\<open>None\<close>: unusable; \<open>Some None\<close>: no link asked for\<close>
  "link_of c n i = (let arr = split_tokens (CHR '','') (getNodeCfg c (of_nat i) ''plc_link'') in
     if arr = [] then Some None
     else case stoi (arr ! 0) of
            None \<Rightarrow> None
          | Some v \<Rightarrow> let j = uint (word_of_int v :: u16) in
              if j < n then map_option (\<lambda>cable. Some (nat j, cable)) (plcGetCable (if length arr > 1 then arr ! 1 else ''NAYY150SE''))
              else None)"

definition link_calls :: "config \<Rightarrow> int \<Rightarrow> nat \<Rightarrow> plc_call list" where
  "link_calls c n i = (case link_of c n i of Some (Some (j, cable)) \<Rightarrow> [PlcLine i j cable] | _ \<Rightarrow> [])"

lemma split_tokens_nonempty: "s \<noteq> [] \<Longrightarrow> split_tokens d s \<noteq> []"
  by (subst split_tokens.simps) (auto split: prod.split option.split)

lemma plcLinkNode_ok:
  assumes "link_of c n i \<noteq> None" "length (plcNodes p) = nat n" "int i < n"
  shows "plcLinkNode c n i p = Ret (SUCCESS, p\<lparr>plc_log := plc_log p @ link_calls c n i\<rparr>)"
proof (cases "getNodeCfg c (of_nat i) ''plc_link'' = []")
  case True
  then show ?thesis by (simp add: plcLinkNode_def link_calls_def link_of_def)
next
  case False
  let ?arr = "split_tokens (CHR '','') (getNodeCfg c (of_nat i) ''plc_link'')"
  have ne: "?arr \<noteq> []" using False by (rule split_tokens_nonempty)
  with assms(1) obtain v cable where v: "stoi (?arr ! 0) = Some v" "uint (word_of_int v :: u16) < n"
    "plcGetCable (if length ?arr > 1 then ?arr ! 1 else ''NAYY150SE'') = Some cable"
    unfolding link_of_def Let_def by (auto split: option.splits if_splits)
  then have "link_calls c n i = [PlcLine i (nat (uint (word_of_int v :: u16))) cable]"
    using ne by (simp add: link_calls_def link_of_def Let_def)
  moreover have "unat (word_of_int v :: u16) < nat n" using v(2) uint_nat [of "word_of_int v :: u16"] by linarith
  moreover have "Suc 0 \<le> length ?arr" using ne by (cases ?arr) auto
  moreover have "i < nat n" using assms(3) by linarith
  ultimately show ?thesis
    using False ne v assms(2,3) uint_u16_range(1) [of "word_of_int v"]
    by (simp add: plcLinkNode_def Let_def IN_RANGE_def plcConnectLink_def pcall_def not_le not_less)
qed

lemma plcLinkNodes_ok:
  "\<lbrakk>\<forall>i \<in> set is. link_of c n i \<noteq> None \<and> int i < n; length (plcNodes p) = nat n\<rbrakk> \<Longrightarrow>
   plcLinkNodes c n is p = Ret (SUCCESS, p\<lparr>plc_log := plc_log p @ concat (map (link_calls c n) is)\<rparr>)"
  by (induction "is" arbitrary: p) (simp_all add: plcLinkNode_ok)

lemma plcLinkNode_bad:
  assumes "link_of c n i = None" "length (plcNodes p) = nat n" "int i < n"
  shows "plcLinkNode c n i p = Ret (FAILURE, p) \<or> plcLinkNode c n i p = Fault Exception"
proof -
  let ?arr = "split_tokens (CHR '','') (getNodeCfg c (of_nat i) ''plc_link'')"
  have ne: "getNodeCfg c (of_nat i) ''plc_link'' \<noteq> []" "?arr \<noteq> []"
    using assms(1) by (auto simp: link_of_def)
  show ?thesis
  proof (cases "stoi (?arr ! 0)")
    case None
    with ne show ?thesis by (simp add: plcLinkNode_def Let_def)
  next
    case (Some v)
    show ?thesis
    proof (cases "uint (word_of_int v :: u16) < n")
      case False
      with ne Some show ?thesis by (simp add: plcLinkNode_def Let_def IN_RANGE_def)
    next
      case True
      then have u: "unat (word_of_int v :: u16) < nat n" using uint_nat [of "word_of_int v :: u16"] by linarith
      have "plcGetCable (if length ?arr > 1 then ?arr ! 1 else ''NAYY150SE'') = None"
        using assms(1) ne Some True by (auto simp: link_of_def Let_def)
      moreover have "Suc 0 \<le> length ?arr" using ne by (cases ?arr) auto
      moreover have "i < nat n" using assms(3) by linarith
      ultimately show ?thesis
        using ne Some True u assms(2,3) uint_u16_range(1) [of "word_of_int v"]
        by (simp add: plcLinkNode_def Let_def IN_RANGE_def plcConnectLink_def not_le not_less)
    qed
  qed
qed

definition outlet_of :: "config \<Rightarrow> nat \<Rightarrow> rat option option" where
  \<comment> \<open>\<open>None\<close>: not a number; \<open>Some None\<close>: no impedance configured\<close>
  "outlet_of c i = (let s = getNodeCfg c (of_nat i) ''plc_outlet_impedance'' in
     if s = [] then Some None else map_option Some (stod s))"

definition node_plc_calls :: "config \<Rightarrow> (nat \<Rightarrow> (rat \<times> rat \<times> rat) option) \<Rightarrow> nat \<Rightarrow> plc_call list" where
  "node_plc_calls c mob i = (case (mob i, outlet_of c i) of
     (Some (x, y, z), Some z0) \<Rightarrow>
       [PlcOutlet i z0, PlcAddNode i (x * 100, y * 100, z * 100) (getDevName (of_nat i))]
   | _ \<Rightarrow> [])"

lemma plcAddNodes_ok:
  "\<forall>i \<in> set is. mob i \<noteq> None \<and> outlet_of c i \<noteq> None \<Longrightarrow>
   plcAddNodes c mob is p = Ret (SUCCESS, p\<lparr>plcNodes := plcNodes p @ is,
     plc_log := plc_log p @ concat (map (node_plc_calls c mob) is)\<rparr>)"
proof (induction "is" arbitrary: p)
  case (Cons i "is")
  then obtain x y z z0 where m: "mob i = Some (x, y, z)" "outlet_of c i = Some z0" by force
  then have "plcAddNode c mob i p = Ret (SUCCESS, p\<lparr>plcNodes := plcNodes p @ [i],
      plc_log := plc_log p @ node_plc_calls c mob i\<rparr>)"
    by (auto simp: plcAddNode_def plcAddOutlet_def outlet_of_def node_plc_calls_def pcall_def Let_def
        split: if_splits)
  with Cons show ?case by simp
qed simp

lemma plcConfigAllNodes_ok:
  "\<forall>i \<in> set is. getDevName (of_nat i) \<in> set (plc_devs p) \<Longrightarrow>
   plcConfigAllNodes is p = Ret (SUCCESS, p\<lparr>plc_log := plc_log p @ map PlcCallbacks is\<rparr>)"
  by (induction "is" arbitrary: p) (simp_all add: pcall_def)

lemma plcEnableLog_fields [simp]: "plcNodes (plcEnableLog c p) = plcNodes p"
proof -
  have "plcNodes (fold (\<lambda>m. pcall (PlcEnableLog m)) ms p) = plcNodes p" for ms
    by (induction ms arbitrary: p) simp_all
  then show ?thesis by (simp add: plcEnableLog_def)
qed

section \<open>The properties\<close>

text \<open>
  C17: When every node has a position, a parsable impedance and a usable link, installing the
  power-line network succeeds and builds exactly the configured graph: one outlet and one node per
  id at its position in centimetres, one line per configured link with its cable, one device
  set-up, and the callbacks of every node bound to its own id.
\<close>

theorem plc_install_builds_graph:
  assumes "CFG_STOI c ''numOfNodes'' = Ret n" "0 \<le> n" "n \<le> 65535"
    and "plcGetSpectrumModel (cfg_get c ''plc_spectrum_model'') = Some sm" "getTxPsd c = Ret psd"
    and "\<forall>i < nat n. mob i \<noteq> None \<and> outlet_of c i \<noteq> None \<and> link_of c n i \<noteq> None" "plcNodes p = []"
  shows "\<exists>p'. plcInstall c mob p = Ret (SUCCESS, p') \<and> plcNodes p' = [0..<nat n] \<and>
    plc_log p' = plc_log (plcEnableLog c p) @ concat (map (node_plc_calls c mob) [0..<nat n]) @
      concat (map (link_calls c n) [0..<nat n]) @ [PlcDeviceSetup sm psd, PlcInitChannel] @
      map PlcCallbacks [0..<nat n]"
proof -
  define p1 where "p1 = (plcEnableLog c p)\<lparr>plcNodes := [0..<nat n],
    plc_log := plc_log (plcEnableLog c p) @ concat (map (node_plc_calls c mob) [0..<nat n])\<rparr>"
  define p2 where "p2 = p1\<lparr>plc_log := plc_log p1 @ concat (map (link_calls c n) [0..<nat n])\<rparr>"
  define p3 where "p3 = pcall PlcInitChannel (pcall (PlcDeviceSetup sm psd)
    (p2\<lparr>plc_devs := map (\<lambda>i. getDevName (of_nat i)) (plcNodes p2)\<rparr>))"
  have add: "plcAddNodes c mob [0..<nat n] (plcEnableLog c p) = Ret (SUCCESS, p1)"
    using plcAddNodes_ok [of "[0..<nat n]" mob c "plcEnableLog c p"] assms(6,7) by (simp add: p1_def)
  have link: "plcLinkNodes c n [0..<nat n] p1 = Ret (SUCCESS, p2)"
  proof -
    have "\<forall>i \<in> set [0..<nat n]. link_of c n i \<noteq> None \<and> int i < n" using assms(6) by auto
    from plcLinkNodes_ok [OF this, of p1] show ?thesis by (simp add: p1_def p2_def)
  qed
  have devs: "plc_devs p3 = map (\<lambda>i. getDevName (of_nat i)) [0..<nat n]" by (simp add: p3_def p2_def p1_def)
  have "plcConfigAllNodes [0..<length (plc_devs p3)] p3 = Ret (SUCCESS, p3\<lparr>plc_log := plc_log p3 @ map PlcCallbacks [0..<nat n]\<rparr>)"
    using plcConfigAllNodes_ok [of "[0..<nat n]" p3] by (auto simp: devs)
  with add link assms(1-5) show ?thesis
    by (simp add: plcInstall_def Let_def p3_def [symmetric]) (simp add: p3_def p2_def p1_def)
qed

definition demo_plc_cfg :: config where
  "demo_plc_cfg = (sized_config 2 new_config)\<lparr>nodeArray :=
     [setkv ''plc_link'' ''1,NAYY50SE'' new_nodeinfo, new_nodeinfo]\<rparr>"

lemma demo_plc_get:
  "getNodeCfg demo_plc_cfg 0 k = (if lower k = lower ''plc_link'' then ''1,NAYY50SE'' else [])"
  "getNodeCfg demo_plc_cfg 1 k = []"
proof -
  have "config_ok demo_plc_cfg" by (simp add: config_ok_def demo_plc_cfg_def sized_config_def)
  then show "getNodeCfg demo_plc_cfg 0 k = (if lower k = lower ''plc_link'' then ''1,NAYY50SE'' else [])"
    "getNodeCfg demo_plc_cfg 1 k = []"
    by (simp_all add: getNodeCfg_def get_node_info_eq demo_plc_cfg_def getkv_def setkv_def kv_find_def kv_put_def
        new_nodeinfo_def del: lower_simps)
qed

lemma plc_install_builds_graph_witness:
  "\<exists>p'. plcInstall demo_plc_cfg (\<lambda>_. Some (1, 2, 0)) \<lparr>plcNodes = [], plc_devs = [], plc_log = []\<rparr> = Ret (SUCCESS, p') \<and>
     PlcLine 0 1 ''PLC_NAYY50SE_Cable'' \<in> set (plc_log p') \<and> PlcCallbacks 1 \<in> set (plc_log p')"
proof -
  let ?c = demo_plc_cfg
  have g: "cfg_get ?c k = (if lower k = lower ''numOfNodes'' then ''2'' else [])" for k
  proof -
    have "dec_nat 2 = ''2''" by code_simp
    then show ?thesis
      by (simp add: cfg_get_def demo_plc_cfg_def sized_config_def new_config_def kv_find_def kv_put_def del: lower_simps)
  qed
  have l: "lower ''plc_spectrum_model'' \<noteq> lower ''numOfNodes''" "lower ''plc_tx_psd'' \<noteq> lower ''numOfNodes''"
    "lower ''plc_outlet_impedance'' \<noteq> lower ''plc_link''"
    by code_simp+
  have s: "stoi ''2'' = Some 2" "stoi ''1'' = Some 1" "split_tokens (CHR '','') ''1,NAYY50SE'' = [''1'', ''NAYY50SE'']"
    "\<exists>v. stod ''1e-8'' = Some v"
    by (code_simp, code_simp, code_simp)
      (simp add: stod_def sign_split_def isspace_def isdigit_def tolower_def Let_def)
  obtain psd where psd: "stod ''1e-8'' = Some psd" using s(4) by blast
  have link: "link_of ?c 2 0 = Some (Some (1, ''PLC_NAYY50SE_Cable''))" "link_of ?c 2 (Suc 0) = Some None"
    by (simp_all add: link_of_def demo_plc_get s Let_def plcGetCable_def del: lower_simps)
  have "\<forall>i < nat 2. (\<lambda>_. Some (1, 2, 0)) i \<noteq> None \<and> outlet_of ?c i \<noteq> None \<and> link_of ?c 2 i \<noteq> None"
    using l by (auto simp: numeral_2_eq_2 less_Suc_eq link outlet_of_def demo_plc_get simp del: lower_simps)
  moreover have "CFG_STOI ?c ''numOfNodes'' = Ret 2" by (simp add: CFG_STOI_def g s del: lower_simps)
  moreover have "plcGetSpectrumModel (cfg_get ?c ''plc_spectrum_model'') = Some Wideband"
    using l by (simp add: g plcGetSpectrumModel_def del: lower_simps)
  moreover have "getTxPsd ?c = Ret psd" using l psd by (simp add: getTxPsd_def g del: lower_simps)
  ultimately obtain p' where p': "plcInstall ?c (\<lambda>_. Some (1, 2, 0)) \<lparr>plcNodes = [], plc_devs = [], plc_log = []\<rparr> = Ret (SUCCESS, p')"
    "plc_log p' = plc_log (plcEnableLog ?c \<lparr>plcNodes = [], plc_devs = [], plc_log = []\<rparr>) @
      concat (map (node_plc_calls ?c (\<lambda>_. Some (1, 2, 0))) [0..<nat 2]) @
      concat (map (link_calls ?c 2) [0..<nat 2]) @ [PlcDeviceSetup Wideband psd, PlcInitChannel] @
      map PlcCallbacks [0..<nat 2]"
    using plc_install_builds_graph [of ?c 2 Wideband psd "\<lambda>_. Some (1, 2, 0)" "\<lparr>plcNodes = [], plc_devs = [], plc_log = []\<rparr>"]
    by auto
  have "PlcLine 0 1 ''PLC_NAYY50SE_Cable'' \<in> set (concat (map (link_calls ?c 2) [0..<nat 2]))"
    by (auto simp: link_calls_def link intro!: bexI [of _ 0])
  with p' show ?thesis by auto
qed

text \<open>
  C22: A power-line packet is delivered with the ids of both ends and its payload unchanged, provided
  the addresses belong to nodes below \<open>0xff00\<close> (or the destination is the broadcast address).  The
  simulator assigns the addresses; \<open>a\<close> has the one \<open>getMacAddress\<close> computes for it.
\<close>

theorem plc_packet_delivered:
  assumes "mac48_spec parse" "a < 0xff00" "dst_id m = 0xffff \<or> dst_id m < 0xff00"
    and "length p < 2048" "mb_len m = of_nat (length p)" "take (length p) (buf m) = p" "length p \<le> length (buf m)"
    and "ms_ok s" "uopen uid su cap rcv k (STACKLINE, b)" "length pre = 8"
  shows "\<exists>dst s1. plcSendPacket parse (int (unat a)) m w = Ret (SUCCESS, call (PlcSend (unat a) dst p) w) \<and>
    plcHandleData uid now b (pre @ p) (getMacAddress parse a) dst su s k
      = Ret (s1, usend uid su (STACKLINE, b) (air_msg a (dst_id m) 0 p) k)"
proof -
  have len: "unat (mb_len m) = length p" using assms(4,5) by (simp add: of_nat_len)
  have ids: "getIdFromMacAddr (getMacAddress parse a) = a"
    "getIdFromMacAddr (getMacAddress parse (dst_id m)) = dst_id m"
    using assms(2,3) by (auto simp: mac48_roundtrip [OF assms(1)])
  let ?m = "air_msg a (dst_id m) 0 p"
  have same: "(put_buf p DEFINE_MBUF)\<lparr>mb_len := of_nat (length p), src_id := a, dst_id := dst_id m, info0 := 0, info1 := 0\<rparr> = ?m"
    by (simp add: air_msg_def put_buf_def DEFINE_MBUF_def DEFINE_MBUF_SZ_def zero_mbuf_def)
  obtain s1 where "set_stats now AL_RX ?m s = Ret s1" using set_stats_eq [OF assms(8)] by blast
  moreover have "of_nat sizeof_msg_buf + mb_len ?m = send_len ?m" by (simp add: send_len_def)
  ultimately have "plcHandleData uid now b (pre @ p) (getMacAddress parse a) (getMacAddress parse (dst_id m)) su s k
      = Ret (s1, usend uid su (STACKLINE, b) ?m k)"
    using usend_eq [OF assms(9) air_msg_buf(1) [OF assms(4), of a "dst_id m" 0]] assms(4,10)
    by (simp add: plcHandleData_def COMMLINE_MAX_BUF_def ids same SendPacketToStackline_def usend_def Let_def)
  then show ?thesis
    using assms(6,7) len by (auto simp: plcSendPacket_def)
qed

lemma plc_packet_delivered_witness:
  "\<exists>dst s1. plcSendPacket parse_mac48 300 (air_msg 300 1 0 ''hi'') (demo_net 2)
      = Ret (SUCCESS, call (PlcSend 300 dst ''hi'') (demo_net 2)) \<and>
    plcHandleData 0 5 1 (''01234567'' @ ''hi'') (getMacAddress parse_mac48 300) dst demo_all demo_ms (demo_at (STACKLINE, 1))
      = Ret (s1, usend 0 demo_all (STACKLINE, 1) (air_msg 300 1 0 ''hi'') (demo_at (STACKLINE, 1)))"
proof -
  have b: "take (length ''hi'') (buf (air_msg 300 1 0 ''hi'')) = ''hi''" by (rule air_msg_buf(2)) simp
  have l: "length ''hi'' \<le> length (buf (air_msg 300 1 0 ''hi''))"
    using air_msg_buf(1) [of "''hi''" 300 1 0] by (simp add: fits_buf_def)
  from plc_packet_delivered [OF parse_mac48_spec _ _ _ _ b l demo_ms_ok demo_open_at [of "(STACKLINE, 1)"],
      where a = 300 and pre = "''01234567''" and now = 5 and w = "demo_net 2"]
  show ?thesis by auto
qed

end
