(* ===== verification/Iface_Handler.thy ===== *)
theory Iface_Handler
  imports Plc_Iface
begin

text \<open>
  \<open>airline/NS3/IfaceHandler.h\<close> and \<open>IfaceHandler.cc\<close>: the table of interfaces and the dispatch of
  every call through it.  The locale \<open>packet_iface\<close> states what the airline relies on when it
  hands a message to an interface; both interfaces of the table provide it.
\<close>

section \<open>State\<close>

datatype iface_type = IFACE_LRWPAN | IFACE_PLC

text \<open>How the program was built and what the simulator decides.\<close>

record build =
  PLC :: bool
  mac48_parse :: "string \<Rightarrow> mac48"

record iface_ctx =
  c_ns3 :: ns3
  c_plc :: plc
  c_inited :: "iface_type \<Rightarrow> bool"

definition ERR_NOT_SUPP :: int where "ERR_NOT_SUPP = -2"

section \<open>Dispatch\<close>

definition getIfaceApi :: "config \<Rightarrow> iface_type" where
  "getIfaceApi c = (if stricmp_eq (cfg_get c ''PHY'') ''plc'' then IFACE_PLC else IFACE_LRWPAN)"

text \<open>Without the power-line module its table entry is zero: every callback is null.\<close>

definition has_entry :: "build \<Rightarrow> iface_type \<Rightarrow> bool" where
  "has_entry b t \<longleftrightarrow> t = IFACE_LRWPAN \<or> PLC b"

definition on_ns3 :: "(ns3 \<Rightarrow> (int \<times> ns3) outcome) \<Rightarrow> iface_ctx \<Rightarrow> (int \<times> iface_ctx) outcome" where
  "on_ns3 f x = bindo (f (c_ns3 x)) (\<lambda>(r, w). Ret (r, x\<lparr>c_ns3 := w\<rparr>))"

definition iface_setup ::
  "build \<Rightarrow> config \<Rightarrow> (nat \<Rightarrow> (rat \<times> rat \<times> rat) option) \<Rightarrow> iface_type \<Rightarrow> iface_ctx \<Rightarrow> (int \<times> iface_ctx) outcome" where
  "iface_setup b c mob t x =
     (if \<not> has_entry b t then Fault Out_Of_Bounds
      else case t of
             IFACE_LRWPAN \<Rightarrow> on_ns3 (lrwpanSetup c) x
           | IFACE_PLC \<Rightarrow> bindo (plcInstall c mob (c_plc x)) (\<lambda>(r, p). Ret (r, x\<lparr>c_plc := p\<rparr>)))"

definition ifaceInstall ::
  "build \<Rightarrow> config \<Rightarrow> (nat \<Rightarrow> (rat \<times> rat \<times> rat) option) \<Rightarrow> iface_ctx \<Rightarrow> (int \<times> iface_ctx) outcome" where
  "ifaceInstall b c mob x =
     (let t = getIfaceApi c
      in if c_inited x t then Ret (SUCCESS, x)
         else bindo (iface_setup b c mob t x) (\<lambda>(r, x1).
                Ret (r, if r = SUCCESS then x1\<lparr>c_inited := (c_inited x1)(t := True)\<rparr> else x1)))"

definition ifaceSetTxPower :: "build \<Rightarrow> config \<Rightarrow> int \<Rightarrow> rat \<Rightarrow> iface_ctx \<Rightarrow> (int \<times> iface_ctx) outcome" where
  "ifaceSetTxPower b c i txpow x = (case getIfaceApi c of
     IFACE_LRWPAN \<Rightarrow> on_ns3 (lrwpanSetTxPower i txpow) x
   | IFACE_PLC \<Rightarrow> Ret (ERR_NOT_SUPP, x))"

definition ifaceSetPromiscuous :: "build \<Rightarrow> config \<Rightarrow> int \<Rightarrow> iface_ctx \<Rightarrow> (int \<times> iface_ctx) outcome" where
  "ifaceSetPromiscuous b c i x = (case getIfaceApi c of
     IFACE_LRWPAN \<Rightarrow> on_ns3 (lrwpanSetPromiscuous i) x
   | IFACE_PLC \<Rightarrow> Ret (ERR_NOT_SUPP, x))"

definition ifaceSetAddress ::
  "build \<Rightarrow> config \<Rightarrow> int \<Rightarrow> char list \<Rightarrow> int \<Rightarrow> iface_ctx \<Rightarrow> (int \<times> iface_ctx) outcome" where
  "ifaceSetAddress b c i addr sz x = (case getIfaceApi c of
     IFACE_LRWPAN \<Rightarrow> on_ns3 (lrwpanSetAddress i addr sz) x
   | IFACE_PLC \<Rightarrow>
       if has_entry b IFACE_PLC then on_ns3 (\<lambda>w. plcSetAddress i addr sz w (c_plc x)) x
       else Ret (ERR_NOT_SUPP, x))"

definition ifaceSendPacket :: "build \<Rightarrow> config \<Rightarrow> int \<Rightarrow> msg_buf \<Rightarrow> iface_ctx \<Rightarrow> (int \<times> iface_ctx) outcome" where
  "ifaceSendPacket b c i m x = (case getIfaceApi c of
     IFACE_LRWPAN \<Rightarrow> on_ns3 (lrwpanSendPacket c i m) x
   | IFACE_PLC \<Rightarrow>
       if has_entry b IFACE_PLC then on_ns3 (plcSendPacket (mac48_parse b) i m) x
       else Ret (ERR_NOT_SUPP, x))"

section \<open>What the airline relies on\<close>

text \<open>
  A call of \<open>send\<close> that returns either made exactly one request, for the given node and with the
  payload of the message, or failed without any effect.
\<close>

locale packet_iface =
  fixes send :: "int \<Rightarrow> msg_buf \<Rightarrow> 'w \<Rightarrow> (int \<times> 'w) outcome"
    and requests :: "'w \<Rightarrow> ns_call list"
    and request_of :: "int \<Rightarrow> msg_buf \<Rightarrow> ns_call \<Rightarrow> bool"
  assumes send_one: "send i m w = Ret (r, w') \<Longrightarrow>
    (r = SUCCESS \<and> (\<exists>x. request_of i m x \<and> requests w' = requests w @ [x])) \<or> (r \<noteq> SUCCESS \<and> w' = w)"
begin

fun send_seq :: "(int \<times> msg_buf) list \<Rightarrow> 'w \<Rightarrow> (int list \<times> 'w) outcome" where
  "send_seq [] w = Ret ([], w)"
| "send_seq ((i, m) # ms) w =
     bindo (send i m w) (\<lambda>(r, w1). bindo (send_seq ms w1) (\<lambda>(rs, w2). Ret (r # rs, w2)))"

text \<open>The requests are those of the accepted messages, in order.\<close>

lemma send_seq_requests:
  "send_seq ms w = Ret (rs, w') \<Longrightarrow>
   length rs = length ms \<and>
   (\<exists>xs. requests w' = requests w @ xs \<and>
     list_all2 (\<lambda>(i, m) x. request_of i m x) (map fst (filter (\<lambda>(_, r). r = SUCCESS) (zip ms rs))) xs)"
proof (induction ms arbitrary: w rs)
  case (Cons a ms)
  obtain i m where a: "a = (i, m)" by (cases a)
  from Cons.prems obtain r w1 rs1 where s: "send i m w = Ret (r, w1)" "send_seq ms w1 = Ret (rs1, w')" "rs = r # rs1"
    by (auto simp: a bindo_eq_Ret)
  from Cons.IH [OF s(2)] obtain xs where xs: "length rs1 = length ms" "requests w' = requests w1 @ xs"
    "list_all2 (\<lambda>(i, m) x. request_of i m x) (map fst (filter (\<lambda>(_, r). r = SUCCESS) (zip ms rs1))) xs"
    by blast
  from send_one [OF s(1)] show ?case
  proof (elim disjE conjE exE)
    fix x assume "r = SUCCESS" "request_of i m x" "requests w1 = requests w @ [x]"
    with xs s(3) show ?thesis by (auto simp: a intro!: exI [of _ "x # xs"])
  next
    assume "r \<noteq> SUCCESS" "w1 = w"
    with xs s(3) show ?thesis by (auto simp: a)
  qed
qed simp

end

text \<open>The request of the 802.15.4 interface and of the power-line interface for a message.\<close>

definition payload :: "msg_buf \<Rightarrow> char list" where
  "payload m = take (unat (mb_len m)) (buf m)"

definition lrwpan_request :: "int \<Rightarrow> msg_buf \<Rightarrow> ns_call \<Rightarrow> bool" where
  "lrwpan_request i m x \<longleftrightarrow>
     (\<exists>ps. x = McpsDataRequest (nat i) ps (payload m) \<and> addr2id (m_dstAddr ps) = dst_id m)"

definition plc_request :: "(string \<Rightarrow> mac48) \<Rightarrow> int \<Rightarrow> msg_buf \<Rightarrow> ns_call \<Rightarrow> bool" where
  "plc_request parse i m x \<longleftrightarrow> x = PlcSend (nat i) (getMacAddress parse (dst_id m)) (payload m)"

lemma lrwpanSendPacket_cases:
  assumes "lrwpanSendPacket c i m w = Ret (r, w')"
  obtains "r = FAILURE" "w' = w"
  | ps where "r = SUCCESS" "m_dstAddr ps = id2addr (dst_id m)"
      "w' = call (McpsDataRequest (nat i) ps (payload m)) w"
proof -
  from assms obtain n dev where dev: "CFG_STOI c ''numOfNodes'' = Ret n" "getDev i w = Ret dev"
    unfolding lrwpanSendPacket_def bindo_eq_Ret by blast
  show thesis
  proof (cases "\<not> dev \<or> has_flag MBUF_IS_CMD m")
    case True
    with assms dev show thesis by (intro that(1)) (auto simp: lrwpanSendPacket_def split: if_splits)
  next
    case False
    with assms dev have "\<not> length (buf m) < unat (mb_len m)" by (auto simp: lrwpanSendPacket_def)
    moreover from this assms dev False obtain pan where "CFG_PANID c = Ret pan"
      by (cases "CFG_PANID c") (auto simp: lrwpanSendPacket_def)
    moreover define ps where "ps = \<lparr>m_srcAddrMode = SHORT_ADDR, m_dstAddrMode = SHORT_ADDR, m_dstPanId = pan,
      m_dstAddr = id2addr (dst_id m), m_msduHandle = 0,
      m_txOptions = (if (if IN_RANGE (uint (src_id m)) 0 n
          then (case get_node_info c (src_id m) of None \<Rightarrow> False | Some ni \<Rightarrow> getPromisMode ni \<noteq> 0) else False)
        then TX_OPTION_NONE else if dst_id m \<noteq> 0xffff then TX_OPTION_ACK else TX_OPTION_NONE)\<rparr>"
    ultimately have "Ret (SUCCESS, call (McpsDataRequest (nat i) ps (payload m)) w) = Ret (r, w')"
      using assms dev False unfolding lrwpanSendPacket_def Let_def payload_def [symmetric] by simp
    then show thesis by (intro that(2) [of ps]) (simp_all add: ps_def)
  qed
qed

interpretation lrwpan: packet_iface "lrwpanSendPacket c" ns_log lrwpan_request for c
proof
  fix i m w r w'
  assume "lrwpanSendPacket c i m w = Ret (r, w')"
  then show "(r = SUCCESS \<and> (\<exists>x. lrwpan_request i m x \<and> ns_log w' = ns_log w @ [x])) \<or> (r \<noteq> SUCCESS \<and> w' = w)"
    by (rule lrwpanSendPacket_cases) (auto simp: lrwpan_request_def short.dec_enc)
qed

interpretation plcif: packet_iface "plcSendPacket parse" ns_log "plc_request parse" for parse
  by unfold_locales (auto simp: plcSendPacket_def plc_request_def payload_def split: if_splits)

text \<open>The dispatcher provides the same contract, whichever interface is configured.\<close>

definition iface_request :: "build \<Rightarrow> config \<Rightarrow> int \<Rightarrow> msg_buf \<Rightarrow> ns_call \<Rightarrow> bool" where
  "iface_request b c i m x = (case getIfaceApi c of
     IFACE_LRWPAN \<Rightarrow> lrwpan_request i m x | IFACE_PLC \<Rightarrow> plc_request (mac48_parse b) i m x)"

interpretation iface: packet_iface "ifaceSendPacket b c" "\<lambda>x. ns_log (c_ns3 x)" "iface_request b c" for b c
proof
  fix i m x r x'
  assume s: "ifaceSendPacket b c i m x = Ret (r, x')"
  show "(r = SUCCESS \<and> (\<exists>y. iface_request b c i m y \<and> ns_log (c_ns3 x') = ns_log (c_ns3 x) @ [y])) \<or> (r \<noteq> SUCCESS \<and> x' = x)"
  proof (cases "getIfaceApi c")
    case IFACE_LRWPAN
    with s obtain w where w: "lrwpanSendPacket c i m (c_ns3 x) = Ret (r, w)" "x' = x\<lparr>c_ns3 := w\<rparr>"
      by (auto simp: ifaceSendPacket_def on_ns3_def bindo_eq_Ret)
    with lrwpan.send_one [OF w(1)] IFACE_LRWPAN show ?thesis by (auto simp: iface_request_def)
  next
    case IFACE_PLC
    show ?thesis
    proof (cases "has_entry b IFACE_PLC")
      case True
      with s IFACE_PLC obtain w where w: "plcSendPacket (mac48_parse b) i m (c_ns3 x) = Ret (r, w)" "x' = x\<lparr>c_ns3 := w\<rparr>"
        by (auto simp: ifaceSendPacket_def on_ns3_def bindo_eq_Ret)
      with plcif.send_one [OF w(1)] IFACE_PLC show ?thesis by (auto simp: iface_request_def)
    next
      case False
      with s IFACE_PLC show ?thesis by (auto simp: ifaceSendPacket_def ERR_NOT_SUPP_def SUCCESS_def)
    qed
  qed
qed

end
