(* ===== verification/Double_Text.thy ===== *)
theory Double_Text
  imports Complex_Main C_String
begin

text \<open>
  Output of a \<open>double\<close> as text: rounding and the default format of a C++
  stream (six significant digits, as \<open>%g\<close>).  A \<open>double\<close> is a rational number.
\<close>

section \<open>Output of a number\<close>

text \<open>Rounding to nearest, ties to even.\<close>

definition round_even :: "rat \<Rightarrow> int" where
  "round_even q = (let f = \<lfloor>q\<rfloor>; d = q - of_int f
                   in if d < 1 / 2 \<or> (d = 1 / 2 \<and> even f) then f else f + 1)"

text \<open>The exponent of the first digit of a positive number.\<close>

definition dec_exp :: "rat \<Rightarrow> int" where
  "dec_exp q = (if q \<ge> 1 then int (length (dec_nat (nat \<lfloor>q\<rfloor>))) - 1
                else - int (length (dec_nat (nat (\<lceil>1 / q\<rceil> - 1)))))"

definition scale10 :: "int \<Rightarrow> rat" where
  "scale10 e = (if 0 \<le> e then 10 ^ nat e else 1 / 10 ^ nat (- e))"

text \<open>Six digits and their exponent; rounding up to a seventh digit moves the exponent.\<close>

definition sig6 :: "rat \<Rightarrow> nat \<times> int" where
  "sig6 q = (let e = dec_exp q; d = nat (round_even (q * scale10 (5 - e)))
             in if d = 10 ^ 6 then (10 ^ 5, e + 1) else (d, e))"

definition rstrip0 :: "string \<Rightarrow> string" where
  "rstrip0 s = rev (dropWhile (\<lambda>c. c = CHR ''0'') (rev s))"

definition point :: "string \<Rightarrow> string" where
  "point b = (if b = [] then [] else CHR ''.'' # b)"

definition exp_text :: "int \<Rightarrow> string" where
  "exp_text e = (if e < 0 then ''e-'' else ''e+'') @ pad0 2 (dec_nat (nat \<bar>e\<bar>))"

definition ostream_double :: "rat \<Rightarrow> string" where
  "ostream_double x =
     (if x = 0 then ''0''
      else
        let (d, e) = sig6 \<bar>x\<bar>; ds = pad0 6 (dec_nat d)
        in (if x < 0 then ''-'' else []) @
           (if e < -4 \<or> 6 \<le> e then take 1 ds @ point (rstrip0 (drop 1 ds)) @ exp_text e
            else if 0 \<le> e then take (nat e + 1) ds @ point (rstrip0 (drop (nat e + 1) ds))
            else ''0'' @ point (replicate (nat (- e) - 1) (CHR ''0'') @ rstrip0 ds)))"

section \<open>Six digits\<close>

lemma less_pow_digits: "n < 10 ^ length (dec_nat n)"
  using length_to_base_ge [of 10 "length (dec_nat n)" n] by (force simp: dec_nat_def)

lemma pow_le_digits: "0 < n \<Longrightarrow> 10 ^ (length (dec_nat n) - 1) \<le> n"
proof (rule ccontr)
  assume n: "0 < n" "\<not> 10 ^ (length (dec_nat n) - 1) \<le> n"
  then have "length (dec_nat n) - 1 \<noteq> 0" by (intro notI) simp
  with n(2) have "length (dec_nat n) \<le> length (dec_nat n) - 1"
    unfolding dec_nat_def by (intro length_to_base) simp_all
  with \<open>length (dec_nat n) - 1 \<noteq> 0\<close> show False by simp
qed

lemma dec_exp_upper:
  assumes "0 < q"
  shows "q < scale10 (dec_exp q + 1)"
proof (cases "1 \<le> q")
  case True
  let ?n = "nat \<lfloor>q\<rfloor>"
  have "q < of_int \<lfloor>q\<rfloor> + 1" by linarith
  also have "of_int \<lfloor>q\<rfloor> + 1 = (of_nat (?n + 1) :: rat)" using assms by simp
  also have "\<dots> \<le> of_nat (10 ^ length (dec_nat ?n))"
    using less_pow_digits [of ?n] by (intro of_nat_mono) (simp only: Suc_eq_plus1 [symmetric] Suc_le_eq)
  finally show ?thesis using True by (simp add: dec_exp_def scale10_def)
next
  case False
  define m where "m = nat (\<lceil>1 / q\<rceil> - 1)"
  define k where "k = length (dec_nat m) - 1"
  have "1 < 1 / q" using False assms by simp
  then have c: "1 < \<lceil>1 / q\<rceil>" by linarith
  then have "10 ^ k \<le> m" using pow_le_digits [of m] by (simp add: k_def m_def)
  then have "(10 :: rat) ^ k \<le> of_nat m" by (metis of_nat_le_iff of_nat_numeral of_nat_power)
  also have "of_nat m < 1 / q" using c by (simp add: m_def) linarith
  finally have "q * 10 ^ k < 1" using assms by (simp add: field_simps)
  then have "q < 1 / 10 ^ k" by (simp add: field_simps)
  moreover have "dec_exp q + 1 = - int k"
    using False by (simp add: dec_exp_def m_def [symmetric] k_def) (simp add: Suc_leI of_nat_diff)
  ultimately show ?thesis by (cases "k = 0") (simp_all add: scale10_def)
qed

lemma scale10_pos: "0 < scale10 e"
  by (simp add: scale10_def)

lemma scale10_nat: "scale10 (int n) = 10 ^ n"
  by (simp add: scale10_def)

lemma scale10_neg: "scale10 (- e) = 1 / scale10 e"
  by (cases e "0 :: int" rule: linorder_cases) (simp_all add: scale10_def)

lemma scale10_add_nat: "scale10 (e + int n) = scale10 e * 10 ^ n"
proof (induction n)
  case (Suc n)
  have "scale10 (x + 1) = scale10 x * 10" for x
  proof (cases "0 \<le> x")
    case False
    then have "nat (- x) = Suc (nat (- x - 1))" by simp
    then show ?thesis using False by (cases "x = -1") (simp_all add: scale10_def)
  qed (simp add: scale10_def nat_add_distrib)
  from this [of "e + int n"] Suc show ?case by (simp add: ac_simps)
qed simp

lemma scale10_add: "scale10 (a + b) = scale10 a * scale10 b"
proof (cases "0 \<le> b")
  case True
  then show ?thesis using scale10_add_nat [of a "nat b"] scale10_nat [of "nat b"] by simp
next
  case False
  then have "scale10 a = scale10 (a + b) * scale10 (- b)"
    using scale10_add_nat [of "a + b" "nat (- b)"] scale10_nat [of "nat (- b)"] by simp
  then show ?thesis using scale10_pos [of b] by (simp add: scale10_neg field_simps)
qed

lemma round_even_le: "q < of_int n \<Longrightarrow> round_even q \<le> n"
  by (simp add: round_even_def Let_def) linarith

lemma round_even_int [simp]: "round_even (of_int n) = n"
  by (simp add: round_even_def)

lemma sig6_lt: "0 < q \<Longrightarrow> sig6 q = (d, e) \<Longrightarrow> d < 10 ^ 6"
proof -
  assume q: "0 < q" "sig6 q = (d, e)"
  have "q * scale10 (5 - dec_exp q) < scale10 (dec_exp q + 1) * scale10 (5 - dec_exp q)"
    using dec_exp_upper [OF q(1)] scale10_pos by simp
  also have "\<dots> = of_int (10 ^ 6)" by (simp add: scale10_add [symmetric]) (simp add: scale10_def)
  finally have "round_even (q * scale10 (5 - dec_exp q)) \<le> 10 ^ 6" by (rule round_even_le)
  with q(2) show ?thesis by (auto simp: sig6_def Let_def split: if_splits)
qed

text \<open>The number the text stands for.\<close>

definition g6 :: "rat \<Rightarrow> rat" where
  "g6 x = (if x = 0 then 0 else let (d, e) = sig6 \<bar>x\<bar> in sgn x * of_nat d * scale10 (e - 5))"

lemma g6_exact:
  assumes "\<bar>x\<bar> * scale10 (5 - dec_exp \<bar>x\<bar>) = of_int k"
  shows "g6 x = x"
proof (cases "x = 0")
  case False
  let ?e = "dec_exp \<bar>x\<bar>"
  have k: "0 \<le> k" using assms scale10_pos [of "5 - ?e"]
    by (metis abs_ge_zero less_imp_le mult_nonneg_nonneg of_int_0_le_iff)
  have "of_int k * scale10 (?e - 5) = \<bar>x\<bar> * (scale10 (5 - ?e) * scale10 (?e - 5))" using assms by simp
  also have "scale10 (5 - ?e) * scale10 (?e - 5) = 1" by (simp add: scale10_add [symmetric]) (simp add: scale10_def)
  finally have v: "of_int k * scale10 (?e - 5) = \<bar>x\<bar>" by simp
  have "sig6 \<bar>x\<bar> = (if nat k = 10 ^ 6 then (10 ^ 5, ?e + 1) else (nat k, ?e))"
    by (simp add: sig6_def assms Let_def)
  moreover have "of_int k * scale10 (?e - 5) = 10 ^ 5 * scale10 (?e + 1 - 5)" if "nat k = 10 ^ 6"
    using that k scale10_add_nat [of "?e - 5" 1] by (simp add: algebra_simps nat_eq_iff)
  moreover have "sgn x * \<bar>x\<bar> = x" by (simp add: sgn_mult_abs)
  ultimately show ?thesis
    using v k False by (auto simp: g6_def mult.assoc)
qed (simp add: g6_def)

lemma g6_of_int: "\<bar>n\<bar> < 10 ^ 6 \<Longrightarrow> g6 (of_int n) = of_int n"
proof (cases "n = 0")
  case False
  assume n: "\<bar>n\<bar> < 10 ^ 6"
  let ?l = "length (dec_nat (nat \<bar>n\<bar>))"
  have "?l \<le> 6" using n length_to_base [of 10 "nat \<bar>n\<bar>" 6] by (simp add: dec_nat_def nat_less_iff)
  moreover have "1 \<le> \<bar>n\<bar>" "1 \<le> ?l" using False by (simp_all add: Suc_leI)
  ultimately have "scale10 (5 - dec_exp \<bar>of_int n\<bar>) = of_int (10 ^ (6 - ?l))"
    by (simp add: dec_exp_def scale10_def nat_diff_distrib' flip: of_int_abs)
  then have "\<bar>of_int n\<bar> * scale10 (5 - dec_exp \<bar>of_int n\<bar>) = of_int (\<bar>n\<bar> * 10 ^ (6 - ?l))" by simp
  then show ?thesis by (rule g6_exact)
qed (simp add: g6_def)

text \<open>How far the text is from the number.\<close>

lemma dec_exp_lower:
  assumes "0 < q"
  shows "scale10 (dec_exp q) \<le> q"
proof (cases "1 \<le> q")
  case True
  let ?n = "nat \<lfloor>q\<rfloor>"
  have n: "0 < ?n" "of_nat ?n \<le> q" using True by simp_all
  have "0 < length (dec_nat ?n)" by simp
  then have "dec_exp q = int (length (dec_nat ?n) - 1)" using True by (simp add: dec_exp_def of_nat_diff Suc_leI)
  then have "scale10 (dec_exp q) = 10 ^ (length (dec_nat ?n) - 1)" by (simp only: scale10_nat)
  moreover have "(10 :: rat) ^ (length (dec_nat ?n) - 1) \<le> of_nat ?n"
    using pow_le_digits [OF n(1)] by (metis of_nat_le_iff of_nat_numeral of_nat_power)
  ultimately show ?thesis using n(2) by linarith
next
  case False
  define m where "m = nat (\<lceil>1 / q\<rceil> - 1)"
  have "1 < 1 / q" using False assms by simp
  then have "1 < \<lceil>1 / q\<rceil>" by linarith
  then have "1 / q \<le> of_nat (m + 1)" unfolding m_def by simp linarith
  also have "of_nat (m + 1) \<le> (of_nat (10 ^ length (dec_nat m)) :: rat)"
    using less_pow_digits [of m] by (intro of_nat_mono) simp
  finally have "1 \<le> q * 10 ^ length (dec_nat m)" using assms by (simp add: field_simps)
  then have "1 / 10 ^ length (dec_nat m) \<le> q" by (simp add: field_simps)
  moreover have "dec_exp q = - int (length (dec_nat m))" using False by (simp add: dec_exp_def m_def)
  ultimately show ?thesis by (simp add: scale10_neg scale10_nat)
qed

lemma round_even_error: "\<bar>of_int (round_even q) - q\<bar> \<le> 1 / 2"
  unfolding round_even_def Let_def by (simp add: abs_if) linarith

lemma g6_error: "200000 * \<bar>g6 x - x\<bar> \<le> \<bar>x\<bar>"
proof (cases "x = 0")
  case False
  let ?e = "dec_exp \<bar>x\<bar>" and ?u = "scale10 (dec_exp \<bar>x\<bar> - 5)"
  define y where "y = \<bar>x\<bar> * scale10 (5 - ?e)"
  have one: "scale10 (5 - ?e) * ?u = 1" by (simp add: scale10_add [symmetric]) (simp add: scale10_def)
  then have yx: "y * ?u = \<bar>x\<bar>" by (simp add: y_def mult.assoc)
  have y5: "10 ^ 5 \<le> y"
  proof -
    have "scale10 ?e * scale10 (5 - ?e) = 10 ^ 5" by (simp add: scale10_add [symmetric]) (simp add: scale10_def)
    moreover have "scale10 ?e * scale10 (5 - ?e) \<le> y"
      unfolding y_def using dec_exp_lower [of "\<bar>x\<bar>"] False scale10_pos [of "5 - ?e"] by simp
    ultimately show ?thesis by simp
  qed
  define d where "d = round_even y"
  have err: "\<bar>of_int d - y\<bar> \<le> 1 / 2" unfolding d_def by (rule round_even_error)
  then have "- (of_int d - y) \<le> 1 / 2" using abs_ge_minus_self order_trans by blast
  then have "y - 1 / 2 \<le> of_int d" by linarith
  moreover have "100000 \<le> y" using y5 by simp
  ultimately have "0 \<le> (of_int d :: rat)" by linarith
  then have d0: "0 \<le> d" by (simp only: of_int_0_le_iff)
  have "g6 x = sgn x * of_int d * ?u"
  proof (cases "d = 10 ^ 6")
    case True
    have "scale10 (?e + 1 - 5) = ?u * 10" using scale10_add_nat [of "?e - 5" 1] by (simp add: algebra_simps)
    with True False show ?thesis by (simp add: g6_def sig6_def Let_def y_def [symmetric] d_def [symmetric])
  next
    case n: False
    then have "nat d \<noteq> 10 ^ 6" using d0 by (simp add: nat_eq_iff)
    with False d0 show ?thesis by (simp add: g6_def sig6_def Let_def y_def [symmetric] d_def [symmetric])
  qed
  moreover have "x = sgn x * (y * ?u)" by (simp add: yx sgn_mult_abs)
  ultimately have "g6 x - x = sgn x * ((of_int d - y) * ?u)" by (metis left_diff_distrib mult.assoc right_diff_distrib)
  then have "\<bar>g6 x - x\<bar> = \<bar>of_int d - y\<bar> * ?u"
    using False scale10_pos [of "?e - 5"] by (simp add: abs_mult)
  also have "\<dots> \<le> 1 / 2 * ?u" using err scale10_pos [of "?e - 5"] by (intro mult_right_mono) simp_all
  finally have "200000 * \<bar>g6 x - x\<bar> \<le> 10 ^ 5 * ?u" by simp
  also have "\<dots> \<le> y * ?u" using y5 scale10_pos [of "?e - 5"] by (intro mult_right_mono) simp_all
  also note yx
  finally show ?thesis .
qed (simp add: g6_def)

lemma set_ostream_double: "set (ostream_double x) \<subseteq> {c. isdigit c} \<union> {CHR ''-'', CHR ''.'', CHR ''e'', CHR ''+''}"
proof -
  have dig: "c \<in> set (pad0 w (dec_nat n)) \<Longrightarrow> isdigit c" for c w n
    using isdigit_dec_nat by (auto simp: pad0_def isdigit_def)
  have rs: "set (rstrip0 s) \<subseteq> set s" for s
    unfolding rstrip0_def using set_dropWhileD by fastforce
  have pt: "set (point b) \<subseteq> set b \<union> {CHR ''.''}" for b by (simp add: point_def)
  have ex: "set (exp_text e) \<subseteq> {c. isdigit c} \<union> {CHR ''-'', CHR ''e'', CHR ''+''}" for e
    using dig by (auto simp: exp_text_def)
  obtain d e where de: "sig6 \<bar>x\<bar> = (d, e)" by fastforce
  define ds where "ds = pad0 6 (dec_nat d)"
  have tk: "set (take j ds) \<subseteq> {c. isdigit c}" "set (rstrip0 (drop j ds)) \<subseteq> {c. isdigit c}" for j
    using dig subset_trans [OF rs [of "drop j ds"] set_drop_subset] by (auto simp: ds_def dest: in_set_takeD)
  have "set (point (rstrip0 (drop j ds))) \<subseteq> {c. isdigit c} \<union> {CHR ''.''}" for j
    using tk(2) pt by blast
  moreover have "set (point (replicate n (CHR ''0'') @ rstrip0 ds)) \<subseteq> {c. isdigit c} \<union> {CHR ''.''}" for n
    using tk(2) [of 0] pt [of "replicate n (CHR ''0'') @ rstrip0 ds"] by (auto simp: isdigit_def)
  ultimately show ?thesis
    using tk(1) ex unfolding ostream_double_def de prod.case Let_def ds_def [symmetric]
    by (auto simp: isdigit_def) blast+
qed

lemma ostream_double_nonempty: "ostream_double x \<noteq> []"
proof -
  obtain d e where de: "sig6 \<bar>x\<bar> = (d, e)" by fastforce
  have "pad0 6 (dec_nat d) \<noteq> []" by (simp add: pad0_def)
  then show ?thesis by (simp add: ostream_double_def de Let_def)
qed

end
