(* ===== verification/Airline_Cmds.thy ===== *)
theory Airline_Cmds
  imports Iface_Handler Double_Text
begin

text \<open>
  The commands of the airline: the macro \<open>HANDLE_CMD\<close> of \<open>commline/commline.h\<close>, the command
  handlers of \<open>airline/NS3/AirlineManager.cc\<close> and \<open>al_handle_cmd\<close> of \<open>airline/Command.cc\<close>.  A
  handler works in place on the bytes of the message: it reads its argument from the start of the
  buffer and writes its reply over it, and returns the length of the reply.
\<close>

section \<open>State\<close>

text \<open>
  The globals of the process: the statistics with the configuration, the interface context, the
  positions of the nodes (\<open>None\<close>: no mobility model), what was written to files, and whether the
  next poll of the queue is scheduled.
\<close>

type_synonym pos3 = "rat \<times> rat \<times> rat"

record airline =
  al_ms :: macstats
  al_ctx :: iface_ctx
  al_mob :: "nat \<Rightarrow> pos3 option"
  al_files :: "(string \<times> (nat \<times> pos3) list) list"
  m_sendEvent :: bool

abbreviation al_cfg :: "airline \<Rightarrow> config" where "al_cfg s \<equiv> cfg (al_ms s)"
abbreviation al_nodes :: "airline \<Rightarrow> nat" where "al_nodes s \<equiv> n_nodes (c_ns3 (al_ctx s))"

text \<open>How ns-3 places nodes, which files can be written, the user id, the time of day.\<close>

datatype allocator =
    GridPosition "rat option" "rat option" int  \<comment> \<open>the two distances and the width\<close>
  | RandomRectangle string string

record world =
  w_uid :: u32
  w_now :: int
  w_build :: build
  w_open :: "string \<Rightarrow> bool"
  w_alloc :: "allocator \<Rightarrow> nat \<Rightarrow> pos3"

type_synonym al_cmd = "world \<Rightarrow> u16 \<Rightarrow> char list \<Rightarrow> int \<Rightarrow> airline \<Rightarrow> (int \<times> char list \<times> airline) outcome"

section \<open>Writing into a buffer\<close>

text \<open>
  \<open>snprintf(buf + off, sz, ...)\<close>.  The size is an \<open>int\<close> converted to \<open>size_t\<close>: a negative one is
  a huge bound, and \<open>off\<close> is then past the end of the buffer.
\<close>

definition snprintf_at :: "nat \<Rightarrow> int \<Rightarrow> string \<Rightarrow> char list \<Rightarrow> char list outcome" where
  "snprintf_at off sz txt b =
     (if sz < 0 then Fault Out_Of_Bounds
      else if sz = 0 then Ret b
      else
        let d = snprintf_text (nat sz) txt @ [NUL]
        in if off + length d > length b then Fault Out_Of_Bounds
           else Ret (take off b @ d @ drop (off + length d) b))"

lemma snprintf_at_start:
  assumes "int (length txt) < sz" "length txt < length b"
  shows "snprintf_at 0 sz txt b = Ret (store_str b txt)"
proof -
  from assms(1) have "length txt < nat sz" "sz \<noteq> 0" "\<not> sz < 0" by linarith+
  with assms(2) show ?thesis by (simp add: snprintf_at_def store_str_def)
qed

lemma snprintf_at_append:
  assumes "int (length txt) < sz" "length a + length txt < length b" "length a = off"
  shows "snprintf_at off sz txt (store_str b a) = Ret (store_str b (a @ txt))"
proof -
  from assms(1) have "length txt < nat sz" "sz \<noteq> 0" "\<not> sz < 0" by linarith+
  with assms(2) show ?thesis
    unfolding assms(3) [symmetric] by (auto simp: snprintf_at_def store_str_def Let_def add.commute)
qed

text \<open>The conversion \<open>%.2f\<close>.\<close>

definition fixed2 :: "rat \<Rightarrow> string" where
  "fixed2 x = (let n = nat (round_even (\<bar>x\<bar> * 100))
               in (if x < 0 then ''-'' else []) @ dec_nat (n div 100) @ ''.'' @ pad0 2 (dec_nat (n mod 100)))"

section \<open>Positions\<close>

definition position_line :: "nat \<Rightarrow> pos3 \<Rightarrow> string" where
  "position_line i p = (case p of (x, y, z) \<Rightarrow>
     dec_nat i @ '' loc= '' @ fixed2 x @ '' '' @ fixed2 y @ '' '' @ fixed2 z @ [CHR 0x0A])"

definition wanted :: "u16 \<Rightarrow> nat \<Rightarrow> bool" where
  "wanted nid i \<longleftrightarrow> nid = 0xffff \<or> unat nid = i"

fun position_loop ::
  "(nat \<Rightarrow> pos3 option) \<Rightarrow> u16 \<Rightarrow> int \<Rightarrow> nat list \<Rightarrow> nat \<Rightarrow> char list \<Rightarrow> (nat \<times> char list) outcome" where
  "position_loop mob nid buflen [] n b = Ret (n, b)"
| "position_loop mob nid buflen (i # is) n b = (case mob i of
     None \<Rightarrow> position_loop mob nid buflen is n b
   | Some p \<Rightarrow>
       if \<not> wanted nid i then position_loop mob nid buflen is n b
       else
         let t = position_line i p; n1 = n + length t
         in bindo (snprintf_at n (buflen - int n) t b) (\<lambda>b1.
              if int n1 > buflen - 50
              then bindo (snprintf_at n1 (buflen - int n1) ''[TRUNC]'' b1) (\<lambda>b2. Ret (n1 + 7, b2))
              else position_loop mob nid buflen is n1 b1))"

definition file_values :: "(nat \<Rightarrow> pos3 option) \<Rightarrow> u16 \<Rightarrow> nat list \<Rightarrow> (nat \<times> pos3) list" where
  "file_values mob nid is = List.map_filter (\<lambda>i. if wanted nid i then map_option (Pair i) (mob i) else None) is"

text \<open>The text of such a file.\<close>

definition file_line :: "nat \<Rightarrow> pos3 \<Rightarrow> string" where
  "file_line i p = (case p of (x, y, z) \<Rightarrow>
     ''Node '' @ dec_nat i @ '' Location= '' @ ostream_double x @ '' '' @ ostream_double y @ '' '' @
     ostream_double z @ [CHR 0x0A])"

definition file_text :: "(nat \<times> pos3) list \<Rightarrow> string" where
  "file_text vs = concat (List.map (\<lambda>(i, p). file_line i p) vs)"

definition cmd_node_position :: al_cmd where
  "cmd_node_position w nid b buflen s =
     (let is = [0..<al_nodes s]; f = cstr b
      in if f \<noteq> [] then
           (if \<not> w_open w f then
              (let t = ''could not open file '' @ snprintf_text 256 f
               in bindo (snprintf_at 0 buflen t b) (\<lambda>b1. Ret (int (length t), b1, s)))
            else bindo (snprintf_at 0 buflen ''SUCCESS'' b) (\<lambda>b1.
                   Ret (7, b1, s\<lparr>al_files := al_files s @ [(f, file_values (al_mob s) nid is)]\<rparr>)))
         else bindo (position_loop (al_mob s) nid buflen is 0 b) (\<lambda>(n, b1). Ret (int n, b1, s)))"

text \<open>\<open>strtok_r(buf, " ", &saveptr)\<close> from an offset: the token, the next offset, the new bytes.\<close>

definition strtok_r :: "nat \<Rightarrow> char list \<Rightarrow> (string \<times> nat \<times> char list) option" where
  "strtok_r p b =
     (let q = p + length (takeWhile (\<lambda>c. c = CHR '' '') (drop p b));
          t = cstr (drop q b); tok = takeWhile (\<lambda>c. c \<noteq> CHR '' '') t; e = q + length tok
      in if tok = [] then None
         else if length tok = length t then Some (tok, e, b) else Some (tok, e + 1, b[e := NUL]))"

definition reply :: "string \<Rightarrow> char list \<Rightarrow> int \<Rightarrow> airline \<Rightarrow> (int \<times> char list \<times> airline) outcome" where
  "reply t b buflen s = bindo (snprintf_at 0 buflen t b) (\<lambda>b1. Ret (int (length t), b1, s))"

definition cmd_set_node_position :: al_cmd where
  "cmd_set_node_position w nid b buflen s =
     bindo (CFG_STOI (al_cfg s) ''numOfNodes'') (\<lambda>numNodes.
       if \<not> IN_RANGE (uint nid) 0 numNodes then
         reply (''NodeID mandatory for setting node pos id='' @ dec_int (uint nid)) b buflen s
       else case strtok_r 0 b of
         None \<Rightarrow> reply ''invalid loc format! No x pos!'' b buflen s
       | Some (tx, p1, b1) \<Rightarrow> (case stod tx of
           None \<Rightarrow> Fault Exception
         | Some x \<Rightarrow> (case strtok_r p1 b1 of
             None \<Rightarrow> reply ''invalid loc format! No y pos!'' b1 buflen s
           | Some (ty, p2, b2) \<Rightarrow> (case stod ty of
               None \<Rightarrow> Fault Exception
             | Some y \<Rightarrow>
                 (case (case strtok_r p2 b2 of None \<Rightarrow> Some (0, b2)
                        | Some (tz, p3, b3) \<Rightarrow> map_option (\<lambda>z. (z, b3)) (stod tz)) of
                   None \<Rightarrow> Fault Exception
                 | Some (z, b3) \<Rightarrow>
                     if unat nid \<ge> al_nodes s \<or> al_mob s (unat nid) = None then Fault Out_Of_Bounds
                     else reply ''SUCCESS'' b3 buflen
                            (s\<lparr>al_mob := (al_mob s)(unat nid := Some (x, y, z))\<rparr>))))))"

section \<open>The other commands\<close>

definition getNodeConfigVal :: "config \<Rightarrow> u16 \<Rightarrow> string \<Rightarrow> char list \<Rightarrow> int \<Rightarrow> (int \<times> char list) outcome" where
  "getNodeConfigVal c nid key val vallen = (case get_node_info c nid of
     None \<Rightarrow> bindo (snprintf_at 0 vallen (''cudnot get nodeinfo id='' @ dec_int (uint nid)) val) (\<lambda>v. Ret (0, v))
   | Some ni \<Rightarrow>
       if key = ''nodeexec'' then
         bindo (snprintf_at 0 vallen (nodeExec ni) val) (\<lambda>v. Ret (int (length (nodeExec ni)), v))
       else bindo (snprintf_at 0 vallen (''unknown key ['' @ key @ '']'') val) (\<lambda>v. Ret (0, v)))"

definition cmd_node_exec :: al_cmd where
  "cmd_node_exec w nid b buflen s =
     bindo (getNodeConfigVal (al_cfg s) nid ''nodeexec'' b buflen) (\<lambda>(n, b1). Ret (n, b1, s))"

definition cmd_802154_set_ext_addr :: al_cmd where
  "cmd_802154_set_ext_addr w nid b buflen s =
     bindo (ifaceSetAddress (w_build w) (al_cfg s) (uint nid) b buflen (al_ctx s)) (\<lambda>(r, x).
       reply (if r = SUCCESS then ''SUCCESS'' else ''FAILURE'') b buflen (s\<lparr>al_ctx := x\<rparr>))"

definition cmd_mac_stats :: al_cmd where
  "cmd_mac_stats w nid b buflen s =
     bindo (get_summary (w_now w) nid buflen (al_ms s)) (\<lambda>(t, n).
       if length t < length b then Ret (n, store_str b t, s) else Fault Out_Of_Bounds)"

section \<open>Dispatch\<close>

definition cmd_matches :: "string \<Rightarrow> msg_buf \<Rightarrow> bool" where
  "cmd_matches name m \<longleftrightarrow> strncasecmp_pre (mb_str m) name"

definition HANDLE_CMD :: "world \<Rightarrow> al_cmd \<Rightarrow> msg_buf \<Rightarrow> airline \<Rightarrow> (msg_buf \<times> airline) outcome" where
  "HANDLE_CMD w cmd m s =
     (if NUL \<notin> set (buf m) then Fault Out_Of_Bounds
      else bindo (cmd w (src_id m) (take_arg (buf m)) (int COMMLINE_MAX_BUF) s) (\<lambda>(n, b, s1).
             Ret (m\<lparr>mb_len := word_of_int n, buf := b\<rparr>, s1)))"

definition al_handle_cmd :: "world \<Rightarrow> msg_buf \<Rightarrow> airline \<Rightarrow> (msg_buf \<times> airline) outcome" where
  "al_handle_cmd w m s =
     (if cmd_matches ''cmd_mac_stats'' m then HANDLE_CMD w cmd_mac_stats m s
      else if NUL \<notin> set (buf m) then Fault Out_Of_Bounds
      else
        let t = ''AL_INVALID_CMD('' @ snprintf_text 256 (mb_str m) @ '')''
        in bindo (snprintf_at 0 (uint (max_len m)) t (buf m)) (\<lambda>b.
             Ret (m\<lparr>mb_len := of_nat (length t), buf := b\<rparr>, s)))"

definition handle_al_cmd :: "world \<Rightarrow> msg_buf \<Rightarrow> airline \<Rightarrow> (msg_buf \<times> airline) outcome" where
  "handle_al_cmd w m s =
     (if cmd_matches ''cmd_node_exec'' m then HANDLE_CMD w cmd_node_exec m s
      else if cmd_matches ''cmd_node_position'' m then HANDLE_CMD w cmd_node_position m s
      else if cmd_matches ''cmd_set_node_position'' m then HANDLE_CMD w cmd_set_node_position m s
      else if cmd_matches ''cmd_802154_set_ext_addr'' m then HANDLE_CMD w cmd_802154_set_ext_addr m s
      else al_handle_cmd w m s)"

section \<open>The report of the positions\<close>

text \<open>The lines of the nodes asked for, and the loop over them.\<close>

fun lines_of :: "(nat \<Rightarrow> pos3 option) \<Rightarrow> u16 \<Rightarrow> nat list \<Rightarrow> string list" where
  "lines_of mob nid [] = []"
| "lines_of mob nid (i # is) =
     (case mob i of None \<Rightarrow> lines_of mob nid is
      | Some p \<Rightarrow> if wanted nid i then position_line i p # lines_of mob nid is else lines_of mob nid is)"

fun line_loop :: "int \<Rightarrow> string list \<Rightarrow> nat \<Rightarrow> char list \<Rightarrow> (nat \<times> char list) outcome" where
  "line_loop buflen [] n b = Ret (n, b)"
| "line_loop buflen (t # ts) n b =
     bindo (snprintf_at n (buflen - int n) t b) (\<lambda>b1.
       if int (n + length t) > buflen - 50
       then bindo (snprintf_at (n + length t) (buflen - int (n + length t)) ''[TRUNC]'' b1)
              (\<lambda>b2. Ret (n + length t + 7, b2))
       else line_loop buflen ts (n + length t) b1)"

lemma position_loop_lines:
  "position_loop mob nid buflen is n b = line_loop buflen (lines_of mob nid is) n b"
proof (induction "is" arbitrary: n b)
  case (Cons i "is")
  then show ?case by (cases "mob i") (simp_all add: Let_def del: of_nat_add cong: if_cong)
qed simp

text \<open>The text of the report: cut after the line that passes 1998 characters.\<close>

fun capped :: "string \<Rightarrow> string list \<Rightarrow> string" where
  "capped a [] = a"
| "capped a (t # ts) = (if length (a @ t) > 1998 then a @ t @ ''[TRUNC]'' else capped (a @ t) ts)"

lemma line_loop_capped:
  "\<lbrakk>\<forall>t \<in> set ts. length t \<le> 41; length a \<le> 1998; length b = 2049\<rbrakk> \<Longrightarrow>
   line_loop 2048 ts (length a) (store_str b a) = Ret (length (capped a ts), store_str b (capped a ts))
   \<and> length (capped a ts) < 2048"
proof (induction ts arbitrary: a)
  case (Cons t ts)
  then have t: "snprintf_at (length a) (2048 - int (length a)) t (store_str b a) = Ret (store_str b (a @ t))"
    by (intro snprintf_at_append) auto
  have tl: "length t \<le> 41" using Cons.prems by simp
  show ?case
  proof (cases "length (a @ t) > 1998")
    case True
    have "snprintf_at (length (a @ t)) (2048 - int (length (a @ t))) ''[TRUNC]'' (store_str b (a @ t))
        = Ret (store_str b ((a @ t) @ ''[TRUNC]''))"
      using Cons.prems tl by (intro snprintf_at_append) auto
    then have "snprintf_at (length a + length t) (2048 - int (length a + length t)) ''[TRUNC]'' (store_str b (a @ t))
        = Ret (store_str b (a @ t @ ''[TRUNC]''))" by simp
    with True t Cons.prems tl show ?thesis by (simp del: of_nat_add)
  next
    case False
    then have "length (a @ t) \<le> 1998" by simp
    from Cons.IH [OF _ this] Cons.prems False t show ?thesis by simp
  qed
qed simp

lemma capped_cases:
  "length a \<le> 1998 \<Longrightarrow> (capped a ts = a @ concat ts \<and> length (a @ concat ts) \<le> 1998) \<or>
   (\<exists>k < length ts. capped a ts = a @ concat (take (Suc k) ts) @ ''[TRUNC]'' \<and>
      length (a @ concat (take k ts)) \<le> 1998 \<and> 1998 < length (a @ concat (take (Suc k) ts)))"
proof (induction ts arbitrary: a)
  case (Cons t ts)
  show ?case
  proof (cases "length (a @ t) > 1998")
    case True
    with Cons.prems show ?thesis by (intro disjI2 exI [of _ 0]) auto
  next
    case False
    then have "length (a @ t) \<le> 1998" by simp
    from Cons.IH [OF this] False show ?thesis
    proof (elim disjE exE conjE)
      fix k assume k: "k < length ts" "capped (a @ t) ts = (a @ t) @ concat (take (Suc k) ts) @ ''[TRUNC]''"
        "length ((a @ t) @ concat (take k ts)) \<le> 1998" "1998 < length ((a @ t) @ concat (take (Suc k) ts))"
      with False show ?thesis by (intro disjI2 exI [of _ "Suc k"]) auto
    qed auto
  qed
qed simp

lemma line_loop_overflow:
  "\<lbrakk>k < length ts; length a + length (concat (take k ts)) \<le> 1998;
    2048 < length a + length (concat (take (Suc k) ts)); length b = 2049\<rbrakk> \<Longrightarrow>
   line_loop 2048 ts (length a) (store_str b a) = Fault Out_Of_Bounds"
proof (induction ts arbitrary: a k)
  case (Cons t ts)
  show ?case
  proof (cases k)
    case 0
    with Cons.prems have len: "length a \<le> 1998" "2048 < length a + length t" by auto
    then have "2048 - int (length a) > 0" "nat (2048 - int (length a)) = 2048 - length a" by linarith+
    with len Cons.prems(4) obtain b1 where "snprintf_at (length a) (2048 - int (length a)) t (store_str b a) = Ret b1"
      by (auto simp: snprintf_at_def snprintf_text_def store_str_def Let_def)
    with len show ?thesis by (simp add: snprintf_at_def)
  next
    case (Suc j)
    with Cons.prems have len: "length a + length t \<le> 1998" by simp
    have "snprintf_at (length a) (2048 - int (length a)) t (store_str b a) = Ret (store_str b (a @ t))"
      using len Cons.prems by (intro snprintf_at_append) auto
    with len Suc Cons.prems Cons.IH [of j "a @ t"] show ?thesis by simp
  qed
qed simp

lemma round_even_floor: "round_even q \<le> \<lfloor>q\<rfloor> + 1"
  by (simp add: round_even_def Let_def)

lemma length_fixed2: "\<bar>x\<bar> < 99999 \<Longrightarrow> length (fixed2 x) \<le> 9"
proof -
  assume x: "\<bar>x\<bar> < 99999"
  have "\<lfloor>a\<rfloor> \<le> 9999900" if "a < 9999900" for a :: rat using that by (simp add: floor_le_iff)
  from this [of "\<bar>x\<bar> * 100"] round_even_floor [of "\<bar>x\<bar> * 100"] x
  have n: "nat (round_even (\<bar>x\<bar> * 100)) \<le> 9999901" by linarith
  define n where "n = nat (round_even (\<bar>x\<bar> * 100))"
  have "n div 100 \<le> 9999901 div 100" using n unfolding n_def by (rule div_le_mono)
  then have d: "n div 100 < 10 ^ 5" by simp
  have m: "n mod 100 < 10 ^ 2" by simp
  from length_dec_nat [OF d] length_dec_nat [OF m] show ?thesis
    unfolding fixed2_def Let_def n_def [symmetric] by (simp add: pad0_def)
qed

definition near :: "pos3 \<Rightarrow> bool" where
  "near p = (case p of (x, y, z) \<Rightarrow> \<bar>x\<bar> < 99999 \<and> \<bar>y\<bar> < 99999 \<and> \<bar>z\<bar> < 99999)"

lemma length_position_line: "i < 65536 \<Longrightarrow> near p \<Longrightarrow> length (position_line i p) \<le> 41"
proof -
  assume i: "i < 65536" and p: "near p"
  obtain x y z where xyz: "p = (x, y, z)" by (cases p)
  with p have "length (fixed2 x) \<le> 9" "length (fixed2 y) \<le> 9" "length (fixed2 z) \<le> 9"
    by (simp_all add: near_def length_fixed2)
  moreover have "length (dec_nat i) \<le> 5" using i by (intro length_dec_nat) simp_all
  ultimately show ?thesis by (simp add: xyz position_line_def)
qed

lemma lines_of_set:
  "t \<in> set (lines_of mob nid is) \<Longrightarrow> \<exists>i \<in> set is. \<exists>p. mob i = Some p \<and> t = position_line i p"
  by (induction "is") (auto split: option.splits if_splits)

lemma empty_arg: "cstr b = [] \<Longrightarrow> b \<noteq> [] \<Longrightarrow> store_str b [] = b"
  by (cases b) (auto simp: cstr_def store_str_def split: if_splits)

lemma cmd_node_position_lines:
  assumes "cstr b = []" "b \<noteq> []"
  shows "cmd_node_position w nid b 2048 s =
    bindo (line_loop 2048 (lines_of (al_mob s) nid [0..<al_nodes s]) (length []) (store_str b []))
      (\<lambda>(n, b1). Ret (int n, b1, s))"
  using assms by (simp add: cmd_node_position_def position_loop_lines empty_arg Let_def)

text \<open>
  C23: The report of the positions is complete or visibly cut: with every coordinate below 99999
  metres the reply is the lines of the nodes asked for, in order, or their longest prefix up to
  the line that passes 1998 characters followed by \<open>[TRUNC]\<close>; the returned length is exact
  and the buffer is never overrun, for up to 65536 nodes.
\<close>

theorem position_report_bounded:
  assumes "cstr b = []" "length b = 2049" "al_nodes s \<le> 65536"
    and "\<forall>i < al_nodes s. \<forall>p. al_mob s i = Some p \<longrightarrow> near p"
    and "ls = lines_of (al_mob s) nid [0..<al_nodes s]"
  shows "\<exists>t. cmd_node_position w nid b 2048 s = Ret (int (length t), store_str b t, s) \<and> length t < 2048 \<and>
    ((t = concat ls \<and> length t \<le> 1998) \<or>
     (\<exists>k < length ls. t = concat (take (Suc k) ls) @ ''[TRUNC]'' \<and>
        length (concat (take k ls)) \<le> 1998 \<and> 1998 < length (concat (take (Suc k) ls))))"
proof -
  have "\<forall>t \<in> set ls. length t \<le> 41"
  proof
    fix t assume "t \<in> set ls"
    then obtain i p where i: "i < al_nodes s" "al_mob s i = Some p" and t: "t = position_line i p"
      using lines_of_set unfolding assms(5) by (metis atLeastLessThan_iff set_upt)
    then have "near p" using assms(4) by blast
    with i(1) assms(3) show "length t \<le> 41" unfolding t by (intro length_position_line) simp
  qed
  from line_loop_capped [OF this _ assms(2), of "[]"]
  have l: "line_loop 2048 ls (length []) (store_str b []) = Ret (length (capped [] ls), store_str b (capped [] ls))"
    "length (capped [] ls) < 2048" by simp_all
  have "b \<noteq> []" using assms(2) by auto
  from cmd_node_position_lines [OF assms(1) this, of w nid s] l(1)
  have "cmd_node_position w nid b 2048 s = Ret (int (length (capped [] ls)), store_str b (capped [] ls), s)"
    unfolding assms(5) [symmetric] by simp
  moreover have "(capped [] ls = concat ls \<and> length (capped [] ls) \<le> 1998) \<or>
    (\<exists>k < length ls. capped [] ls = concat (take (Suc k) ls) @ ''[TRUNC]'' \<and>
        length (concat (take k ls)) \<le> 1998 \<and> 1998 < length (concat (take (Suc k) ls)))"
    using capped_cases [of "[]" ls, unfolded append_Nil list.size(3), OF le0]
  proof
    assume "capped [] ls = concat ls \<and> length (concat ls) \<le> 1998"
    then show ?thesis by simp
  qed (rule disjI2)
  ultimately show ?thesis using l(2) by blast
qed

definition demo_world :: world where
  "demo_world = \<lparr>w_uid = 0, w_now = 5, w_build = \<lparr>PLC = False, mac48_parse = parse_mac48\<rparr>, w_open = (\<lambda>_. True),
     w_alloc = (\<lambda>_ i. (rat_of_nat i, 0, 0))\<rparr>"

definition demo_al :: "config \<Rightarrow> nat \<Rightarrow> pos3 \<Rightarrow> airline" where
  "demo_al c n p = \<lparr>al_ms = demo_ms\<lparr>cfg := c\<rparr>,
     al_ctx = \<lparr>c_ns3 = demo_net n, c_plc = \<lparr>plcNodes = [], plc_devs = [], plc_log = []\<rparr>, c_inited = (\<lambda>_. False)\<rparr>,
     al_mob = (\<lambda>_. Some p), al_files = [], m_sendEvent = False\<rparr>"

lemma demo_al_simps [simp]:
  "n_nodes (demo_net n) = n" "al_mob (demo_al c n p) = (\<lambda>_. Some p)" "al_cfg (demo_al c n p) = c"
  "al_ctx (demo_al c n p) = \<lparr>c_ns3 = demo_net n, c_plc = \<lparr>plcNodes = [], plc_devs = [], plc_log = []\<rparr>, c_inited = (\<lambda>_. False)\<rparr>"
  "al_ms (demo_al c n p) = demo_ms\<lparr>cfg := c\<rparr>"
  by (simp_all add: demo_al_def demo_net_def)

lemma position_report_bounded_witness:
  "\<exists>t. cmd_node_position demo_world 0xffff (replicate 2049 NUL) 2048 (demo_al new_config 2 (1, 5 / 2, - 7))
     = Ret (int (length t), store_str (replicate 2049 NUL) t, demo_al new_config 2 (1, 5 / 2, - 7)) \<and> length t < 2048"
proof -
  have "cstr (replicate 2049 NUL) = []" by (simp add: cstr_def)
  then show ?thesis
    using position_report_bounded [of "replicate 2049 NUL" "demo_al new_config 2 (1, 5 / 2, - 7)" _ "0xffff" demo_world,
      OF _ length_replicate _ _ refl]
    by (simp add: near_def) blast
qed

text \<open>
  Large coordinates overrun the reply: as soon as one line takes the report from at most 1998
  to more than 2048 characters, the command writes past the end of its buffer.
\<close>

theorem long_positions_overrun:
  assumes "cstr b = []" "length b = 2049" "ls = lines_of (al_mob s) nid [0..<al_nodes s]"
    and "k < length ls" "length (concat (take k ls)) \<le> 1998" "2048 < length (concat (take (Suc k) ls))"
  shows "cmd_node_position w nid b 2048 s = Fault Out_Of_Bounds"
proof -
  have "b \<noteq> []" using assms(2) by auto
  from cmd_node_position_lines [OF assms(1) this] line_loop_overflow [of k ls "[]" b] assms show ?thesis by simp
qed

lemma fixed2_nat: "fixed2 (of_nat n) = dec_nat n @ ''.00''"
proof -
  have "\<bar>of_nat n :: rat\<bar> * 100 = of_int (int (n * 100))" by simp
  then have r: "round_even (\<bar>of_nat n\<bar> * 100) = int (n * 100)"
    unfolding round_even_def Let_def by (metis floor_of_int add.right_neutral diff_self zero_less_divide_1_iff zero_less_numeral)
  have "pad0 2 (dec_nat 0) = ''00''" by code_simp
  then show ?thesis unfolding fixed2_def Let_def r nat_int by simp
qed

lemma long_line:
  assumes "(10::nat) ^ 300 \<le> N" "N < 10 ^ 301" "i < 10"
  shows "length (position_line i (of_nat N, of_nat N, of_nat N)) = 922"
proof -
  have "300 < length (dec_nat N)" unfolding dec_nat_def using assms(1) by (intro length_to_base_ge) simp_all
  moreover have "length (dec_nat N) \<le> 301" using assms(2) by (intro length_dec_nat) simp_all
  moreover have "length (dec_nat i) = 1" using assms(3) by (simp add: dec_nat_def to_base.simps)
  ultimately show ?thesis by (simp add: position_line_def fixed2_nat)
qed

lemma demo_three_lines:
  "lines_of (al_mob (demo_al c 3 p)) 0xffff [0..<al_nodes (demo_al c 3 p)] = [position_line 0 p, position_line 1 p, position_line 2 p]"
  by (simp add: upt_rec wanted_def numeral_2_eq_2)

lemma long_positions_overrun_witness:
  "cmd_node_position demo_world 0xffff (replicate 2049 NUL) 2048
     (demo_al new_config 3 (of_nat (10 ^ 300), of_nat (10 ^ 300), of_nat (10 ^ 300))) = Fault Out_Of_Bounds"
proof -
  define N :: nat where "N = 10 ^ 300"
  have N: "10 ^ 300 \<le> N" "N < 10 ^ 301" by (simp_all add: N_def)
  let ?l = "\<lambda>i. position_line i (of_nat N, of_nat N, of_nat N)"
  have "cstr (replicate 2049 NUL) = []" by (simp add: cstr_def)
  moreover have "length (concat (take 2 [?l 0, ?l 1, ?l 2])) = 1844" "length (concat (take (Suc 2) [?l 0, ?l 1, ?l 2])) = 2766"
    using long_line [OF N] by (simp_all add: numeral_2_eq_2)
  ultimately show ?thesis
    unfolding N_def [symmetric]
    by (intro long_positions_overrun [where k = 2, OF _ length_replicate refl]) (simp_all only: demo_three_lines, simp_all)
qed

section \<open>Setting an extended address\<close>

text \<open>
  The command that sets an extended address never sets one: for every 802.15.4 node and every
  argument it answers \<open>SUCCESS\<close> and makes no call, since it passes the size of the reply buffer
  as the size of the address.
\<close>

theorem ext_addr_never_set:
  assumes "getIfaceApi (al_cfg s) = IFACE_LRWPAN" "unat (src_id m) < al_nodes s" "has_lrwpan (c_ns3 (al_ctx s)) (unat (src_id m))"
    and "length (buf m) = 2049" "buf m = store_str bs (''cmd_802154_set_ext_addr:'' @ a)"
    and "NUL \<notin> set a" "length a + 24 < length bs"
  shows "\<exists>m1. handle_al_cmd w m s = Ret (m1, s) \<and> mb_str m1 = ''SUCCESS'' \<and> mb_len m1 = 7"
proof -
  let ?n = "''cmd_802154_set_ext_addr''"
  have b: "buf m = store_str bs (?n @ '':'' @ a)" using assms(5) by simp
  note arg = take_arg_colon [OF b _ _ assms(6)]
  have len: "length (take_arg (buf m)) = 2049"
    using arg(2) assms(4,7) length_store_str [of "?n @ '':'' @ a" bs] b by simp
  have str: "mb_str m = ?n @ '':'' @ a" unfolding mb_str_def b using assms(6) by simp
  have d: "cmd_matches ''cmd_node_exec'' m = False" "cmd_matches ''cmd_node_position'' m = False"
    "cmd_matches ''cmd_set_node_position'' m = False" "cmd_matches ?n m"
    unfolding cmd_matches_def str strncasecmp_pre_def by (simp_all add: tolower_def)
  have "getDev (uint (src_id m)) (c_ns3 (al_ctx s)) = Ret True"
    using assms(2,3) by (simp add: getDev_def uint_nat nat_less_iff del: of_nat_unat)
  then have "ifaceSetAddress (w_build w) (al_cfg s) (uint (src_id m)) x 2048 (al_ctx s) = Ret (SUCCESS, al_ctx s)" for x
    using assms(1) by (simp add: ifaceSetAddress_def lrwpanSetAddress_def on_ns3_def)
  then have "cmd_802154_set_ext_addr w (src_id m) (take_arg (buf m)) 2048 s
      = Ret (7, store_str (take_arg (buf m)) ''SUCCESS'', s)"
    using len snprintf_at_start [of "''SUCCESS''" 2048 "take_arg (buf m)"]
    by (simp add: cmd_802154_set_ext_addr_def reply_def)
  with b d show ?thesis
    by (simp add: handle_al_cmd_def HANDLE_CMD_def COMMLINE_MAX_BUF_def NUL_in_store_str mb_str_def)
qed

lemma new_config_lrwpan: "getIfaceApi new_config = IFACE_LRWPAN"
  by (simp add: getIfaceApi_def cfg_get_def new_config_def kv_find_def stricmp_eq_def strcasecmp_eq_def)

definition demo_cmd :: "string \<Rightarrow> msg_buf" where
  \<comment> \<open>a command for node 1 as the airline receives it\<close>
  "demo_cmd c = (put_str c DEFINE_MBUF)\<lparr>src_id := 1, flags := MBUF_IS_CMD, mb_len := of_nat (length c)\<rparr>"

lemma ext_addr_never_set_witness:
  "\<exists>m1. handle_al_cmd demo_world (demo_cmd ''cmd_802154_set_ext_addr:0011223344556677'') (demo_al new_config 2 (0, 0, 0))
     = Ret (m1, demo_al new_config 2 (0, 0, 0)) \<and> mb_str m1 = ''SUCCESS'' \<and> mb_len m1 = 7"
proof -
  let ?m = "demo_cmd ''cmd_802154_set_ext_addr:0011223344556677''"
  have "buf ?m = store_str (buf DEFINE_MBUF) (''cmd_802154_set_ext_addr:'' @ ''0011223344556677'')"
    by (simp add: demo_cmd_def put_str_def)
  moreover have "length (buf ?m) = 2049" by (simp add: demo_cmd_def put_str_def store_str_def)
  ultimately show ?thesis
    using new_config_lrwpan
    by (intro ext_addr_never_set [where bs = "buf DEFINE_MBUF" and a = "''0011223344556677''"])
      (simp_all add: demo_cmd_def demo_net_def)
qed

end
