(* ===== verification/Cmd_Parser.thy ===== *)
theory Cmd_Parser
  imports Node_Config Commline_API
begin

text \<open>
  The command line of a node: \<open>Config::getNextCmdToken\<close>, \<open>resolveToken\<close>, \<open>cmdParser\<close> and
  \<open>spawnStackline\<close> of \<open>airline/Config.cc\<close>.  A configured command is cut into tokens, the
  node id is substituted, and the tokens joined with \<open>|\<close> are sent to the forker.
\<close>

section \<open>Tokens\<close>

fun copyBetweenPtr :: "string \<Rightarrow> nat \<Rightarrow> string" where
  "copyBetweenPtr [] n = []"
| "copyBetweenPtr (c # cs) n = (if n > 1 \<and> c \<noteq> NUL then c # copyBetweenPtr cs (n - 1) else [])"

text \<open>
  The position is the rest of the string, \<open>None\<close> the null pointer; the result is the token
  (or \<open>None\<close>) and the saved position.
\<close>

definition DQUOTE :: char where "DQUOTE = CHR 0x22"

definition getNextCmdToken ::
  "string option \<Rightarrow> string option \<Rightarrow> nat \<Rightarrow> string option \<times> string option" where
  "getNextCmdToken ptr state tok_len =
     (case (if ptr = None then state else ptr) of
        None \<Rightarrow> (None, state)
      | Some s \<Rightarrow> (case dropWhile isspace s of
          [] \<Rightarrow> (None, state)
        | c # cs \<Rightarrow>
            if c = DQUOTE then
              (case strchr DQUOTE cs of
                 None \<Rightarrow> (None, state)
               | Some e \<Rightarrow> (Some (copyBetweenPtr (takeWhile (\<lambda>x. x \<noteq> DQUOTE) cs) tok_len), Some (tl e)))
            else (case strchr (CHR '' '') (c # cs) of
                 None \<Rightarrow> (Some (take (tok_len - 1) (c # cs)), None)
               | Some e \<Rightarrow> (Some (copyBetweenPtr (takeWhile (\<lambda>x. x \<noteq> CHR '' '') (c # cs)) tok_len), Some (tl e)))))"

text \<open>
  \<open>strncpy(ptr, num, len); ptr[len] = 0; strcat(ptr, ptr + gap)\<close>, byte by byte: the rest
  survives when the number is shorter than the text it replaces, is lost when it has the
  same length, and \<open>strcat\<close> runs off the buffer when the number is longer.
\<close>

definition splice :: "string \<Rightarrow> string \<Rightarrow> nat \<Rightarrow> string outcome" where
  "splice num rest gap =
     (if length num < gap then Ret (num @ rest)
      else if length num = gap then Ret num else Fault Overlap)"

definition resolveToken :: "u16 \<Rightarrow> string \<Rightarrow> string outcome" where
  "resolveToken nodeID tok = (case strchr (CHR ''$'') tok of
     None \<Rightarrow> Ret tok
   | Some p \<Rightarrow>
       let pre = takeWhile (\<lambda>x. x \<noteq> CHR ''$'') tok
       in if strncmp_pre p ''$NODEID+'' then
            (if length p < 9 then Fault Out_Of_Bounds
             else bindo (splice (dec_int (uint nodeID + atoi (drop 8 p))) (drop 9 p) 9) (\<lambda>r. Ret (pre @ r)))
          else if strncmp_pre p ''$NODEID'' then
            bindo (splice (dec_int (uint nodeID)) (drop 7 p) 7) (\<lambda>r. Ret (pre @ r))
          else Ret tok)"

section \<open>The parser loop\<close>

definition TOK_SZ :: nat where "TOK_SZ = 512"
definition CMD_BUF_SZ :: nat where "CMD_BUF_SZ = 1024"

lemma getNextCmdToken_shorter:
  assumes "getNextCmdToken ptr st n = (Some t, Some s')"
  obtains s where "(if ptr = None then st else ptr) = Some s" "length s' < length s"
proof -
  have tl: "length (tl e) < length s" if hyp: "dropWhile isspace s = c # cs" "strchr d x = Some e"
    "x = cs \<or> x = c # cs" for s c cs d x e
  proof -
    obtain a b where "x = a @ d # b" "e = d # b" using strchr_eq_SomeE [OF hyp(2)] by metis
    then have "length (tl e) < length x" by simp
    moreover have "length (c # cs) \<le> length s" using length_dropWhile_le [of isspace s] hyp(1) by simp
    ultimately show ?thesis using hyp(3) by auto
  qed
  show thesis
  proof (cases "if ptr = None then st else ptr")
    case None
    with assms show thesis by (simp add: getNextCmdToken_def)
  next
    case (Some s)
    with assms show thesis
      by (intro that [OF Some])
        (auto simp: getNextCmdToken_def split: list.splits option.splits if_splits intro: tl)
  qed
qed

text \<open>One round on the token, then the next call with a null pointer.\<close>

definition add_token :: "string \<Rightarrow> string \<Rightarrow> string outcome" where
  "add_token tok out =
     (let out1 = (if out = [] then out else out @ ''|'') @ tok
      in if length out1 \<ge> CMD_BUF_SZ - 10 then Fault Exit else Ret out1)"

function cmd_loop :: "u16 \<Rightarrow> string option \<Rightarrow> string option \<Rightarrow> string \<Rightarrow> string outcome" where
  "cmd_loop nodeID ptr saveptr out = (case getNextCmdToken ptr saveptr TOK_SZ of
     (None, _) \<Rightarrow> Ret out
   | (Some tok, st) \<Rightarrow>
       bindo (resolveToken nodeID tok) (\<lambda>tok1. bindo (add_token tok1 out) (\<lambda>out1.
         cmd_loop nodeID None st out1)))"
  by pat_completeness auto
termination
proof (relation "measure (\<lambda>(i, ptr, st, out). case (if ptr = None then st else ptr) of
    None \<Rightarrow> 0 | Some s \<Rightarrow> Suc (length s))", goal_cases)
  case (2 nodeID ptr saveptr out x1 st tok tok1 out1)
  then have g: "getNextCmdToken ptr saveptr TOK_SZ = (Some tok, st)" by simp
  show ?case
  proof (cases st)
    case None
    have "(if ptr = None then saveptr else ptr) \<noteq> None" using g by (auto simp: getNextCmdToken_def split: option.splits)
    with None show ?thesis by auto
  next
    case (Some s')
    with getNextCmdToken_shorter [of ptr saveptr TOK_SZ tok s'] g
    obtain s where "(if ptr = None then saveptr else ptr) = Some s" "length s' < length s" by blast
    with Some show ?thesis by auto
  qed
qed simp

declare cmd_loop.simps [simp del]

definition cmdParser :: "string \<Rightarrow> u16 \<Rightarrow> string outcome" where
  "cmdParser cmd nodeID = cmd_loop nodeID (Some cmd) None []"

section \<open>Spawning\<close>

text \<open>\<open>stk\<close> is the uninitialised buffer on the stack; the result is the sender's kernel state.\<close>

definition spawn_msg :: "u16 \<Rightarrow> string \<Rightarrow> msg_buf \<Rightarrow> msg_buf" where
  "spawn_msg nodeID cmd stk =
     (put_str (snprintf_text COMMLINE_MAX_BUF cmd) stk)\<lparr>mb_len := of_nat (length cmd), src_id := nodeID\<rparr>"

definition spawnStackline ::
  "u32 \<Rightarrow> msg_buf \<Rightarrow> u16 \<Rightarrow> config \<Rightarrow> usock \<Rightarrow> kernel \<Rightarrow> kernel outcome" where
  "spawnStackline uid stk nodeID c u k =
     (if unat nodeID \<ge> length (nodeArray c) then Fault Out_Of_Bounds
      else
        let cmd = nodeExec (nodeArray c ! unat nodeID)
        in if cmd = [] then Fault Exit
           else bindo (cmdParser cmd nodeID) (\<lambda>cmd1.
             let m = spawn_msg nodeID cmd1 stk
             in bindo (cl_sendto_q uid (MTYPE FORKER CL_MGR_ID) (Some m)
                         (of_nat (length cmd1 + sizeof_msg_buf)) u k)
                  (\<lambda>(r, m', k'). Ret k')))"

text \<open>\<open>Airline::StartApplication\<close> of every node, in the order the simulator starts them.\<close>

fun start_applications ::
  "u32 \<Rightarrow> msg_buf \<Rightarrow> u16 list \<Rightarrow> config \<Rightarrow> usock \<Rightarrow> kernel \<Rightarrow> kernel outcome" where
  "start_applications uid stk [] c u k = Ret k"
| "start_applications uid stk (i # ids) c u k =
     bindo (spawnStackline uid stk i c u k) (start_applications uid stk ids c u)"

section \<open>Well-formed commands\<close>

text \<open>
  A word of a command is text, optionally with the node id in it (plain, or plus one digit).
  \<open>word_text\<close> is what the configuration file holds, \<open>word_value\<close> what the process must get.
\<close>

datatype cmd_word = Plain string | With_Id string string | With_Id_Plus string nat string

fun word_text :: "cmd_word \<Rightarrow> string" where
  "word_text (Plain s) = s"
| "word_text (With_Id a b) = a @ ''$NODEID'' @ b"
| "word_text (With_Id_Plus a d b) = a @ ''$NODEID+'' @ dec_nat d @ b"

fun word_value :: "u16 \<Rightarrow> cmd_word \<Rightarrow> string" where
  "word_value i (Plain s) = s"
| "word_value i (With_Id a b) = a @ dec_nat (unat i) @ b"
| "word_value i (With_Id_Plus a d b) = a @ dec_nat (unat i + d) @ b"

definition plain_word :: "string \<Rightarrow> bool" where
  "plain_word s \<longleftrightarrow> (\<forall>c \<in> set s. \<not> isspace c \<and> c \<noteq> DQUOTE \<and> c \<noteq> CHR ''|'' \<and> c \<noteq> CHR ''$'' \<and> c \<noteq> NUL)"

fun valid_word :: "cmd_word \<Rightarrow> bool" where
  "valid_word (Plain s) = (plain_word s \<and> s \<noteq> [])"
| "valid_word (With_Id a b) = (plain_word a \<and> plain_word b \<and> \<not> strncmp_pre b ''+'')"
| "valid_word (With_Id_Plus a d b) =
     (plain_word a \<and> plain_word b \<and> d < 10 \<and> (b = [] \<or> \<not> isdigit (hd b)))"

lemma copyBetweenPtr_all: "NUL \<notin> set s \<Longrightarrow> length s < n \<Longrightarrow> copyBetweenPtr s n = s"
  by (induction s n rule: copyBetweenPtr.induct) auto

lemma getNextCmdToken_word:
  assumes "s \<noteq> []" "\<forall>c \<in> set s. \<not> isspace c \<and> c \<noteq> DQUOTE \<and> c \<noteq> NUL" "length s < n"
    and "(if ptr = None then st else ptr) = Some (s @ r)"
  shows "r = [] \<Longrightarrow> getNextCmdToken ptr st n = (Some s, None)"
    and "r = CHR '' '' # q \<Longrightarrow> getNextCmdToken ptr st n = (Some s, Some q)"
proof -
  obtain c cs where s: "s = c # cs" using assms(1) by (cases s) auto
  have d: "dropWhile isspace (s @ r) = c # cs @ r" "c \<noteq> DQUOTE" using s assms(2) by auto
  have sp: "CHR '' '' \<notin> set s" "NUL \<notin> set s" using assms(2) by (auto simp: isspace_def)
  show "r = [] \<Longrightarrow> getNextCmdToken ptr st n = (Some s, None)"
    using assms(3,4) d sp s unfolding getNextCmdToken_def by simp
  assume r: "r = CHR '' '' # q"
  have "strchr (CHR '' '') (c # cs @ r) = Some r" "takeWhile (\<lambda>x. x \<noteq> CHR '' '') (c # cs @ r) = s"
    using sp r s strchr_Some [of "CHR '' ''" s q] takeWhile_neq_stop [of "CHR '' ''" s q] by auto
  with assms(3,4) d sp r show "getNextCmdToken ptr st n = (Some s, Some q)"
    unfolding getNextCmdToken_def by (simp add: copyBetweenPtr_all)
qed

lemma dec_int_unat: "dec_int (uint (i :: u16)) = dec_nat (unat i)"
  by (simp add: dec_int_def)

lemma dec_int_plus: "dec_int (uint (i :: u16) + int d) = dec_nat (unat i + d)"
proof -
  have "\<not> uint i + int d < 0" using uint_u16_range(1) [of i] by linarith
  then show ?thesis by (simp add: dec_int_def nat_add_distrib)
qed

lemma length_dec_u16: "length (dec_nat (unat (i :: u16))) \<le> 5"
  using unsigned_less [of i, where ?'a = nat] by (intro length_dec_nat) auto

lemma length_dec_u16_plus: "d < 10 \<Longrightarrow> length (dec_nat (unat (i :: u16) + d)) \<le> 5"
  using unsigned_less [of i, where ?'a = nat] by (intro length_dec_nat) auto

lemma dec_digit: "d < 10 \<Longrightarrow> dec_nat d = [digit_char d]"
  by (simp add: dec_nat_def to_base.simps)

lemma resolve_word:
  assumes "valid_word w"
  shows "resolveToken i (word_text w) = Ret (word_value i w)"
proof (cases w)
  case (Plain s)
  then have "CHR ''$'' \<notin> set s" using assms by (auto simp: plain_word_def)
  with Plain show ?thesis by (simp add: resolveToken_def)
next
  case (With_Id a b)
  have a: "CHR ''$'' \<notin> set a" using assms With_Id by (auto simp: plain_word_def)
  have "take 8 (''$NODEID'' @ b) \<noteq> ''$NODEID+''"
    using assms With_Id by (cases b) (auto simp: strncmp_pre_def)
  with a With_Id show ?thesis
    using strchr_Some [of "CHR ''$''" a "''NODEID'' @ b"] takeWhile_neq_stop [of "CHR ''$''" a "''NODEID'' @ b"]
      length_dec_u16 [of i]
    by (simp add: resolveToken_def strncmp_pre_def dec_int_unat splice_def)
next
  case (With_Id_Plus a d b)
  have a: "CHR ''$'' \<notin> set a" "d < 10" "b = [] \<or> \<not> isdigit (hd b)"
    using assms With_Id_Plus by (auto simp: plain_word_def)
  moreover have "atoi (digit_char d # b) = int d"
    using atoi_dec_nat [OF a(3), of d] a(2) by (simp add: dec_digit)
  ultimately show ?thesis
    using With_Id_Plus strchr_Some [of "CHR ''$''" a "''NODEID+'' @ dec_nat d @ b"]
      takeWhile_neq_stop [of "CHR ''$''" a "''NODEID+'' @ dec_nat d @ b"] length_dec_u16_plus [OF a(2), of i]
    by (simp add: resolveToken_def strncmp_pre_def dec_int_plus splice_def dec_digit)
qed

lemma word_value_nonempty: "valid_word w \<Longrightarrow> word_value i w \<noteq> []"
  by (cases w) auto

lemma not_digits' [simp]: "\<not> isdigit DQUOTE" "\<not> isdigit (CHR ''|'')" "\<not> isdigit NUL"
  by (simp_all add: isdigit_def DQUOTE_def)

lemma dec_nat_no_space: "c \<in> set (dec_nat n) \<Longrightarrow> \<not> isspace c"
  by (simp add: isdigit_dec_nat)

lemma word_text_chars:
  assumes "valid_word w"
  shows "word_text w \<noteq> []" "\<forall>c \<in> set (word_text w). \<not> isspace c \<and> c \<noteq> DQUOTE \<and> c \<noteq> NUL"
proof -
  have lit: "\<forall>c \<in> set ''$NODEID+''. \<not> isspace c \<and> c \<noteq> DQUOTE \<and> c \<noteq> NUL"
    by (simp add: isspace_def DQUOTE_def)
  have dig: "\<forall>c \<in> set (dec_nat d). \<not> isspace c \<and> c \<noteq> DQUOTE \<and> c \<noteq> NUL" for d
    using dec_nat_no_space [of _ d] by auto
  show "word_text w \<noteq> []" using assms by (cases w) auto
  show "\<forall>c \<in> set (word_text w). \<not> isspace c \<and> c \<noteq> DQUOTE \<and> c \<noteq> NUL"
    using assms lit dig by (cases w) (auto simp: plain_word_def)
qed

lemma word_value_chars:
  "valid_word w \<Longrightarrow> CHR ''|'' \<notin> set (word_value i w) \<and> NUL \<notin> set (word_value i w)"
  by (cases w) (auto simp: plain_word_def)

lemma join_notin: "\<forall>x \<in> set xs. d \<notin> set x \<Longrightarrow> e \<noteq> d \<Longrightarrow> d \<notin> set (join e xs)"
  by (induction e xs rule: join.induct) auto

definition cmd_text :: "cmd_word list \<Rightarrow> string" where
  "cmd_text ws = join (CHR '' '') (map word_text ws)"

definition piped :: "u16 \<Rightarrow> cmd_word list \<Rightarrow> string" where
  "piped i ws = join (CHR ''|'') (map (word_value i) ws)"

definition valid_cmd :: "u16 \<Rightarrow> cmd_word list \<Rightarrow> bool" where
  "valid_cmd i ws \<longleftrightarrow> ws \<noteq> [] \<and> (\<forall>w \<in> set ws. valid_word w \<and> length (word_text w) < TOK_SZ) \<and>
     length (piped i ws) < CMD_BUF_SZ - 10"

lemma cmd_loop_words:
  "\<lbrakk>ws \<noteq> []; \<forall>w \<in> set ws. valid_word w \<and> length (word_text w) < TOK_SZ;
    (if ptr = None then st else ptr) = Some (cmd_text ws);
    length ((if out = [] then [] else out @ ''|'') @ piped i ws) < CMD_BUF_SZ - 10\<rbrakk> \<Longrightarrow>
   cmd_loop i ptr st out = Ret ((if out = [] then [] else out @ ''|'') @ piped i ws)"
proof (induction ws arbitrary: ptr st out)
  case (Cons w ws)
  let ?pre = "if out = [] then [] else out @ ''|''"
  have w: "valid_word w" "length (word_text w) < TOK_SZ" using Cons.prems by auto
  note tok = getNextCmdToken_word [OF word_text_chars(1) [OF w(1)] word_text_chars(2) [OF w(1)] w(2)]
  show ?case
  proof (cases ws)
    case Nil
    then have "getNextCmdToken ptr st TOK_SZ = (Some (word_text w), None)"
      using Cons.prems(3) by (intro tok(1) [where r = "[]"]) (simp_all add: cmd_text_def)
    moreover have "add_token (word_value i w) out = Ret (?pre @ piped i [w])"
      using Cons.prems(4) Nil by (auto simp: add_token_def Let_def piped_def)
    moreover have "cmd_loop i None None q = Ret q" for q
      by (simp add: cmd_loop.simps [of i None None] getNextCmdToken_def)
    ultimately show ?thesis
      using Nil w(1) by (simp add: cmd_loop.simps [of i ptr st out] resolve_word)
  next
    case (Cons w' ws')
    then have eqs: "cmd_text (w # ws) = word_text w @ CHR '' '' # cmd_text ws"
      "piped i (w # ws) = word_value i w @ CHR ''|'' # piped i ws"
      by (simp_all add: cmd_text_def piped_def)
    have "getNextCmdToken ptr st TOK_SZ = (Some (word_text w), Some (cmd_text ws))"
      using Cons.prems(3) eqs by (intro tok(2) [where r = "CHR '' '' # cmd_text ws"]) simp_all
    moreover have "add_token (word_value i w) out = Ret (?pre @ word_value i w)"
      using Cons.prems(4) eqs by (auto simp: add_token_def Let_def)
    moreover have "cmd_loop i None (Some (cmd_text ws)) (?pre @ word_value i w)
        = Ret ((?pre @ word_value i w @ ''|'') @ piped i ws)"
      using Cons.IH [of None "Some (cmd_text ws)" "?pre @ word_value i w"] Cons Cons.prems eqs
        word_value_nonempty [OF w(1), of i] by auto
    ultimately show ?thesis
      using eqs w(1) by (simp add: cmd_loop.simps [of i ptr st out] resolve_word)
  qed
qed simp

lemma cmdParser_words: "valid_cmd i ws \<Longrightarrow> cmdParser (cmd_text ws) i = Ret (piped i ws)"
  using cmd_loop_words [of ws "Some (cmd_text ws)" None "[]" i] by (simp add: cmdParser_def valid_cmd_def)

lemma piped_no_NUL: "valid_cmd i ws \<Longrightarrow> NUL \<notin> set (piped i ws)"
  unfolding piped_def by (rule join_notin) (auto simp: valid_cmd_def word_value_chars)

section \<open>The properties\<close>

text \<open>
  The substitution of \<open>$NODEID+X\<close> drops exactly one digit: with an offset of two digits the
  last digit of the offset stays behind the number, so every node gets a wrong word.
\<close>

theorem two_digit_offset_wrong:
  assumes "10 \<le> d" "d < 100"
  shows "resolveToken i (''$NODEID+'' @ dec_nat d) = Ret (dec_nat (unat i + d) @ [digit_char (d mod 10)])
    \<and> dec_nat (unat i + d) @ [digit_char (d mod 10)] \<noteq> dec_nat (unat i + d)"
proof -
  have d: "dec_nat d = [digit_char (d div 10), digit_char (d mod 10)]"
  proof -
    have "d div 10 < 10" using assms(2) by simp
    with assms(1) show ?thesis
      by (simp add: dec_nat_def to_base.simps [of 10 d] to_base.simps [of 10 "d div 10"])
  qed
  have "length (dec_nat (unat i + d)) \<le> 6"
    using unsigned_less [of i, where ?'a = nat] assms(2) by (intro length_dec_nat) auto
  moreover have "atoi [digit_char (d div 10), digit_char (d mod 10)] = int d"
    using atoi_dec_nat [of "[]" d] by (simp add: d)
  moreover have "strchr (CHR ''$'') (''$NODEID+'' @ dec_nat d) = Some (''$NODEID+'' @ dec_nat d)"
    using strchr_Some [of "CHR ''$''" "[]" "''NODEID+'' @ dec_nat d"] by simp
  ultimately show ?thesis
    by (simp add: resolveToken_def strncmp_pre_def d dec_int_plus splice_def)
qed

lemma two_digit_offset_wrong_witness:
  "resolveToken 5 (''$NODEID+'' @ dec_nat 10) = Ret (dec_nat (unat (5 :: u16) + 10) @ [digit_char (10 mod 10)])"
  using two_digit_offset_wrong [of 10 5] by simp

end
