(* ===== verification/Forker.thy ===== *)
theory Forker
  imports Cmd_Parser
begin

text \<open>
  \<open>utils/forker.c\<close>: the process that starts the stackline processes.  It waits on its queue
  for the commands the airline sends, cuts them at \<open>|\<close> into arguments and environment, and
  forks.  What a child executes, and the signals sent, are logs of the model.
\<close>

section \<open>State\<close>

record child_psinfo =
  pid :: int
  master :: int

record exec_info =
  x_node :: u16
  x_argv :: "string list"
  x_envp :: "string list"
  x_pty :: bool
  x_log :: string

record forker =
  g_child_info :: "child_psinfo list"
  execs :: "exec_info list"
  killed :: "int list"

definition MAX_CHILD_PROCESS :: nat where "MAX_CHILD_PROCESS = 2000"
definition ARGV_SZ :: nat where "ARGV_SZ = 20"

definition forker_start :: forker where
  "forker_start = \<lparr>g_child_info = replicate MAX_CHILD_PROCESS \<lparr>pid = 0, master = 0\<rparr>,
                   execs = [], killed = []\<rparr>"

text \<open>What the operating system decides: the environment, the files, the process ids.\<close>

record os =
  logpath :: "string option"
  exists_file :: "string \<Rightarrow> bool"
  fork_result :: "u16 \<Rightarrow> int \<times> int"

section \<open>Operations\<close>

definition redirect_stdout_to_log :: "os \<Rightarrow> int \<Rightarrow> string" where
  \<comment> \<open>the name of the log file\<close>
  "redirect_stdout_to_log w nodeid =
     (let dir = (case logpath w of None \<Rightarrow> ''log'' | Some d \<Rightarrow> d)
      in snprintf_text 512 (if nodeid \<ge> 0 then dir @ ''/node_'' @ hex_pad 4 (nat nodeid) @ ''.log''
                            else dir @ ''/forker.log''))"

definition chk_executable :: "os \<Rightarrow> string \<Rightarrow> int" where
  "chk_executable w bin = (if exists_file w bin then SUCCESS else FAILURE)"

fun SET_ARG_ENV ::
  "string \<Rightarrow> string list \<times> string list \<times> bool \<Rightarrow> (string list \<times> string list \<times> bool) outcome" where
  "SET_ARG_ENV b (argv, envp, pty) =
     (if strstr ''PTY=1'' b then Ret (argv, envp, True)
      else if strchr (CHR ''='') b \<noteq> None then
        (if length envp < ARGV_SZ then Ret (argv, envp @ [b], pty) else Fault Out_Of_Bounds)
      else (if length argv < ARGV_SZ then Ret (argv @ [b], envp, pty) else Fault Out_Of_Bounds))"

text \<open>The loop over \<open>strchr(buf, '|')\<close> and the last piece behind it.\<close>

fun set_args ::
  "string list \<Rightarrow> string list \<times> string list \<times> bool \<Rightarrow> (string list \<times> string list \<times> bool) outcome" where
  "set_args [] s = Ret s"
| "set_args (b # bs) s = bindo (SET_ARG_ENV b s) (set_args bs)"

definition fork_n_exec :: "os \<Rightarrow> u16 \<Rightarrow> string \<Rightarrow> forker \<Rightarrow> (int \<times> forker) outcome" where
  "fork_n_exec w nodeid cmd f =
     bindo (set_args (splits (CHR ''|'') cmd) ([], [], False)) (\<lambda>(argv, envp, pty).
       if length argv \<ge> ARGV_SZ \<or> length envp \<ge> ARGV_SZ then Fault Out_Of_Bounds
       else if length argv < 1 then Ret (FAILURE, f)
       else if chk_executable w (hd argv) \<noteq> SUCCESS then Ret (-1, f)
       else if unat nodeid \<ge> length (g_child_info f) then Fault Out_Of_Bounds
       else
         let (p, m) = fork_result w nodeid;
             old = g_child_info f ! unat nodeid;
             f1 = f\<lparr>g_child_info := (g_child_info f)[unat nodeid :=
                      (if pty then old\<lparr>pid := p, master := m\<rparr> else old\<lparr>pid := p\<rparr>)]\<rparr>
         in if p < 0 then Ret (FAILURE, f1)
            else Ret (SUCCESS, f1\<lparr>execs := execs f1 @
                   [\<lparr>x_node = nodeid, x_argv = argv, x_envp = envp, x_pty = pty,
                     x_log = redirect_stdout_to_log w (uint nodeid)\<rparr>]\<rparr>))"

definition killall_childprocess :: "forker \<Rightarrow> forker" where
  "killall_childprocess f =
     f\<lparr>killed := killed f @ filter (\<lambda>p. p > 0) (List.map pid (g_child_info f))\<rparr>"

text \<open>One round of the loop; the flag says whether it goes on.\<close>

definition wait_round ::
  "os \<Rightarrow> usock \<Rightarrow> msg_buf \<Rightarrow> forker \<Rightarrow> kernel \<Rightarrow> (bool \<times> msg_buf \<times> forker \<times> kernel) outcome" where
  "wait_round w u m f k =
     bindo (cl_recvfrom_q (MTYPE FORKER CL_MGR_ID) (Some m)
              (of_nat (sizeof_msg_buf + COMMLINE_MAX_BUF)) False u k) (\<lambda>(r, mo, k1).
       case mo of None \<Rightarrow> Ret (False, m, f, k1)
       | Some m1 \<Rightarrow>
           if r < 0 then Ret (False, m1, f, k1)
           else if mb_len m1 = 0 then Ret (True, m1, f, k1)
           else bindo (fork_n_exec w (src_id m1) (mb_str m1) f) (\<lambda>(s, f1).
                  Ret (s = SUCCESS, m1, f1, k1)))"

text \<open>
  \<open>wait_on_q\<close> waits for ever unless something fails.  The fuel bounds the rounds observed: the loop
  has ended (\<open>Done\<close>), waits for a message in the state given (\<open>Waits\<close>), or could go on (\<open>More\<close>).
\<close>

datatype ('r, 's) loop = Done 'r | Waits 's | More 's

fun wait_on_q ::
  "nat \<Rightarrow> os \<Rightarrow> usock \<Rightarrow> msg_buf \<Rightarrow> forker \<Rightarrow> kernel \<Rightarrow> (forker \<times> kernel, forker \<times> kernel) loop outcome" where
  "wait_on_q 0 w u m f k = Ret (More (f, k))"
| "wait_on_q (Suc n) w u m f k = (case wait_round w u m f k of
     Blocked \<Rightarrow> Ret (Waits (f, k))
   | Fault e \<Rightarrow> Fault e
   | Ret (go, m1, f1, k1) \<Rightarrow>
       if go then wait_on_q n w u m1 f1 k1
       else Ret (Done (killall_childprocess f1, k1)))"

fun wait_rounds ::
  "nat \<Rightarrow> os \<Rightarrow> usock \<Rightarrow> msg_buf \<Rightarrow> forker \<Rightarrow> kernel \<Rightarrow> (msg_buf \<times> forker \<times> kernel) outcome" where
  \<comment> \<open>the state after \<open>n\<close> rounds that all go on\<close>
  "wait_rounds 0 w u m f k = Ret (m, f, k)"
| "wait_rounds (Suc n) w u m f k =
     bindo (wait_round w u m f k) (\<lambda>(go, m1, f1, k1).
       if go then wait_rounds n w u m1 f1 k1 else Fault Exit)"

lemma wait_rounds_then:
  "wait_rounds n w u m f k = Ret (m', f', k') \<Longrightarrow>
   wait_on_q (n + j) w u m f k = wait_on_q j w u m' f' k'"
  by (induction n arbitrary: m f k) (auto simp: bindo_eq_Ret split: if_splits)

section \<open>From a configured command to an executed process\<close>

definition is_pty :: "string \<Rightarrow> bool" where "is_pty s \<longleftrightarrow> strstr ''PTY=1'' s"

definition arg_words :: "string list \<Rightarrow> string list" where
  "arg_words ss = filter (\<lambda>s. \<not> is_pty s \<and> CHR ''='' \<notin> set s) ss"

definition env_words :: "string list \<Rightarrow> string list" where
  "env_words ss = filter (\<lambda>s. \<not> is_pty s \<and> CHR ''='' \<in> set s) ss"

lemma arg_env_Cons [simp]:
  "arg_words [] = []" "env_words [] = []"
  "arg_words (s # ss) = (if \<not> is_pty s \<and> CHR ''='' \<notin> set s then [s] else []) @ arg_words ss"
  "env_words (s # ss) = (if \<not> is_pty s \<and> CHR ''='' \<in> set s then [s] else []) @ env_words ss"
  by (simp_all add: arg_words_def env_words_def)

lemma set_args_eq:
  "length (a @ arg_words ss) \<le> ARGV_SZ \<Longrightarrow> length (e @ env_words ss) \<le> ARGV_SZ \<Longrightarrow>
   set_args ss (a, e, p) = Ret (a @ arg_words ss, e @ env_words ss, p \<or> (\<exists>s \<in> set ss. is_pty s))"
proof (induction ss arbitrary: a e p)
  case (Cons s ss)
  then show ?case
    by (cases "is_pty s"; cases "CHR ''='' \<in> set s") (auto simp: strchr_eq_None_iff is_pty_def)
qed simp

lemma splits_piped: "valid_cmd i ws \<Longrightarrow> splits (CHR ''|'') (piped i ws) = List.map (word_value i) ws"
  unfolding piped_def by (rule splits_join) (auto simp: valid_cmd_def word_value_chars)

definition launch :: "os \<Rightarrow> u16 \<Rightarrow> cmd_word list \<Rightarrow> exec_info" where
  "launch w i ws = (let ss = List.map (word_value i) ws in
     \<lparr>x_node = i, x_argv = arg_words ss, x_envp = env_words ss, x_pty = (\<exists>s \<in> set ss. is_pty s),
      x_log = redirect_stdout_to_log w (uint i)\<rparr>)"

text \<open>The command is well formed, its program exists and the process can be created.\<close>

definition launchable :: "os \<Rightarrow> u16 \<Rightarrow> cmd_word list \<Rightarrow> bool" where
  "launchable w i ws \<longleftrightarrow> valid_cmd i ws \<and> x_argv (launch w i ws) \<noteq> [] \<and>
     length (x_argv (launch w i ws)) < ARGV_SZ \<and> length (x_envp (launch w i ws)) < ARGV_SZ \<and>
     exists_file w (hd (x_argv (launch w i ws))) \<and> 0 < fst (fork_result w i) \<and> unat i < MAX_CHILD_PROCESS"

definition set_child :: "os \<Rightarrow> u16 \<Rightarrow> bool \<Rightarrow> child_psinfo list \<Rightarrow> child_psinfo list" where
  "set_child w i pty cs = cs[unat i := (if pty then (cs ! unat i)\<lparr>pid := fst (fork_result w i), master := snd (fork_result w i)\<rparr>
                                       else (cs ! unat i)\<lparr>pid := fst (fork_result w i)\<rparr>)]"

definition launched :: "os \<Rightarrow> u16 \<Rightarrow> cmd_word list \<Rightarrow> forker \<Rightarrow> forker" where
  "launched w i ws f = f\<lparr>g_child_info := set_child w i (x_pty (launch w i ws)) (g_child_info f),
     execs := execs f @ [launch w i ws]\<rparr>"

lemma fork_n_exec_launch:
  assumes "launchable w i ws" "length (g_child_info f) = MAX_CHILD_PROCESS"
  shows "fork_n_exec w i (piped i ws) f = Ret (SUCCESS, launched w i ws f)"
proof -
  let ?ss = "List.map (word_value i) ws"
  have v: "valid_cmd i ws" using assms(1) by (simp add: launchable_def)
  have "set_args ?ss ([], [], False) = Ret (arg_words ?ss, env_words ?ss, \<exists>s \<in> set ?ss. is_pty s)"
    using assms(1) set_args_eq [of "[]" ?ss "[]" False] by (simp add: launchable_def launch_def Let_def)
  moreover have "arg_words ?ss \<noteq> []" using assms(1) by (simp add: launchable_def launch_def Let_def)
  ultimately show ?thesis
    using assms v by (cases "fork_result w i")
      (auto simp: fork_n_exec_def splits_piped launchable_def launch_def Let_def launched_def
        chk_executable_def set_child_def Suc_le_eq)
qed

section \<open>Through the queue\<close>

abbreviation forker_q :: address where "forker_q \<equiv> (FORKER, CL_MGR_ID)"

lemma spawn_msg_fields:
  assumes "valid_cmd i ws" "length (buf stk) = 2049"
  shows "unat (mb_len (spawn_msg i (piped i ws) stk)) = length (piped i ws)"
    and "fits_buf (spawn_msg i (piped i ws) stk)"
    and "mb_str (received a (spawn_msg i (piped i ws) stk) m0) = piped i ws"
    and "length (piped i ws) < 1014"
proof -
  show len: "length (piped i ws) < 1014" using assms(1) by (simp add: valid_cmd_def CMD_BUF_SZ_def)
  then show u: "unat (mb_len (spawn_msg i (piped i ws) stk)) = length (piped i ws)"
    by (simp add: spawn_msg_def unat_of_nat)
  show "fits_buf (spawn_msg i (piped i ws) stk)"
    using u len assms(2) unfolding fits_buf_def
    by (simp add: spawn_msg_def put_str_def store_str_def snprintf_text_def COMMLINE_MAX_BUF_def)
  have "take (Suc (length (piped i ws))) (buf (spawn_msg i (piped i ws) stk)) = piped i ws @ [NUL]"
    using len by (simp add: spawn_msg_def put_str_def store_str_def snprintf_text_def COMMLINE_MAX_BUF_def)
  with u show "mb_str (received a (spawn_msg i (piped i ws) stk) m0) = piped i ws"
    using piped_no_NUL [OF assms(1)] by (simp add: received_def mb_str_def)
qed

definition node_cmds :: "config \<Rightarrow> u16 \<Rightarrow> cmd_word list \<Rightarrow> bool" where
  "node_cmds c i ws \<longleftrightarrow> unat i < length (nodeArray c) \<and>
     nodeExec (nodeArray c ! unat i) = cmd_text ws \<and> cmd_text ws \<noteq> []"

lemma spawnStackline_sends:
  assumes "uopen uid su 2048 rcv k forker_q" "node_cmds c i ws" "valid_cmd i ws" "length (buf stk) = 2049"
  shows "spawnStackline uid stk i c su k = Ret (usend uid su forker_q (spawn_msg i (piped i ws) stk) k)"
proof -
  have "send_len (spawn_msg i (piped i ws) stk) = of_nat (length (piped i ws) + sizeof_msg_buf)"
    by (simp add: send_len_def spawn_msg_def add.commute)
  with usend_eq [OF assms(1) spawn_msg_fields(2) [OF assms(3,4)]] assms(2,3) show ?thesis
    by (simp add: spawnStackline_def node_cmds_def cmdParser_words Let_def usend_def not_less)
qed

lemma wait_round_launch:
  assumes "uopen uid su 2048 rcv k forker_q" "valid_cmd i ws" "length (buf stk) = 2049"
    and "k_queue k (rfd rcv forker_q) = wire forker_q (spawn_msg i (piped i ws) stk) # ds"
    and "launchable w i ws" "length (g_child_info f) = MAX_CHILD_PROCESS" "length (buf m) = 2049"
  shows "\<exists>m'. wait_round w (rcv forker_q) m f k
    = Ret (True, m', launched w i ws f, k\<lparr>k_queue := (k_queue k)(rfd rcv forker_q := ds)\<rparr>) \<and> length (buf m') = 2049"
proof -
  note sm = spawn_msg_fields [OF assms(2,3)]
  have ne: "piped i ws \<noteq> []"
    using assms(2) word_value_nonempty unfolding piped_def valid_cmd_def
    by (cases ws; cases "tl ws") auto
  let ?m = "spawn_msg i (piped i ws) stk"
  have "cl_recvfrom_q (mt forker_q) (Some m) (of_nat (16 + 2048)) False (rcv forker_q) k
      = Ret (16 + int (unat (mb_len ?m)), Some (received forker_q ?m m),
             k\<lparr>k_queue := (k_queue k)(rfd rcv forker_q := ds)\<rparr>)"
    using sm assms(7) by (intro recv_wire [OF assms(1,4)]) auto
  moreover have "mb_len ?m \<noteq> 0" using sm(1) ne by (metis length_0_conv unat_0)
  moreover have "src_id ?m = i" by (simp add: spawn_msg_def)
  moreover have "length (buf (received forker_q ?m m)) = 2049"
    using sm assms(7) by simp
  ultimately show ?thesis
    using sm fork_n_exec_launch [OF assms(5,6)] unfolding wait_round_def
    by (simp add: sizeof_msg_buf_def COMMLINE_MAX_BUF_def)
qed

lemma length_launched [simp]: "length (g_child_info (launched w i ws f)) = length (g_child_info f)"
  by (simp add: launched_def set_child_def)

definition spawns :: "msg_buf \<Rightarrow> (u16 \<times> cmd_word list) list \<Rightarrow> (address \<times> msg_buf) list" where
  "spawns stk ns = List.map (\<lambda>(i, ws). (forker_q, spawn_msg i (piped i ws) stk)) ns"

lemma start_applications_sends:
  assumes "length (buf stk) = 2049"
  shows "\<lbrakk>uopen uid su 2048 rcv k forker_q; \<forall>(i, ws) \<in> set ns. node_cmds c i ws \<and> valid_cmd i ws\<rbrakk> \<Longrightarrow>
   start_applications uid stk (List.map fst ns) c su k
   = Ret (usocks.send_all uid su (spawns stk ns) k)"
proof (induction ns arbitrary: k)
  case (Cons n ns)
  obtain i ws where n: "n = (i, ws)" by (cases n)
  have "uopen uid su 2048 rcv (usend uid su forker_q (spawn_msg i (piped i ws) stk) k) forker_q"
    using Cons.prems spawn_msg_fields(2) [OF _ assms, of i ws] by (simp add: n usend_queue)
  with Cons spawnStackline_sends [OF Cons.prems(1) _ _ assms, of c i ws] show ?case
    by (simp add: n spawns_def)
qed (simp add: spawns_def)

lemma wait_rounds_launch:
  assumes "length (buf stk) = 2049"
  shows "\<lbrakk>uopen uid su 2048 rcv k forker_q; \<forall>(i, ws) \<in> set ns. valid_cmd i ws \<and> launchable w i ws;
    k_queue k (rfd rcv forker_q) = List.map (\<lambda>(i, ws). wire forker_q (spawn_msg i (piped i ws) stk)) ns @ ds;
    length (g_child_info f) = MAX_CHILD_PROCESS; length (buf m) = 2049\<rbrakk> \<Longrightarrow>
   \<exists>m'. wait_rounds (length ns) w (rcv forker_q) m f k
     = Ret (m', fold (\<lambda>(i, ws). launched w i ws) ns f, k\<lparr>k_queue := (k_queue k)(rfd rcv forker_q := ds)\<rparr>)
       \<and> length (buf m') = 2049"
proof (induction ns arbitrary: k f m)
  case Nil
  then have "(k_queue k)(rfd rcv forker_q := ds) = k_queue k" by (intro ext) simp
  with Nil show ?case by simp
next
  case (Cons n ns)
  obtain i ws where n: "n = (i, ws)" by (cases n)
  let ?q = "List.map (\<lambda>(i, ws). wire forker_q (spawn_msg i (piped i ws) stk)) ns @ ds"
  let ?k = "k\<lparr>k_queue := (k_queue k)(rfd rcv forker_q := ?q)\<rparr>"
  obtain m' where m': "wait_round w (rcv forker_q) m f k = Ret (True, m', launched w i ws f, ?k)"
      "length (buf m') = 2049"
    using wait_round_launch [OF Cons.prems(1) _ assms, of i ws ?q w f m] Cons.prems by (auto simp: n)
  obtain m'' where "wait_rounds (length ns) w (rcv forker_q) m' (launched w i ws f) ?k
     = Ret (m'', fold (\<lambda>(i, ws). launched w i ws) ns (launched w i ws f),
            ?k\<lparr>k_queue := (k_queue ?k)(rfd rcv forker_q := ds)\<rparr>)" "length (buf m'') = 2049"
  proof -
    have "uopen uid su 2048 rcv ?k forker_q" "\<forall>(i, ws) \<in> set ns. valid_cmd i ws \<and> launchable w i ws"
      "k_queue ?k (rfd rcv forker_q) = ?q" "length (g_child_info (launched w i ws f)) = MAX_CHILD_PROCESS"
      using Cons.prems by (auto simp: n)
    from Cons.IH [OF this m'(2)] that show thesis by blast
  qed
  with m'(1) show ?case by (intro exI [of _ m'']) (simp add: n fun_upd_def cong: if_cong)
qed

lemma send_spawns:
  assumes "length (buf stk) = 2049"
  shows "\<lbrakk>uopen uid su 2048 rcv k forker_q; \<forall>(i, ws) \<in> set ns. node_cmds c i ws \<and> valid_cmd i ws\<rbrakk> \<Longrightarrow>
   usocks.send_all uid su (spawns stk ns) k
   = k\<lparr>k_queue := (k_queue k)(rfd rcv forker_q := k_queue k (rfd rcv forker_q) @
        List.map (\<lambda>(i, ws). wire forker_q (spawn_msg i (piped i ws) stk)) ns)\<rparr>"
proof (induction ns arbitrary: k)
  case (Cons n ns)
  obtain i ws where n: "n = (i, ws)" by (cases n)
  have q: "usend uid su forker_q (spawn_msg i (piped i ws) stk) k = k\<lparr>k_queue := (k_queue k)(rfd rcv forker_q :=
      k_queue k (rfd rcv forker_q) @ [wire forker_q (spawn_msg i (piped i ws) stk)])\<rparr>"
    using Cons.prems spawn_msg_fields(2) [OF _ assms, of i ws] by (intro usend_queue) (auto simp: n)
  with Cons show ?case by (simp add: n spawns_def cong: if_cong)
qed (simp add: spawns_def)

lemma fold_launched:
  "execs (fold (\<lambda>(i, ws). launched w i ws) ns f) = execs f @ List.map (\<lambda>(i, ws). launch w i ws) ns"
  "length (g_child_info (fold (\<lambda>(i, ws). launched w i ws) ns f)) = length (g_child_info f)"
  "killed (fold (\<lambda>(i, ws). launched w i ws) ns f) = killed f"
  by (induction ns arbitrary: f) (auto simp: launched_def set_child_def)

lemma fold_launched_pid:
  assumes "\<forall>(i, ws) \<in> set ns. unat i < length (g_child_info f)"
  shows "\<forall>i \<in> fst ` set ns. pid (g_child_info (fold (\<lambda>(i, ws). launched w i ws) ns f) ! unat i) = fst (fork_result w i)"
proof -
  have one: "pid (g_child_info (launched w i ws f) ! unat j) = (if i = j then fst (fork_result w i)
      else pid (g_child_info f ! unat j))" if "unat i < length (g_child_info f)" for i j :: u16 and ws f
    using that by (cases "i = j") (simp_all add: launched_def set_child_def word_unat_eq_iff)
  have "\<forall>i \<in> fst ` set ns \<union> I. pid (g_child_info (fold (\<lambda>(i, ws). launched w i ws) ns f) ! unat i) = fst (fork_result w i)"
    if "\<forall>i \<in> I. pid (g_child_info f ! unat i) = fst (fork_result w i)" for I
    using that assms
  proof (induction ns arbitrary: f I)
    case (Cons n ns)
    obtain i ws where n: "n = (i, ws)" by (cases n)
    have "\<forall>j \<in> insert i I. pid (g_child_info (launched w i ws f) ! unat j) = fst (fork_result w j)"
      using Cons.prems by (auto simp: n one)
    from Cons.IH [OF this] Cons.prems(2) show ?case by (simp add: n)
  qed simp
  from this [of "{}"] show ?thesis by simp
qed

section \<open>The properties\<close>

lemma wait_round_empty:
  assumes "uopen uid su cap rcv k forker_q" "k_queue k (rfd rcv forker_q) = []"
  shows "wait_round w (rcv forker_q) m f k = Blocked"
  using uopen_fd [OF assms(1)] assms(2)
  by (simp add: wait_round_def cl_recvfrom_q_def usock_recvfrom_def sys_recvfrom_def rfd_def sizeof_msg_buf_def COMMLINE_MAX_BUF_def)

text \<open>
  C5: Starting the network launches every node exactly once, in order: the commands of the
  configuration, sent by the applications of the nodes, become one executed process each, with
  the words without \<open>=\<close> as arguments, the words with \<open>=\<close> as environment, \<open>$NODEID\<close> replaced by
  the node's number, its own log file, and its process id in the forker's table; the forker then
  waits for the next message.
\<close>

theorem nodes_launched_in_order:
  assumes "uopen uid su 2048 rcv k forker_q" "upending rcv k forker_q = []"
    and "\<forall>(i, ws) \<in> set ns. node_cmds c i ws \<and> launchable w i ws"
    and "length (buf stk) = 2049" "length (buf m) = 2049" "length (g_child_info f) = MAX_CHILD_PROCESS"
  shows "\<exists>k1 m1 f1. start_applications uid stk (List.map fst ns) c su k = Ret k1 \<and>
    wait_rounds (length ns) w (rcv forker_q) m f k1 = Ret (m1, f1, k) \<and>
    wait_on_q (length ns + Suc j) w (rcv forker_q) m f k1 = Ret (Waits (f1, k)) \<and>
    execs f1 = execs f @ List.map (\<lambda>(i, ws). launch w i ws) ns \<and>
    (\<forall>i \<in> fst ` set ns. pid (g_child_info f1 ! unat i) = fst (fork_result w i))"
proof -
  let ?k1 = "usocks.send_all uid su (spawns stk ns) k"
  have v: "\<forall>(i, ws) \<in> set ns. node_cmds c i ws \<and> valid_cmd i ws"
    using assms(3) by (auto simp: launchable_def)
  have fits: "\<forall>(a, m) \<in> set (spawns stk ns). uopen uid su 2048 rcv k a \<and> fits_buf m"
    using v assms(1) spawn_msg_fields(2) [OF _ assms(4)] by (auto simp: spawns_def)
  have o: "uopen uid su 2048 rcv ?k1 forker_q"
    using usocks.send_all_open [OF fits] assms(1) by simp
  have q: "k_queue ?k1 (rfd rcv forker_q) = List.map (\<lambda>(i, ws). wire forker_q (spawn_msg i (piped i ws) stk)) ns"
    using send_spawns [OF assms(4) assms(1) v] assms(2) by (simp add: upending_def)
  have k: "?k1\<lparr>k_queue := (k_queue ?k1)(rfd rcv forker_q := [])\<rparr> = k"
    using send_spawns [OF assms(4) assms(1) v] assms(2) by (simp add: upending_def fun_upd_idem)
  obtain m1 where r: "wait_rounds (length ns) w (rcv forker_q) m f ?k1
      = Ret (m1, fold (\<lambda>(i, ws). launched w i ws) ns f, k)"
    using wait_rounds_launch [OF assms(4) o, of ns w "[]" f m] q k assms(3,5,6) by (auto simp: launchable_def)
  moreover have "wait_on_q (length ns + Suc j) w (rcv forker_q) m f ?k1
      = Ret (Waits (fold (\<lambda>(i, ws). launched w i ws) ns f, k))"
    using wait_rounds_then [OF r, of "Suc j"] wait_round_empty [OF assms(1)] assms(2) by (simp add: upending_def)
  moreover have "\<forall>(i, ws) \<in> set ns. unat i < length (g_child_info f)"
    using assms(3,6) by (auto simp: launchable_def)
  ultimately show ?thesis
    using start_applications_sends [OF assms(4,1) v] fold_launched fold_launched_pid by blast
qed

definition demo_words :: "cmd_word list" where
  "demo_words = [Plain ''./app'', With_Id [] [], Plain ''A=1'']"

definition demo_cfg :: config where
  "demo_cfg = new_config\<lparr>nodeArray := replicate 8 (new_nodeinfo\<lparr>nodeExec := ''./app $NODEID A=1''\<rparr>),
     numOfNodes := 8\<rparr>"

definition demo_os :: os where
  "demo_os = \<lparr>logpath = None, exists_file = (\<lambda>_. True), fork_result = (\<lambda>i. (100 + uint i, 5))\<rparr>"

lemma demo_words_valid: "unat i < 10 \<Longrightarrow> valid_cmd i demo_words"
proof -
  assume "unat i < 10"
  then have "dec_nat (unat i) = [digit_char (unat i)]" by (rule dec_digit)
  then show ?thesis
    by (simp add: valid_cmd_def demo_words_def plain_word_def isspace_def DQUOTE_def TOK_SZ_def
        CMD_BUF_SZ_def piped_def strncmp_pre_def)
qed

lemma demo_launch: "launch demo_os 7 demo_words = \<lparr>x_node = 7, x_argv = [''./app'', ''7''],
    x_envp = [''A=1''], x_pty = False, x_log = ''log/node_0007.log''\<rparr>"
proof -
  have "dec_nat 7 = ''7''" "hex_pad 4 7 = ''0007''" by code_simp+
  then show ?thesis
    by (simp add: launch_def demo_words_def is_pty_def redirect_stdout_to_log_def demo_os_def snprintf_text_def)
qed

lemma demo_launchable: "launchable demo_os 7 demo_words"
  using demo_words_valid [of 7]
  by (simp add: launchable_def demo_launch ARGV_SZ_def MAX_CHILD_PROCESS_def) (simp add: demo_os_def)

lemma demo_node_cmds: "node_cmds demo_cfg 7 demo_words"
  by (simp add: node_cmds_def demo_cfg_def demo_words_def cmd_text_def)

lemma nodes_launched_in_order_witness:
  "\<exists>k1 m1 f1. start_applications 0 DEFINE_MBUF [7] demo_cfg demo_all (demo_at forker_q) = Ret k1 \<and>
    wait_rounds 1 demo_os demo_all DEFINE_MBUF forker_start k1 = Ret (m1, f1, demo_at forker_q) \<and>
    wait_on_q 2 demo_os demo_all DEFINE_MBUF forker_start k1 = Ret (Waits (f1, demo_at forker_q)) \<and>
    execs f1 = [\<lparr>x_node = 7, x_argv = [''./app'', ''7''], x_envp = [''A=1''], x_pty = False,
                 x_log = ''log/node_0007.log''\<rparr>] \<and> pid (g_child_info f1 ! 7) = 107"
proof -
  have e: "upending (\<lambda>_. demo_all) (demo_at forker_q) forker_q = []" "length (g_child_info forker_start) = MAX_CHILD_PROCESS"
    "execs forker_start = []" "fst (fork_result demo_os 7) = 107"
    by (simp_all add: upending_def demo_at_def demo_k_def kernel_start_def forker_start_def demo_os_def)
  have n: "\<forall>(i, ws) \<in> set [(7, demo_words)]. node_cmds demo_cfg i ws \<and> launchable demo_os i ws"
    using demo_node_cmds demo_launchable by simp
  have "length [(7 :: u16, demo_words)] = 1" "length [(7 :: u16, demo_words)] + Suc 0 = 2" "List.map fst [(7 :: u16, demo_words)] = [7]" by simp_all
  with nodes_launched_in_order [where j = 0, OF demo_open_at e(1) n _ _ e(2), of DEFINE_MBUF DEFINE_MBUF]
  show ?thesis by (simp only: e append_Nil list.map prod.case demo_launch) (simp add: e)
qed

text \<open>
  C31: One command that cannot be started ends the forker: the loop stops at the message whose
  program does not exist, every process started before it gets \<open>SIGINT\<close>, nothing is started for
  that message, and the messages behind it stay in the queue.
\<close>

theorem missing_program_kills_all:
  assumes "uopen uid su 2048 rcv k forker_q"
    and "k_queue k (rfd rcv forker_q) = wire forker_q (spawn_msg i (piped i ws) stk) # ds"
    and "valid_cmd i ws" "x_argv (launch w i ws) \<noteq> []"
    and "length (x_argv (launch w i ws)) < ARGV_SZ" "length (x_envp (launch w i ws)) < ARGV_SZ"
    and "\<not> exists_file w (hd (x_argv (launch w i ws)))"
    and "length (buf stk) = 2049" "length (buf m) = 2049"
  shows "wait_on_q (Suc n) w (rcv forker_q) m f k
    = Ret (Done (f\<lparr>killed := killed f @ filter (\<lambda>p. p > 0) (List.map pid (g_child_info f))\<rparr>,
                 k\<lparr>k_queue := (k_queue k)(rfd rcv forker_q := ds)\<rparr>))"
proof -
  let ?ss = "List.map (word_value i) ws" and ?m = "spawn_msg i (piped i ws) stk"
  note sm = spawn_msg_fields [OF assms(3,8)]
  have "set_args ?ss ([], [], False) = Ret (arg_words ?ss, env_words ?ss, \<exists>s \<in> set ?ss. is_pty s)"
    using assms(5,6) set_args_eq [of "[]" ?ss "[]" False] by (simp add: launch_def Let_def)
  then have fork: "fork_n_exec w i (piped i ws) f = Ret (-1, f)"
    using assms(3-7) by (auto simp: fork_n_exec_def splits_piped launch_def Let_def chk_executable_def)
  have ne: "mb_len ?m \<noteq> 0"
    using assms(3) word_value_nonempty sm(1) unfolding piped_def valid_cmd_def
    by (cases ws; cases "tl ws") (auto simp: unat_eq_0)
  have "cl_recvfrom_q (mt forker_q) (Some m) (of_nat (16 + 2048)) False (rcv forker_q) k
      = Ret (16 + int (unat (mb_len ?m)), Some (received forker_q ?m m),
             k\<lparr>k_queue := (k_queue k)(rfd rcv forker_q := ds)\<rparr>)"
    using sm assms(9) by (intro recv_wire [OF assms(1,2)]) auto
  moreover have "src_id ?m = i" by (simp add: spawn_msg_def)
  ultimately show ?thesis
    using sm(3) fork ne
    by (simp add: wait_round_def sizeof_msg_buf_def COMMLINE_MAX_BUF_def SUCCESS_def killall_childprocess_def)
qed

lemma missing_program_kills_all_witness:
  "wait_on_q 1 (demo_os\<lparr>exists_file := \<lambda>_. False\<rparr>) demo_all DEFINE_MBUF
     (launched demo_os 7 demo_words forker_start)
     (usend 0 demo_all forker_q (spawn_msg 7 (piped 7 demo_words) DEFINE_MBUF) (demo_at forker_q))
   = Ret (Done ((launched demo_os 7 demo_words forker_start)\<lparr>killed := [107]\<rparr>, demo_at forker_q))"
proof -
  let ?w = "demo_os\<lparr>exists_file := \<lambda>_. False\<rparr>" and ?f = "launched demo_os 7 demo_words forker_start"
  let ?m = "spawn_msg 7 (piped 7 demo_words) DEFINE_MBUF"
  let ?k = "usend 0 demo_all forker_q ?m (demo_at forker_q)"
  have v: "valid_cmd 7 demo_words" by (rule demo_words_valid) simp
  have rfd: "rfd (\<lambda>_. demo_all) forker_q = 3" by (simp add: rfd_def usock_fd_def demo_all_def)
  have qn: "k_queue (demo_at forker_q) 3 = []" by (simp add: demo_at_def demo_k_def kernel_start_def)
  have fits: "fits_buf ?m" by (rule spawn_msg_fields(2) [OF v]) simp
  have k: "?k = (demo_at forker_q)\<lparr>k_queue := (k_queue (demo_at forker_q))(3 := [wire forker_q ?m])\<rparr>"
    using usend_queue [OF demo_open_at [of forker_q] fits] rfd qn by simp
  have o: "uopen 0 demo_all 2048 (\<lambda>_. demo_all) ?k forker_q"
    using demo_open_at [of forker_q] by (simp add: k)
  have l: "launch ?w 7 demo_words = launch demo_os 7 demo_words"
    by (simp add: launch_def redirect_stdout_to_log_def)
  have pids: "filter (\<lambda>p. p > 0) (List.map pid (g_child_info ?f)) = [107]"
  proof -
    let ?z = "\<lparr>pid = 0, master = 0\<rparr>"
    have "replicate MAX_CHILD_PROCESS ?z = replicate 7 ?z @ ?z # replicate 1992 ?z"
      using replicate_add [of 7 "Suc 1992" ?z] unfolding replicate_Suc by (simp add: MAX_CHILD_PROCESS_def)
    then show ?thesis
      by (simp add: launched_def demo_launch set_child_def forker_start_def list_update_append nth_append)
        (simp add: demo_os_def)
  qed
  from qn have "?k\<lparr>k_queue := (k_queue ?k)(3 := [])\<rparr> = demo_at forker_q" by (simp add: k fun_upd_idem)
  with missing_program_kills_all [OF o _ v, of DEFINE_MBUF "[]" ?w DEFINE_MBUF 0 ?f] pids l rfd show ?thesis
    by (simp add: k demo_launch ARGV_SZ_def) (simp add: launched_def forker_start_def)
qed

text \<open>
  The forker's table has 2000 entries but the node ids of the configuration are not checked
  against it: a well-formed command for a node at or beyond 2000 writes outside the table.
\<close>

theorem node_beyond_child_table:
  assumes "valid_cmd i ws" "x_argv (launch w i ws) \<noteq> []"
    and "length (x_argv (launch w i ws)) < ARGV_SZ" "length (x_envp (launch w i ws)) < ARGV_SZ"
    and "exists_file w (hd (x_argv (launch w i ws)))"
    and "length (g_child_info f) = MAX_CHILD_PROCESS" "2000 \<le> unat i"
  shows "fork_n_exec w i (piped i ws) f = Fault Out_Of_Bounds"
proof -
  let ?ss = "List.map (word_value i) ws"
  have "set_args ?ss ([], [], False) = Ret (arg_words ?ss, env_words ?ss, \<exists>s \<in> set ?ss. is_pty s)"
    using assms(3,4) set_args_eq [of "[]" ?ss "[]" False] by (simp add: launch_def Let_def)
  then show ?thesis
    using assms by (auto simp: fork_n_exec_def splits_piped launch_def Let_def chk_executable_def
        MAX_CHILD_PROCESS_def Suc_le_eq)
qed

lemma node_beyond_child_table_witness:
  "fork_n_exec demo_os 2000 (piped 2000 [Plain ''./app'']) forker_start = Fault Out_Of_Bounds"
  by (rule node_beyond_child_table)
    (simp_all add: valid_cmd_def plain_word_def isspace_def DQUOTE_def TOK_SZ_def CMD_BUF_SZ_def piped_def
      launch_def is_pty_def ARGV_SZ_def demo_os_def forker_start_def)

end
