(* ===== verification/Airline_Manager.thy ===== *)
theory Airline_Manager
  imports Airline_Cmds Forker
begin

text \<open>
  \<open>airline/NS3/AirlineManager.cc\<close>, \<open>airline/Manager.cc\<close> and \<open>airline/main.cc\<close>: what the airline
  does with the messages of its queue, and the order in which the network is set up.  The event
  loop of ns-3 (\<open>Simulator::Run\<close>) calls back \<open>msgReader\<close> and the callbacks of the interfaces.
\<close>

section \<open>The queue of the airline\<close>

definition msgrecvCallback ::
  "world \<Rightarrow> usock \<Rightarrow> msg_buf \<Rightarrow> airline \<Rightarrow> kernel \<Rightarrow> (msg_buf \<times> airline \<times> kernel) outcome" where
  "msgrecvCallback w u m s k =
     bindo (CFG_STOI (al_cfg s) ''numOfNodes'') (\<lambda>numNodes.
       if has_flag MBUF_IS_CMD m then
         bindo (handle_al_cmd w m s) (\<lambda>(m1, s1).
           if has_flag MBUF_DO_NOT_RESPOND m1 then Ret (m1, s1, k)
           else bindo (cl_sendto_q (w_uid w) (MTYPE MONITOR CL_MGR_ID) (Some m1)
                         (mb_len m1 + of_nat sizeof_msg_buf) u k) (\<lambda>(r, mo, k1).
                Ret (case mo of None \<Rightarrow> m1 | Some m2 \<Rightarrow> m2, s1, k1)))
       else if \<not> IN_RANGE (uint (src_id m)) 0 numNodes then Ret (m, s, k)
       else bindo (if dst_id m = CL_DSTID_MACHDR_PRESENT
                   then bindo (CFG_INT (al_cfg s) ''macHeaderAdd'' ''1'') (\<lambda>v. Ret (v \<noteq> 0)) else Ret False) (\<lambda>refused.
         if refused then Ret (m, s, k)
         else bindo (ifaceSendPacket (w_build w) (al_cfg s) (uint (src_id m)) m (al_ctx s)) (\<lambda>(r, x).
              bindo (set_stats (w_now w) AL_TX m (al_ms s)) (\<lambda>ms.
              Ret (m, s\<lparr>al_ctx := x, al_ms := ms\<rparr>, k)))))"

text \<open>The loop reads until a receive leaves the length 0; the fuel bounds the messages read.\<close>

fun msg_loop ::
  "nat \<Rightarrow> world \<Rightarrow> usock \<Rightarrow> msg_buf \<Rightarrow> airline \<Rightarrow> kernel \<Rightarrow> (airline \<times> kernel) outcome" where
  "msg_loop 0 w u m s k = Blocked"
| "msg_loop (Suc n) w u m s k =
     bindo (cl_recvfrom_q (MTYPE AIRLINE CL_MGR_ID) (Some m)
              (of_nat (sizeof_msg_buf + COMMLINE_MAX_BUF)) True u k) (\<lambda>(r, mo, k1).
       case mo of None \<Rightarrow> Ret (s, k1)
       | Some m1 \<Rightarrow>
           if mb_len m1 = 0 then Ret (s, k1)
           else bindo (msgrecvCallback w u m1 s k1) (\<lambda>(m2, s2, k2). msg_loop n w u m2 s2 k2))"

definition ScheduleCommlineRX :: "airline \<Rightarrow> airline" where
  "ScheduleCommlineRX s = s\<lparr>m_sendEvent := True\<rparr>"

definition msgReader :: "nat \<Rightarrow> world \<Rightarrow> usock \<Rightarrow> airline \<Rightarrow> kernel \<Rightarrow> (airline \<times> kernel) outcome" where
  "msgReader n w u s k =
     bindo (msg_loop n w u DEFINE_MBUF s k) (\<lambda>(s1, k1). Ret (ScheduleCommlineRX s1, k1))"

section \<open>Setting up the network\<close>

text \<open>Division of \<open>double\<close>s; by zero the result is not a number the model has.\<close>

definition ddiv :: "rat \<Rightarrow> int \<Rightarrow> rat option" where
  "ddiv x n = (if n = 0 then None else Some (x / of_int n))"

text \<open>\<open>None\<close> is the thrown \<open>FAILURE\<close>, an \<open>int\<close>, which \<open>startNetwork\<close> catches.\<close>

definition setPositionAllocator :: "world \<Rightarrow> airline \<Rightarrow> airline option outcome" where
  "setPositionAllocator w s =
     (let c = al_cfg s; topology = cfg_get c ''topologyType'';
          place = (\<lambda>a. s\<lparr>al_mob := (\<lambda>i. if i < al_nodes s then Some (w_alloc w a i) else al_mob s i)\<rparr>)
      in if topology = ''grid'' then
           bindo (CFG_STOI c ''gridWidth'') (\<lambda>gw.
             case (stod (cfg_get c ''fieldX''), stod (cfg_get c ''fieldY'')) of
               (Some x, Some y) \<Rightarrow> Ret (Some (place (GridPosition (ddiv x gw) (ddiv y gw) gw)))
             | _ \<Rightarrow> Fault Exception)
         else if topology = ''randrect'' then
           (let text = (\<lambda>f. snprintf_text 128 (''ns3::UniformRandomVariable[Min=0.0|Max='' @ f @ '']''))
            in Ret (Some (place (RandomRectangle (text (cfg_get c ''fieldX'')) (text (cfg_get c ''fieldY''))))))
         else Ret None)"

definition nodePos :: "nat \<Rightarrow> pos3 \<Rightarrow> airline \<Rightarrow> airline" where
  "nodePos i p s = s\<lparr>al_mob := (al_mob s)(i := Some p)\<rparr>"

text \<open>One node of the loop; the results of the interface calls are not looked at.\<close>

definition set_specific :: "world \<Rightarrow> string \<Rightarrow> nat \<Rightarrow> nodeinfo \<Rightarrow> airline \<Rightarrow> airline outcome" where
  "set_specific w deftxpower i ni s =
     (let s1 = (case getNodePosition ni of None \<Rightarrow> s | Some p \<Rightarrow> nodePos i p s);
          own = getkv ni ''txPower''; txpower = (if own = [] then deftxpower else own)
      in bindo (if getPromisMode ni \<noteq> 0 then ifaceSetPromiscuous (w_build w) (al_cfg s) (int i) (al_ctx s1)
                else Ret (SUCCESS, al_ctx s1)) (\<lambda>(r, x).
         bindo (if txpower = [] then Ret (SUCCESS, x)
                else case stod txpower of None \<Rightarrow> Fault Exception
                     | Some v \<Rightarrow> ifaceSetTxPower (w_build w) (al_cfg s) (int i) v x) (\<lambda>(r, x).
         Ret (s1\<lparr>al_ctx := x\<rparr>))))"

fun set_specifics :: "world \<Rightarrow> string \<Rightarrow> nat list \<Rightarrow> airline \<Rightarrow> airline outcome" where
  "set_specifics w d [] s = Ret s"
| "set_specifics w d (i # is) s = (case get_node_info (al_cfg s) (of_nat i) of
     None \<Rightarrow> Ret s
   | Some ni \<Rightarrow> bindo (set_specific w d i ni s) (set_specifics w d is))"

definition setNodeSpecificParam :: "world \<Rightarrow> airline \<Rightarrow> airline outcome" where
  "setNodeSpecificParam w s = set_specifics w (cfg_get (al_cfg s) ''txPower'') [0..<al_nodes s] s"

text \<open>
  Everything before \<open>Simulator::Run\<close> hands over to the event loop, and the events it starts with:
  the applications of the nodes at time 0, then the first poll of the queue.
\<close>

definition startNetwork ::
  "world \<Rightarrow> msg_buf \<Rightarrow> usock \<Rightarrow> airline \<Rightarrow> kernel \<Rightarrow> (int \<times> airline \<times> kernel) outcome" where
  "startNetwork w stk u s k =
     bindo (CFG_INT (al_cfg s) ''macChecksumEnabled'' ''1'') (\<lambda>cs.
     bindo (clear (w_now w) (al_ms s)) (\<lambda>ms.
       let n = nat (numOfNodes (cfg ms));
           s1 = s\<lparr>al_ms := ms, al_ctx := (al_ctx s)\<lparr>c_ns3 := (c_ns3 (al_ctx s))\<lparr>n_nodes := n\<rparr>\<rparr>\<rparr>
       in bindo (CFG_INT (al_cfg s) ''randSeed'' ''0xbabe'') (\<lambda>seed.
          bindo (setPositionAllocator w s1) (\<lambda>so. case so of
            None \<Rightarrow> Ret (FAILURE, s1, k)
          | Some s2 \<Rightarrow>
              bindo (ifaceInstall (w_build w) (al_cfg s2) (al_mob s2) (al_ctx s2)) (\<lambda>(r, x).
                let s3 = s2\<lparr>al_ctx := x\<rparr>
                in if r \<noteq> SUCCESS then Ret (FAILURE, s3, k)
                   else bindo (setNodeSpecificParam w s3) (\<lambda>s4.
                        bindo (start_applications (w_uid w) stk (map of_nat [0..<n]) (al_cfg s4) u k) (\<lambda>k1.
                        Ret (SUCCESS, ScheduleCommlineRX s4, k1))))))))"

text \<open>The constructor of \<open>Manager\<close> ignores the result; \<open>startManager\<close> catches what is thrown.\<close>

definition startManager :: "(int \<times> airline \<times> kernel) outcome \<Rightarrow> int outcome" where
  "startManager r = (case r of
     Ret _ \<Rightarrow> Ret SUCCESS | Fault Exception \<Rightarrow> Ret FAILURE | Fault f \<Rightarrow> Fault f | Blocked \<Rightarrow> Blocked)"

text \<open>
  \<open>main\<close> up to the manager: the exit status when it stops before, with every socket closed by the
  handler, or the loaded configuration and the process state the manager starts with.
\<close>

datatype started = Exited int kernel | Running config usock kernel

definition airline_main ::
  "u32 \<Rightarrow> (string \<Rightarrow> string option) \<Rightarrow> nat \<Rightarrow> string list \<Rightarrow> bool \<Rightarrow> kernel \<Rightarrow> started outcome" where
  "airline_main uid fs n args has_forker k =
     (if length args < 2 then Ret (Exited 0 k)
      else
        let (r, u, k1) = cl_init uid (MTYPE AIRLINE CL_MGR_ID) usock_start k;
            sig_handler = (\<lambda>signum. Ret (Exited signum (snd (cl_cleanup u k1))))
        in if r \<noteq> SUCCESS then sig_handler 1
           else bindo (setConfigurationFromFile n fs (args ! 1) new_config) (\<lambda>(r, c).
             if r \<noteq> SUCCESS then sig_handler 1
             else if \<not> has_forker then sig_handler 1
             else Ret (Running c u k1)))"

section \<open>Packets of the stacklines\<close>

abbreviation airline_q :: address where "airline_q \<equiv> (AIRLINE, CL_MGR_ID)"

lemma cfg_get_keyval: "keyval c = keyval c' \<Longrightarrow> cfg_get c = cfg_get c'"
  by (intro ext) (simp add: cfg_get_def)

lemma same_keyval:
  assumes "keyval c = keyval c'"
  shows "CFG_STOI c = CFG_STOI c'" "CFG_INT c = CFG_INT c'" "CFG_PANID c = CFG_PANID c'" "getIfaceApi c = getIfaceApi c'"
    "iface_request b c = iface_request b c'"
  using cfg_get_keyval [OF assms]
  by (simp_all add: fun_eq_iff CFG_STOI_def CFG_INT_def CFG_PANID_def cfg_get_def_val_def getIfaceApi_def iface_request_def)

text \<open>What the configured interface needs to accept a packet.\<close>

definition sendable :: "build \<Rightarrow> config \<Rightarrow> iface_ctx \<Rightarrow> msg_buf \<Rightarrow> bool" where
  "sendable b c x m \<longleftrightarrow> (case getIfaceApi c of
     IFACE_LRWPAN \<Rightarrow> (\<exists>pan. CFG_PANID c = Ret pan) \<and> unat (src_id m) < n_nodes (c_ns3 x) \<and> has_lrwpan (c_ns3 x) (unat (src_id m))
   | IFACE_PLC \<Rightarrow> PLC b)"

definition packet_ok :: "world \<Rightarrow> config \<Rightarrow> iface_ctx \<Rightarrow> int \<Rightarrow> msg_buf \<Rightarrow> bool" where
  "packet_ok w c x n m \<longleftrightarrow> \<not> has_flag MBUF_IS_CMD m \<and> mb_len m \<noteq> 0 \<and> fits_buf m \<and> unat (mb_len m) \<le> 2048
     \<and> uint (src_id m) < n \<and> (dst_id m = CL_DSTID_MACHDR_PRESENT \<longrightarrow> CFG_INT c ''macHeaderAdd'' ''1'' = Ret 0)
     \<and> sendable (w_build w) c x m"

lemma ifaceSendPacket_accepts:
  assumes "sendable b c x m" "CFG_STOI c ''numOfNodes'' = Ret n" "\<not> has_flag MBUF_IS_CMD m" "unat (mb_len m) \<le> length (buf m)"
  shows "\<exists>x'. ifaceSendPacket b c (uint (src_id m)) m x = Ret (SUCCESS, x') \<and>
    n_nodes (c_ns3 x') = n_nodes (c_ns3 x) \<and> has_lrwpan (c_ns3 x') = has_lrwpan (c_ns3 x)"
proof (cases "getIfaceApi c")
  case IFACE_LRWPAN
  with assms(1) obtain pan where "CFG_PANID c = Ret pan" "getDev (uint (src_id m)) (c_ns3 x) = Ret True"
    by (auto simp: sendable_def getDev_def uint_nat nat_less_iff simp del: of_nat_unat)
  with IFACE_LRWPAN assms(2-4) show ?thesis
    by (simp add: ifaceSendPacket_def on_ns3_def lrwpanSendPacket_def Let_def)
next
  case IFACE_PLC
  with assms show ?thesis
    by (simp add: ifaceSendPacket_def on_ns3_def plcSendPacket_def sendable_def has_entry_def)
qed

lemma payload_received [simp]:
  "fits_buf m \<Longrightarrow> payload (received a m m0) = payload m"
  by (simp add: payload_def received_def fits_buf_def min_def)

lemma iface_request_received [simp]:
  "fits_buf m \<Longrightarrow> iface_request b c i (received a m m0) = iface_request b c i m"
  by (simp add: iface_request_def lrwpan_request_def plc_request_def fun_eq_iff split: iface_type.splits)

lemma set_stats_received:
  "set_stats now AL_TX (received a m m0) = set_stats now AL_TX m"
proof -
  have "set_tx_stats (received a m m0) = set_tx_stats m"
    by (simp add: fun_eq_iff set_tx_stats_def has_flag_def)
  then show ?thesis by (intro ext) (simp add: set_stats_def ms_set_def split: option.split)
qed

lemma sendable_received [simp]: "sendable b c x (received a m m0) = sendable b c x m"
  by (simp add: sendable_def split: iface_type.split)

text \<open>One packet: one request, one count.\<close>

lemma packet_handled:
  assumes "packet_ok w (al_cfg s) (al_ctx s) n m" "CFG_STOI (al_cfg s) ''numOfNodes'' = Ret n" "ms_ok (al_ms s)"
  shows "\<exists>s1 x. msgrecvCallback w u (received a m m0) s k = Ret (received a m m0, s1, k)
    \<and> iface_request (w_build w) (al_cfg s) (uint (src_id m)) m x
    \<and> ns_log (c_ns3 (al_ctx s1)) = ns_log (c_ns3 (al_ctx s)) @ [x]
    \<and> n_nodes (c_ns3 (al_ctx s1)) = al_nodes s \<and> has_lrwpan (c_ns3 (al_ctx s1)) = has_lrwpan (c_ns3 (al_ctx s))
    \<and> set_stats (w_now w) AL_TX m (al_ms s) = Ret (al_ms s1) \<and> ms_ok (al_ms s1) \<and> keyval (al_cfg s1) = keyval (al_cfg s)"
proof -
  let ?m = "received a m m0"
  have ok: "sendable (w_build w) (al_cfg s) (al_ctx s) ?m" "\<not> has_flag MBUF_IS_CMD ?m" "fits_buf m"
    using assms(1) by (simp_all add: packet_ok_def has_flag_def)
  have len: "unat (mb_len ?m) \<le> length (buf ?m)"
    using assms(1) by (simp add: packet_ok_def fits_buf_def received_def)
  obtain x' where x': "ifaceSendPacket (w_build w) (al_cfg s) (uint (src_id m)) ?m (al_ctx s) = Ret (SUCCESS, x')"
    "n_nodes (c_ns3 x') = al_nodes s" "has_lrwpan (c_ns3 x') = has_lrwpan (c_ns3 (al_ctx s))"
    using ifaceSendPacket_accepts [OF ok(1) assms(2) ok(2) len] by auto
  from iface.send_one [OF x'(1)] ok(3) obtain x where
    x: "iface_request (w_build w) (al_cfg s) (uint (src_id m)) m x" "ns_log (c_ns3 x') = ns_log (c_ns3 (al_ctx s)) @ [x]"
    by auto
  obtain ms where ms: "set_stats (w_now w) AL_TX m (al_ms s) = Ret ms" "keyval (cfg ms) = keyval (al_cfg s)"
    using set_stats_eq [OF assms(3), of "w_now w" AL_TX m] by (auto simp: upd_stats_def)
  have r: "IN_RANGE (uint (src_id m)) 0 n" using assms(1) by (simp add: packet_ok_def IN_RANGE_def)
  have "bindo (if dst_id m = CL_DSTID_MACHDR_PRESENT
      then bindo (CFG_INT (al_cfg s) ''macHeaderAdd'' ''1'') (\<lambda>v. Ret (v \<noteq> 0)) else Ret False) f = f False" for f :: "bool \<Rightarrow> (msg_buf \<times> airline \<times> kernel) outcome"
    using assms(1) by (auto simp: packet_ok_def)
  then have "msgrecvCallback w u ?m s k = Ret (?m, s\<lparr>al_ctx := x', al_ms := ms\<rparr>, k)"
    using ok(2) r assms(2) x'(1) ms(1) by (simp add: msgrecvCallback_def set_stats_received)
  with x x' ms ms_ok_set_stats [OF assms(3) ms(1)] show ?thesis
    by (intro exI [of _ "s\<lparr>al_ctx := x', al_ms := ms\<rparr>"] exI [of _ x]) simp
qed

lemma recv_nothing:
  assumes "uopen uid su cap rcv k a" "k_queue k (rfd rcv a) = []" "length (buf m0) = cap + 1"
  shows "cl_recvfrom_q (mt a) (Some m0) (of_nat (16 + cap)) True (rcv a) k = Ret (-1, Some (clear_struct m0), k)"
proof -
  have cap: "unat (of_nat (16 + cap) :: u16) = 16 + cap"
    using assms(1) by (simp add: uopen_def unat_of_nat take_bit_nat_eq_self del: of_nat_add)
  then have nz: "(of_nat (16 + cap) :: u16) \<noteq> 0" by (metis add_is_0 unat_0 zero_neq_numeral)
  have c: "(clear_struct m0)\<lparr>mb_len := 0\<rparr> = clear_struct m0"
    by (simp add: clear_struct_def zero_mbuf_def)
  show ?thesis
    using uopen_fd [OF assms(1)] cap nz assms(2) c
    by (auto simp: cl_recvfrom_q_def usock_recvfrom_def sys_recvfrom_def rfd_def [symmetric]
        overwrite_def Let_def sizeof_msg_buf_def)
qed

lemma clear_struct_facts [simp]:
  "mb_len (clear_struct m) = 0" "0 < length (buf m) \<Longrightarrow> length (buf (clear_struct m)) = length (buf m)"
  by (simp_all add: clear_struct_def zero_mbuf_def)

lemma msg_loop_sends:
  assumes "CFG_STOI c ''numOfNodes'' = Ret n"
  shows "\<lbrakk>uopen uid su 2048 rcv k airline_q; k_queue k (rfd rcv airline_q) = map (wire airline_q) ms;
     \<forall>m \<in> set ms. packet_ok w (al_cfg s) (al_ctx s) n m; keyval (al_cfg s) = keyval c; ms_ok (al_ms s);
     length (buf m0) = 2049; length ms < fuel\<rbrakk> \<Longrightarrow>
   \<exists>s1 xs. msg_loop fuel w (rcv airline_q) m0 s k = Ret (s1, k\<lparr>k_queue := (k_queue k)(rfd rcv airline_q := [])\<rparr>)
     \<and> ns_log (c_ns3 (al_ctx s1)) = ns_log (c_ns3 (al_ctx s)) @ xs
     \<and> list_all2 (\<lambda>m x. iface_request (w_build w) c (uint (src_id m)) m x) ms xs
     \<and> run_stats (w_now w) (map (Pair AL_TX) ms) (al_ms s) = Ret (al_ms s1)"
proof (induction ms arbitrary: s k m0 fuel)
  case Nil
  then obtain f where f: "fuel = Suc f" by (cases fuel) auto
  have k: "k\<lparr>k_queue := (k_queue k)(rfd rcv airline_q := [])\<rparr> = k"
    using Nil.prems(2) by (simp add: fun_upd_idem)
  have "cl_recvfrom_q (MTYPE AIRLINE CL_MGR_ID) (Some m0) (of_nat (16 + 2048)) True (rcv airline_q) k
      = Ret (-1, Some (clear_struct m0), k)"
    using recv_nothing [OF Nil.prems(1) _ , of m0] Nil.prems(2,6) by simp
  with f show ?case unfolding k by (simp add: sizeof_msg_buf_def COMMLINE_MAX_BUF_def)
next
  case (Cons m ms)
  then obtain f where f: "fuel = Suc f" "length ms < f" by (cases fuel) auto
  let ?m = "received airline_q m m0"
  let ?k = "k\<lparr>k_queue := (k_queue k)(rfd rcv airline_q := map (wire airline_q) ms)\<rparr>"
  have pm: "packet_ok w (al_cfg s) (al_ctx s) n m" using Cons.prems by simp
  then have fit: "fits_buf m" "unat (mb_len m) \<le> 2048" "mb_len m \<noteq> 0" by (auto simp: packet_ok_def)
  have recv: "cl_recvfrom_q (MTYPE AIRLINE CL_MGR_ID) (Some m0) (of_nat (16 + 2048)) True (rcv airline_q) k
      = Ret (16 + int (unat (mb_len m)), Some ?m, ?k)"
    using recv_wire [OF Cons.prems(1) _ fit(1,2), of "map (wire airline_q) ms" m0 True] Cons.prems(2,6) by simp
  have nn: "CFG_STOI (al_cfg s) ''numOfNodes'' = Ret n" using assms same_keyval(1) [OF Cons.prems(4)] by simp
  obtain s1 x where s1: "msgrecvCallback w (rcv airline_q) ?m s ?k = Ret (?m, s1, ?k)"
      "iface_request (w_build w) (al_cfg s) (uint (src_id m)) m x"
      "ns_log (c_ns3 (al_ctx s1)) = ns_log (c_ns3 (al_ctx s)) @ [x]"
      "n_nodes (c_ns3 (al_ctx s1)) = al_nodes s" "has_lrwpan (c_ns3 (al_ctx s1)) = has_lrwpan (c_ns3 (al_ctx s))"
      "set_stats (w_now w) AL_TX m (al_ms s) = Ret (al_ms s1)" "ms_ok (al_ms s1)" "keyval (al_cfg s1) = keyval (al_cfg s)"
    using packet_handled [OF pm nn Cons.prems(5)] by blast
  have all: "\<forall>m \<in> set ms. packet_ok w (al_cfg s1) (al_ctx s1) n m"
    using Cons.prems(3) s1(4,5) same_keyval [OF s1(8)]
    by (auto simp: packet_ok_def sendable_def split: iface_type.splits)
  have "length (buf ?m) = 2049" using fit Cons.prems(6) by simp
  moreover have "uopen uid su 2048 rcv ?k airline_q" "k_queue ?k (rfd rcv airline_q) = map (wire airline_q) ms"
    "keyval (al_cfg s1) = keyval c" using Cons.prems(1,4) s1(8) by simp_all
  ultimately obtain s2 xs where ih:
    "msg_loop f w (rcv airline_q) ?m s1 ?k = Ret (s2, ?k\<lparr>k_queue := (k_queue ?k)(rfd rcv airline_q := [])\<rparr>)"
    "ns_log (c_ns3 (al_ctx s2)) = ns_log (c_ns3 (al_ctx s1)) @ xs"
    "list_all2 (\<lambda>m x. iface_request (w_build w) c (uint (src_id m)) m x) ms xs"
    "run_stats (w_now w) (map (Pair AL_TX) ms) (al_ms s1) = Ret (al_ms s2)"
    using Cons.IH [OF _ _ all _ s1(7) _ f(2), of ?k ?m] by blast
  have "msg_loop fuel w (rcv airline_q) m0 s k = msg_loop f w (rcv airline_q) ?m s1 ?k"
    using f(1) recv fit s1(1) by (simp add: sizeof_msg_buf_def COMMLINE_MAX_BUF_def)
  moreover have "?k\<lparr>k_queue := (k_queue ?k)(rfd rcv airline_q := [])\<rparr> = k\<lparr>k_queue := (k_queue k)(rfd rcv airline_q := [])\<rparr>"
    by simp
  ultimately show ?case
    using ih s1(2,3,6) same_keyval(5) [OF Cons.prems(4)] by (intro exI [of _ s2] exI [of _ "x # xs"]) (simp add: fun_upd_def)
qed

text \<open>
  C7: Packets leave in the order in which the stacklines sent them: when the queue of the airline
  holds acceptable packets, one poll with fuel for one message more than the queue holds returns
  with an empty queue, has made exactly one request to the simulator per packet, in order, for the
  node that sent it and with its payload, has counted each packet once for its sender, has sent
  no message, and has scheduled the next poll.
\<close>

theorem queued_packets_sent_in_order:
  assumes "uopen uid su 2048 rcv k airline_q" "k_queue k (rfd rcv airline_q) = map (wire airline_q) ms"
    and "CFG_STOI (al_cfg s) ''numOfNodes'' = Ret n"
    and "\<forall>m \<in> set ms. packet_ok w (al_cfg s) (al_ctx s) n m" "ms_ok (al_ms s)" "length ms < fuel"
  shows "\<exists>s1 xs. msgReader fuel w (rcv airline_q) s k = Ret (s1, k\<lparr>k_queue := (k_queue k)(rfd rcv airline_q := [])\<rparr>)
     \<and> ns_log (c_ns3 (al_ctx s1)) = ns_log (c_ns3 (al_ctx s)) @ xs
     \<and> list_all2 (\<lambda>m x. iface_request (w_build w) (al_cfg s) (uint (src_id m)) m x) ms xs
     \<and> run_stats (w_now w) (map (Pair AL_TX) ms) (al_ms s) = Ret (al_ms s1) \<and> m_sendEvent s1"
proof -
  have "length (buf DEFINE_MBUF) = 2049" by simp
  from msg_loop_sends [OF assms(3,1,2,4) refl assms(5) this assms(6)] obtain s1 xs where
    "msg_loop fuel w (rcv airline_q) DEFINE_MBUF s k = Ret (s1, k\<lparr>k_queue := (k_queue k)(rfd rcv airline_q := [])\<rparr>)"
    "ns_log (c_ns3 (al_ctx s1)) = ns_log (c_ns3 (al_ctx s)) @ xs"
    "list_all2 (\<lambda>m x. iface_request (w_build w) (al_cfg s) (uint (src_id m)) m x) ms xs"
    "run_stats (w_now w) (map (Pair AL_TX) ms) (al_ms s) = Ret (al_ms s1)" by blast
  then show ?thesis
    by (intro exI [of _ "ScheduleCommlineRX s1"] exI [of _ xs]) (simp add: msgReader_def ScheduleCommlineRX_def)
qed

lemma demo_net_lrwpan: "getIfaceApi (sized_config n new_config) = IFACE_LRWPAN"
proof -
  have "lower ''PHY'' \<noteq> lower ''numOfNodes''" by code_simp
  moreover have "\<not> stricmp_eq [] ''plc''" by (simp add: stricmp_eq_def strcasecmp_eq_def)
  ultimately show ?thesis
    by (simp add: getIfaceApi_def cfg_get_def sized_config_def new_config_def kv_find_def kv_put_def del: lower_simps)
qed

lemma queued_packets_sent_in_order_witness:
  "\<exists>s1 xs k. msgReader 2 demo_world demo_all (demo_al (sized_config 2 new_config) 2 (0, 0, 0))
      ((demo_at airline_q)\<lparr>k_queue := (k_queue (demo_at airline_q))(3 := [wire airline_q (air_msg 1 0 0 ''hi'')])\<rparr>) = Ret (s1, k)
    \<and> ns_log (c_ns3 (al_ctx s1)) = xs \<and> length xs = 1"
proof -
  let ?s = "demo_al (sized_config 2 new_config) 2 (0, 0, 0)" and ?m = "air_msg 1 0 0 ''hi''"
  let ?k = "(demo_at airline_q)\<lparr>k_queue := (k_queue (demo_at airline_q))(3 := [wire airline_q ?m])\<rparr>"
  have ms: "al_ms ?s = demo_ms" by (simp add: demo_ms_def)
  have rfd: "rfd (\<lambda>_. demo_all) airline_q = 3" by (simp add: rfd_def usock_fd_def demo_all_def)
  have "uopen 0 demo_all 2048 (\<lambda>_. demo_all) ?k airline_q" using demo_open_at [of airline_q] by simp
  moreover have "k_queue ?k (rfd (\<lambda>_. demo_all) airline_q) = map (wire airline_q) [?m]" by (simp add: rfd)
  moreover have "CFG_STOI (al_cfg ?s) ''numOfNodes'' = Ret 2" using sized_numOfNodes [of 2] by simp
  moreover have "packet_ok demo_world (al_cfg ?s) (al_ctx ?s) 2 ?m"
    using air_msg_buf(1) [of "''hi''" 1 0 0] demo_net_lrwpan [of 2] demo_cfg_ints(1)
    by (auto simp: packet_ok_def sendable_def has_flag_def demo_net_def CL_DSTID_MACHDR_PRESENT_def)
  moreover have "ms_ok (al_ms ?s)" using demo_ms_ok ms by simp
  ultimately obtain s1 xs where "msgReader 2 demo_world demo_all ?s ?k
      = Ret (s1, ?k\<lparr>k_queue := (k_queue ?k)(rfd (\<lambda>_. demo_all) airline_q := [])\<rparr>)"
    "ns_log (c_ns3 (al_ctx s1)) = ns_log (c_ns3 (al_ctx ?s)) @ xs"
    "list_all2 (\<lambda>m x. iface_request (w_build demo_world) (al_cfg ?s) (uint (src_id m)) m x) [?m] xs"
    using queued_packets_sent_in_order [of 0 demo_all "\<lambda>_. demo_all" ?k "[?m]" ?s 2 demo_world 2] by auto
  then show ?thesis by (auto simp: demo_net_def dest: list_all2_lengthD)
qed

section \<open>Starting the network\<close>

text \<open>The allocator the configuration names, when its values can be parsed.\<close>

definition allocator_of :: "config \<Rightarrow> allocator option" where
  "allocator_of c =
     (let text = (\<lambda>f. snprintf_text 128 (''ns3::UniformRandomVariable[Min=0.0|Max='' @ cfg_get c f @ '']''))
      in if cfg_get c ''topologyType'' = ''grid'' then
           (case (CFG_STOI c ''gridWidth'', stod (cfg_get c ''fieldX''), stod (cfg_get c ''fieldY'')) of
              (Ret gw, Some x, Some y) \<Rightarrow> Some (GridPosition (ddiv x gw) (ddiv y gw) gw) | _ \<Rightarrow> None)
         else if cfg_get c ''topologyType'' = ''randrect'' then Some (RandomRectangle (text ''fieldX'') (text ''fieldY''))
         else None)"

lemma setPositionAllocator_places:
  assumes "allocator_of (al_cfg s) = Some a"
  shows "setPositionAllocator w s
    = Ret (Some (s\<lparr>al_mob := (\<lambda>i. if i < al_nodes s then Some (w_alloc w a i) else al_mob s i)\<rparr>))"
proof (cases "cfg_get (al_cfg s) ''topologyType'' = ''grid''")
  case True
  with assms show ?thesis
    by (auto simp: allocator_of_def setPositionAllocator_def Let_def split: outcome.splits option.splits)
next
  case False
  with assms show ?thesis
    by (auto simp: allocator_of_def setPositionAllocator_def Let_def split: if_splits)
qed

text \<open>The power of a node: its own value, or the default; \<open>None\<close> when it does not parse.\<close>

definition power_of :: "config \<Rightarrow> nat \<Rightarrow> rat option option" where
  "power_of c i =
     (let own = getkv (nodeArray c ! i) ''txPower''; t = (if own = [] then cfg_get c ''txPower'' else own)
      in if t = [] then Some None else map_option Some (stod t))"

definition specific_calls :: "config \<Rightarrow> nat \<Rightarrow> ns_call list" where
  "specific_calls c i =
     (if getIfaceApi c = IFACE_PLC then []
      else (if getPromisMode (nodeArray c ! i) \<noteq> 0 then [SetPromiscuousMode i] else []) @
           (case power_of c i of Some (Some v) \<Rightarrow> [SetTxPower i v] | _ \<Rightarrow> []))"

definition own_position :: "config \<Rightarrow> (nat \<Rightarrow> pos3 option) \<Rightarrow> nat \<Rightarrow> pos3 option" where
  "own_position c mob i = (case getNodePosition (nodeArray c ! i) of None \<Rightarrow> mob i | Some p \<Rightarrow> Some p)"

definition log_more :: "ns_call list \<Rightarrow> iface_ctx \<Rightarrow> iface_ctx" where
  "log_more xs x = x\<lparr>c_ns3 := (c_ns3 x)\<lparr>ns_log := ns_log (c_ns3 x) @ xs\<rparr>\<rparr>"

lemma log_more_simps [simp]:
  "n_nodes (c_ns3 (log_more xs x)) = n_nodes (c_ns3 x)" "has_lrwpan (c_ns3 (log_more xs x)) = has_lrwpan (c_ns3 x)"
  "ns_log (c_ns3 (log_more xs x)) = ns_log (c_ns3 x) @ xs" "log_more ys (log_more xs x) = log_more (xs @ ys) x"
  "log_more [] x = x"
  by (simp_all add: log_more_def)

lemma iface_node_calls:
  assumes "i < n_nodes (c_ns3 x)" "has_lrwpan (c_ns3 x) i"
  shows "\<exists>r. ifaceSetPromiscuous b c (int i) x
      = Ret (r, log_more (if getIfaceApi c = IFACE_PLC then [] else [SetPromiscuousMode i]) x)"
    "\<exists>r. ifaceSetTxPower b c (int i) v x
      = Ret (r, log_more (if getIfaceApi c = IFACE_PLC then [] else [SetTxPower i v]) x)"
  using assms
  by (cases "getIfaceApi c"; simp add: ifaceSetPromiscuous_def ifaceSetTxPower_def on_ns3_def lrwpanSetPromiscuous_def
      lrwpanSetTxPower_def getDev_def call_def log_more_def)+

lemma set_specific_calls:
  assumes "i < al_nodes s" "has_lrwpan (c_ns3 (al_ctx s)) i" "power_of (al_cfg s) i \<noteq> None"
  shows "set_specific w (cfg_get (al_cfg s) ''txPower'') i (nodeArray (al_cfg s) ! i) s
    = Ret (s\<lparr>al_mob := (al_mob s)(i := own_position (al_cfg s) (al_mob s) i),
             al_ctx := log_more (specific_calls (al_cfg s) i) (al_ctx s)\<rparr>)"
proof -
  let ?c = "al_cfg s" and ?ni = "nodeArray (al_cfg s) ! i"
  define t where "t = (if getkv ?ni ''txPower'' = [] then cfg_get ?c ''txPower'' else getkv ?ni ''txPower'')"
  define ps where "ps = (if getIfaceApi ?c \<noteq> IFACE_PLC \<and> getPromisMode ?ni \<noteq> 0 then [SetPromiscuousMode i] else [])"
  define s1 where "s1 = s\<lparr>al_mob := (al_mob s)(i := own_position ?c (al_mob s) i)\<rparr>"
  have pos: "(case getNodePosition ?ni of None \<Rightarrow> s | Some p \<Rightarrow> nodePos i p s) = s1"
    by (cases "getNodePosition ?ni") (simp_all add: s1_def nodePos_def own_position_def)
  obtain r1 where r1: "(if getPromisMode ?ni \<noteq> 0 then ifaceSetPromiscuous (w_build w) ?c (int i) (al_ctx s)
      else Ret (SUCCESS, al_ctx s)) = Ret (r1, log_more ps (al_ctx s))"
    using iface_node_calls(1) [OF assms(1,2), of "w_build w" ?c] by (cases "getPromisMode ?ni = 0") (auto simp: ps_def)
  have dev: "i < n_nodes (c_ns3 (log_more ps (al_ctx s)))" "has_lrwpan (c_ns3 (log_more ps (al_ctx s))) i"
    using assms by simp_all
  have sc: "specific_calls ?c i = ps @ (if getIfaceApi ?c = IFACE_PLC then [] else
      (case power_of ?c i of Some (Some v) \<Rightarrow> [SetTxPower i v] | _ \<Rightarrow> []))"
    by (simp add: specific_calls_def ps_def)
  obtain r2 where "(if t = [] then Ret (SUCCESS, log_more ps (al_ctx s))
      else case stod t of None \<Rightarrow> Fault Exception
        | Some v \<Rightarrow> ifaceSetTxPower (w_build w) ?c (int i) v (log_more ps (al_ctx s)))
      = Ret (r2, log_more (specific_calls ?c i) (al_ctx s))"
  proof (cases "t = []")
    case True
    then have "power_of ?c i = Some None" by (simp add: power_of_def Let_def t_def)
    with True that show thesis by (simp add: sc)
  next
    case False
    with assms(3) obtain v where v: "stod t = Some v" "power_of ?c i = Some (Some v)"
      by (cases "stod t") (auto simp: power_of_def Let_def t_def)
    with False that show thesis using iface_node_calls(2) [OF dev, of "w_build w" ?c v] by (auto simp: sc)
  qed
  moreover have "al_ctx s1 = al_ctx s" by (simp add: s1_def)
  ultimately show ?thesis
    unfolding set_specific_def Let_def t_def [symmetric] pos by (simp only: r1 bindo.simps prod.case) (simp add: s1_def)
qed

lemma own_position_upd:
  "i \<notin> set is \<Longrightarrow> j \<in> set is \<Longrightarrow> own_position c (mob(i := p)) j = own_position c mob j"
  by (cases "i = j") (simp_all add: own_position_def split: option.split)

lemma set_specifics_calls:
  "\<lbrakk>config_ok c; numOfNodes c < 65536; al_cfg s = c; distinct is;
    \<forall>i \<in> set is. i < length (nodeArray c) \<and> i < al_nodes s \<and> has_lrwpan (c_ns3 (al_ctx s)) i \<and> power_of c i \<noteq> None\<rbrakk> \<Longrightarrow>
   set_specifics w (cfg_get c ''txPower'') is s
   = Ret (s\<lparr>al_mob := (\<lambda>i. if i \<in> set is then own_position c (al_mob s) i else al_mob s i),
            al_ctx := log_more (concat (map (specific_calls c) is)) (al_ctx s)\<rparr>)"
proof (induction "is" arbitrary: s)
  case (Cons i "is")
  define s1 where "s1 = s\<lparr>al_mob := (al_mob s)(i := own_position c (al_mob s) i),
             al_ctx := log_more (specific_calls c i) (al_ctx s)\<rparr>"
  have i: "i < length (nodeArray c)" "i < al_nodes s" "has_lrwpan (c_ns3 (al_ctx s)) i" "power_of (al_cfg s) i \<noteq> None"
    using Cons.prems by auto
  have "i < 65536" using i(1) Cons.prems(1,2) by (simp add: config_ok_def)
  then have "get_node_info c (of_nat i) = Some (nodeArray c ! i)"
    using i(1) get_node_info_eq [OF Cons.prems(1), of "of_nat i"] by (simp add: unat_of_nat)
  then have "set_specifics w (cfg_get c ''txPower'') (i # is) s = set_specifics w (cfg_get c ''txPower'') is s1"
    using set_specific_calls [OF i(2-4), of w] Cons.prems(3) by (simp add: s1_def)
  also have "\<dots> = Ret (s1\<lparr>al_mob := (\<lambda>j. if j \<in> set is then own_position c (al_mob s1) j else al_mob s1 j),
            al_ctx := log_more (concat (map (specific_calls c) is)) (al_ctx s1)\<rparr>)"
    using Cons.prems by (intro Cons.IH) (auto simp: s1_def)
  also have "(\<lambda>j. if j \<in> set is then own_position c (al_mob s1) j else al_mob s1 j)
      = (\<lambda>j. if j \<in> set (i # is) then own_position c (al_mob s) j else al_mob s j)"
    using Cons.prems(4) own_position_upd [of i "is" _ c "al_mob s"] by (auto simp: s1_def fun_eq_iff)
  finally show ?case by (simp add: s1_def)
qed simp

definition cleared :: "config \<Rightarrow> config" where
  "cleared c = c\<lparr>nodeArray := map reset (nodeArray c)\<rparr>"

lemma fold_reset_all:
  "j \<le> length ns \<Longrightarrow> fold (\<lambda>i ns. ns[i := reset (ns ! i)]) [0..<j] ns = map reset (take j ns) @ drop j ns"
proof (induction j)
  case (Suc j)
  then have "fold (\<lambda>i ns. ns[i := reset (ns ! i)]) [0..<j] ns = map reset (take j ns) @ drop j ns" by simp
  moreover have "drop j ns = ns ! j # drop (Suc j) ns" using Suc.prems by (simp add: Cons_nth_drop_Suc)
  ultimately show ?case
    using Suc.prems by (simp add: take_Suc_conv_app_nth nth_append list_update_append)
qed simp

lemma clear_eq:
  assumes "config_ok (cfg s)" "numOfNodes (cfg s) < 65536"
  shows "clear now s = Ret (s\<lparr>g_tv := now, cfg := cleared (cfg s)\<rparr>)"
  using assms fold_reset_all [of "length (nodeArray (cfg s))" "nodeArray (cfg s)"]
  by (simp add: clear_def node_ids_def cleared_def config_ok_def)

lemma cleared_same:
  assumes "config_ok c"
  shows "keyval (cleared c) = keyval c" "numOfNodes (cleared c) = numOfNodes c" "config_ok (cleared c)"
    "length (nodeArray (cleared c)) = length (nodeArray c)"
    "i < length (nodeArray c) \<Longrightarrow> power_of (cleared c) i = power_of c i"
    "i < length (nodeArray c) \<Longrightarrow> specific_calls (cleared c) i = specific_calls c i"
    "i < length (nodeArray c) \<Longrightarrow> own_position (cleared c) mob i = own_position c mob i"
proof -
  have k: "keyval (cleared c) = keyval c" by (simp add: cleared_def)
  note g = cfg_get_keyval [OF k] same_keyval(4) [OF k]
  have n: "nodeArray (cleared c) ! i = reset (nodeArray c ! i)" if "i < length (nodeArray c)"
    using that by (simp add: cleared_def)
  have p: "power_of (cleared c) i = power_of c i" if "i < length (nodeArray c)"
    using that g by (simp add: power_of_def n reset_def getkv_def Let_def)
  show "i < length (nodeArray c) \<Longrightarrow> power_of (cleared c) i = power_of c i" by (rule p)
  show "i < length (nodeArray c) \<Longrightarrow> specific_calls (cleared c) i = specific_calls c i"
    using p g by (simp add: specific_calls_def n reset_def getPromisMode_def)
  show "i < length (nodeArray c) \<Longrightarrow> own_position (cleared c) mob i = own_position c mob i"
    by (simp add: own_position_def n reset_def getNodePosition_def)
qed (use assms in \<open>simp_all add: cleared_def config_ok_def\<close>)

lemma start_applications_cleared:
  assumes "config_ok c"
  shows "start_applications uid stk is (cleared c) u = start_applications uid stk is c u"
proof -
  have "spawnStackline uid stk i (cleared c) u k = spawnStackline uid stk i c u k" for i k
    using cleared_same(4) [OF assms] by (simp add: spawnStackline_def) (simp add: cleared_def reset_def Let_def)
  then show ?thesis by (induction "is") (simp_all add: ext)
qed

text \<open>
  C10: The network starts in a fixed order.  With a parsable configuration the interface is
  installed first, with every node at the place the allocator gave it; only then each node gets its
  own position if it has one, and the calls for its promiscuous mode and power; then the
  stacklines are started, in the order of the ids, and the first poll is scheduled.  A power-line
  network is therefore always built from the allocator's positions, never from the nodes' own.
\<close>

theorem network_started:
  assumes "config_ok c" "numOfNodes c = int n" "n < 65536" "al_cfg s = c"
    and "CFG_INT c ''macChecksumEnabled'' ''1'' = Ret cs" "CFG_INT c ''randSeed'' ''0xbabe'' = Ret seed"
    and "allocator_of c = Some a" "ctx = al_ctx s\<lparr>c_ns3 := (c_ns3 (al_ctx s))\<lparr>n_nodes := n\<rparr>\<rparr>"
    and "ifaceInstall (w_build w) (cleared c) (\<lambda>i. if i < n then Some (w_alloc w a i) else al_mob s i) ctx = Ret (SUCCESS, x)"
    and "n_nodes (c_ns3 x) = n" "\<forall>i < n. has_lrwpan (c_ns3 x) i \<and> power_of c i \<noteq> None"
    and "start_applications (w_uid w) stk (map of_nat [0..<n]) c u k = Ret k1"
  shows "\<exists>s1. startNetwork w stk u s k = Ret (SUCCESS, s1, k1) \<and> m_sendEvent s1 \<and> al_cfg s1 = cleared c \<and>
    al_ctx s1 = log_more (concat (map (specific_calls c) [0..<n])) x \<and>
    (\<forall>i < n. al_mob s1 i = (case getNodePosition (nodeArray c ! i) of
        None \<Rightarrow> Some (w_alloc w a i) | Some p \<Rightarrow> Some p))"
proof -
  have n: "length (nodeArray c) = n" using assms(1,2) by (simp add: config_ok_def)
  note cl = cleared_same [OF assms(1)]
  let ?mob = "\<lambda>i. if i < n then Some (w_alloc w a i) else al_mob s i"
  define s1 where "s1 = s\<lparr>al_ms := (al_ms s)\<lparr>g_tv := w_now w, cfg := cleared c\<rparr>, al_ctx := ctx\<rparr>"
  define s3 where "s3 = s1\<lparr>al_mob := ?mob, al_ctx := x\<rparr>"
  have clr: "clear (w_now w) (al_ms s) = Ret ((al_ms s)\<lparr>g_tv := w_now w, cfg := cleared c\<rparr>)"
    using clear_eq [of "al_ms s"] assms(1-4) by simp
  have "allocator_of (cleared c) = Some a"
    using assms(7) by (simp only: allocator_of_def cfg_get_keyval [OF cl(1)] same_keyval(1) [OF cl(1)])
  moreover have "al_cfg s1 = cleared c" "al_nodes s1 = n" "al_mob s1 = al_mob s" by (simp_all add: s1_def assms(8))
  ultimately have pos: "setPositionAllocator w s1 = Ret (Some (s1\<lparr>al_mob := ?mob\<rparr>))"
    using setPositionAllocator_places [of s1 a w] by (simp cong: if_cong)
  define s4 where "s4 = s3\<lparr>al_mob := (\<lambda>i. if i \<in> set [0..<n] then own_position (cleared c) (al_mob s3) i else al_mob s3 i),
      al_ctx := log_more (concat (map (specific_calls (cleared c)) [0..<n])) (al_ctx s3)\<rparr>"
  have s3: "al_cfg s3 = cleared c" "al_ctx s3 = x" "al_mob s3 = ?mob" by (simp_all add: s3_def s1_def)
  have "set_specifics w (cfg_get (cleared c) ''txPower'') [0..<n] s3 = Ret s4"
    unfolding s4_def using assms(2,3,10,11) cl(2-5) n by (intro set_specifics_calls) (simp_all add: s3)
  then have spec: "setNodeSpecificParam w s3 = Ret s4"
    using assms(10) by (simp add: setNodeSpecificParam_def s3)
  have ms: "map (specific_calls (cleared c)) [0..<n] = map (specific_calls c) [0..<n]"
    using cl(6) n by (intro map_cong) simp_all
  have s4: "al_cfg s4 = cleared c" by (simp add: s4_def s3)
  have nn: "nat (numOfNodes (cfg ((al_ms s)\<lparr>g_tv := w_now w, cfg := cleared c\<rparr>))) = n"
    using assms(2) cl(2) by simp
  have st: "s\<lparr>al_ms := (al_ms s)\<lparr>g_tv := w_now w, cfg := cleared c\<rparr>,
      al_ctx := (al_ctx s)\<lparr>c_ns3 := (c_ns3 (al_ctx s))\<lparr>n_nodes := n\<rparr>\<rparr>\<rparr> = s1"
    by (simp add: s1_def assms(8))
  have s2: "al_cfg (s1\<lparr>al_mob := ?mob\<rparr>) = cleared c" "al_mob (s1\<lparr>al_mob := ?mob\<rparr>) = ?mob"
    "al_ctx (s1\<lparr>al_mob := ?mob\<rparr>) = ctx" "s1\<lparr>al_mob := ?mob, al_ctx := x\<rparr> = s3"
    by (simp_all add: s1_def s3_def)
  have "startNetwork w stk u s k = Ret (SUCCESS, ScheduleCommlineRX s4, k1)"
    unfolding startNetwork_def assms(4-6) bindo.simps clr Let_def nn st pos option.case s2(1-3) assms(9)
    using spec s4 start_applications_cleared [OF assms(1)] assms(12) by (simp add: s2(4))
  moreover have "own_position (cleared c) ?mob i
      = (case getNodePosition (nodeArray c ! i) of None \<Rightarrow> Some (w_alloc w a i) | Some p \<Rightarrow> Some p)" if "i < n" for i
    using that unfolding cl(7) [unfolded n, OF that] by (simp add: own_position_def)
  ultimately show ?thesis
    by (intro exI [of _ "ScheduleCommlineRX s4"]) (simp add: ScheduleCommlineRX_def s4_def s3 ms)
qed

definition start_cfg :: config where
  "start_cfg = cfg_set ''topologyType'' ''randrect'' (new_config\<lparr>nodeArray :=
     [set_position 1 2 3 (new_nodeinfo\<lparr>nodeExec := ''./app $NODEID A=1''\<rparr>)], numOfNodes := 1\<rparr>)"

lemma start_cfg_get: "cfg_get start_cfg k = (if lower k = lower ''topologyType'' then ''randrect'' else [])"
  by (simp add: cfg_get_def start_cfg_def cfg_set_def new_config_def kv_find_def kv_put_def del: lower_simps)

lemma start_cfg_values:
  "cfg_get start_cfg ''topologyType'' = ''randrect''" "cfg_get start_cfg ''txPower'' = []"
  "CFG_INT start_cfg ''macChecksumEnabled'' ''1'' = Ret 1" "CFG_INT start_cfg ''randSeed'' ''0xbabe'' = Ret 0xbabe"
  "CFG_PANID start_cfg = Ret 0xface" "CFG_INT start_cfg ''macMaxRetry'' ''3'' = Ret 3"
  "CFG_INT start_cfg ''macHeaderAdd'' ''1'' = Ret 1" "cfg_get start_cfg ''NS3_captureFile'' = []"
  "cfg_get start_cfg ''lossModel'' = []" "cfg_get start_cfg ''delayModel'' = []" "getIfaceApi start_cfg = IFACE_LRWPAN"
proof -
  have l: "lower ''txPower'' \<noteq> lower ''topologyType''" "lower ''macChecksumEnabled'' \<noteq> lower ''topologyType''"
    "lower ''randSeed'' \<noteq> lower ''topologyType''" "lower ''panID'' \<noteq> lower ''topologyType''"
    "lower ''macMaxRetry'' \<noteq> lower ''topologyType''" "lower ''macHeaderAdd'' \<noteq> lower ''topologyType''"
    "lower ''NS3_captureFile'' \<noteq> lower ''topologyType''" "lower ''lossModel'' \<noteq> lower ''topologyType''"
    "lower ''delayModel'' \<noteq> lower ''topologyType''" "lower ''PHY'' \<noteq> lower ''topologyType''"
    by code_simp+
  have b: "stoi0 ''0xbabe'' = Some 0xbabe" by (simp add: stoi0_eval)
  have p: "\<not> stricmp_eq [] ''plc''" by (simp add: stricmp_eq_def strcasecmp_eq_def)
  show "cfg_get start_cfg ''topologyType'' = ''randrect''" "cfg_get start_cfg ''txPower'' = []"
  "CFG_INT start_cfg ''macChecksumEnabled'' ''1'' = Ret 1" "CFG_INT start_cfg ''randSeed'' ''0xbabe'' = Ret 0xbabe"
  "CFG_PANID start_cfg = Ret 0xface" "CFG_INT start_cfg ''macMaxRetry'' ''3'' = Ret 3"
  "CFG_INT start_cfg ''macHeaderAdd'' ''1'' = Ret 1" "cfg_get start_cfg ''NS3_captureFile'' = []"
  "cfg_get start_cfg ''lossModel'' = []" "cfg_get start_cfg ''delayModel'' = []" "getIfaceApi start_cfg = IFACE_LRWPAN"
    using l b p by (simp_all add: CFG_PANID_def CFG_INT_def cfg_get_def_val_def getIfaceApi_def start_cfg_get del: lower_simps)
qed

lemma network_started_witness:
  "\<exists>s1 k1. startNetwork demo_world DEFINE_MBUF demo_all (demo_al start_cfg 0 (9, 9, 9)) (demo_at forker_q) = Ret (SUCCESS, s1, k1)
    \<and> al_mob s1 0 = Some (1, 2, 3)"
proof -
  let ?c = start_cfg and ?s = "demo_al start_cfg 0 (9, 9, 9)"
  let ?ctx = "al_ctx ?s\<lparr>c_ns3 := (c_ns3 (al_ctx ?s))\<lparr>n_nodes := 1\<rparr>\<rparr>"
  have ok: "config_ok ?c" "numOfNodes ?c = int 1"
    by (simp_all add: config_ok_def start_cfg_def cfg_set_def)
  note v = start_cfg_values
  note g = same_keyval [OF cleared_same(1) [OF ok(1)]] cfg_get_keyval [OF cleared_same(1) [OF ok(1)]]
  obtain a where a: "allocator_of ?c = Some a" by (simp add: allocator_of_def v)
  obtain x where x: "ifaceInstall (w_build demo_world) (cleared ?c)
      (\<lambda>i. if i < 1 then Some (w_alloc demo_world a i) else al_mob ?s i) ?ctx = Ret (SUCCESS, x)"
    "n_nodes (c_ns3 x) = 1" "\<forall>i < 1. has_lrwpan (c_ns3 x) i"
    by (simp add: ifaceInstall_def iface_setup_def has_entry_def lrwpanSetup_def on_ns3_def setAllNodesParam_def g v Let_def
        set_node_param_def setShortAddress_def demo_net_def upt_rec)
  have "power_of ?c i = Some None" if "i < 1" for i
    using that v(2) by (simp add: power_of_def start_cfg_def cfg_set_def getkv_def set_position_def new_nodeinfo_def kv_find_def)
  moreover have "node_cmds ?c 0 demo_words"
    using demo_node_cmds by (simp add: node_cmds_def start_cfg_def cfg_set_def set_position_def demo_cfg_def)
  then obtain k1 where "start_applications (w_uid demo_world) DEFINE_MBUF (map of_nat [0..<1]) ?c demo_all (demo_at forker_q) = Ret k1"
    using spawnStackline_sends [OF demo_open_at [of forker_q] _ demo_words_valid, of ?c 0 DEFINE_MBUF]
    by (simp add: demo_world_def)
  ultimately show ?thesis
    using network_started [OF ok _ _ v(3,4) a refl x(1,2), of DEFINE_MBUF demo_all "demo_at forker_q" k1] x(3)
    by (auto simp: start_cfg_def cfg_set_def getNodePosition_def set_position_def)
qed

end
