(* ===== verification/Monitor.thy ===== *)
theory Monitor
  imports Airline_Manager
begin

text \<open>
  \<open>utils/monitor.c\<close> and \<open>utils/udp_cmd.c\<close>: a command typed by the user travels as a UDP datagram
  to the monitor thread of the forker, as a message to the airline or to a stackline, and its
  answer all the way back.  What the other processes do while the monitor sleeps is a parameter.
\<close>

section \<open>The monitor thread\<close>

abbreviation monitor_q :: address where "monitor_q \<equiv> (MONITOR, CL_MGR_ID)"

text \<open>The line, the node and the command of a text; \<open>Inl\<close> is the error text.\<close>

definition parse_cmd :: "string \<Rightarrow> string + (cl_line \<times> u16 \<times> string)" where
  "parse_cmd cmd =
     (case (if strncasecmp_pre cmd ''AL:'' then Some AIRLINE
            else if strncasecmp_pre cmd ''SL:'' then Some STACKLINE else None) of
        None \<Rightarrow> Inl ''INVALID_LINE''
      | Some line \<Rightarrow>
          let ptr = drop 3 cmd
          in if ptr \<noteq> [] \<and> isdigit (hd ptr) then
               (case strchr (CHR '':'') ptr of
                  None \<Rightarrow> Inl ''INVALID_CMD''
                | Some c \<Rightarrow> Inr (line, word_of_int (atoi ptr), tl c))
             else Inr (line, CL_MGR_ID, ptr))"

definition cmd_msg :: "u16 \<Rightarrow> string \<Rightarrow> msg_buf" where
  "cmd_msg sid c = (put_str (snprintf_text (MAX_CMD_RSP_SZ + 1) c) (DEFINE_MBUF_SZ MAX_CMD_RSP_SZ))
     \<lparr>src_id := sid, mb_len := of_nat (length c), flags := MBUF_IS_CMD\<rparr>"

text \<open>
  One poll per sleep; \<open>others c\<close> is what happens during sleep \<open>c\<close>.  A reply of 4096 bytes or more
  is copied up to the size of \<open>rsp\<close>, but its terminator is written behind the whole length.
\<close>

fun poll_reply ::
  "(nat \<Rightarrow> kernel \<Rightarrow> kernel) \<Rightarrow> usock \<Rightarrow> char list \<Rightarrow> nat list \<Rightarrow> msg_buf \<Rightarrow> kernel
   \<Rightarrow> ((int \<times> char list) option \<times> kernel) outcome" where
  "poll_reply others u rsp [] m k = Ret (None, k)"
| "poll_reply others u rsp (c # cs) m k =
     bindo (cl_recvfrom_q (MTYPE MONITOR CL_MGR_ID) (Some m)
              (of_nat (sizeof_msg_buf + MAX_CMD_RSP_SZ)) True u (others c k)) (\<lambda>(r, mo, k1).
       case mo of None \<Rightarrow> poll_reply others u rsp cs m k1
       | Some m1 \<Rightarrow>
           let n = unat (mb_len m1)
           in if n > 0 then
                (if n \<ge> length rsp \<or> n > length (buf m1) then Fault Out_Of_Bounds
                 else Ret (Some (int n + 1, take n (buf m1) @ NUL # drop (n + 1) rsp), k1))
              else poll_reply others u rsp cs m1 k1)"

definition put_rsp :: "string \<Rightarrow> char list \<Rightarrow> int \<times> char list" where
  "put_rsp t rsp = (int (length t), store_str rsp (snprintf_text (length rsp) t))"

definition fwd_cmd_on_commline ::
  "u32 \<Rightarrow> (nat \<Rightarrow> kernel \<Rightarrow> kernel) \<Rightarrow> usock \<Rightarrow> string \<Rightarrow> char list \<Rightarrow> kernel
   \<Rightarrow> ((int \<times> char list) \<times> kernel) outcome" where
  "fwd_cmd_on_commline uid others u cmd rsp k = (case parse_cmd cmd of
     Inl e \<Rightarrow> Ret (put_rsp e rsp, k)
   | Inr (line, sid, c) \<Rightarrow>
       let m = cmd_msg sid c; dest = (if line = STACKLINE then sid else CL_MGR_ID)
       in bindo (cl_sendto_q uid (MTYPE line dest) (Some m) (of_nat sizeof_msg_buf + mb_len m) u k) (\<lambda>(r, mo, k1).
          bindo (poll_reply others u rsp [1..<101] (case mo of None \<Rightarrow> m | Some m1 \<Rightarrow> m1) k1) (\<lambda>(a, k2).
            Ret (case a of Some x \<Rightarrow> x | None \<Rightarrow> put_rsp (''NO_RSP_FROM_LINE:'' @ dec_int (line_no line)) rsp, k2))))"

definition END_OF_RSP :: string where "END_OF_RSP = ''END''"

text \<open>One round of the thread: the datagrams sent back for a received one of at most 127 bytes.\<close>

definition monitor_round ::
  "u32 \<Rightarrow> (nat \<Rightarrow> kernel \<Rightarrow> kernel) \<Rightarrow> usock \<Rightarrow> char list \<Rightarrow> char list \<Rightarrow> kernel
   \<Rightarrow> (char list list \<times> char list \<times> kernel) outcome" where
  "monitor_round uid others u d rsp k =
     (if d = [] then Ret ([], rsp, k)
      else bindo (fwd_cmd_on_commline uid others u (cstr (take 127 d)) rsp k) (\<lambda>((n, rsp1), k1).
        let (n, rsp2) = (if n \<le> 0 then put_rsp ''CMD_FAILURE'' rsp1 else (n, rsp1))
        in Ret ([take (nat n) rsp2, END_OF_RSP @ [NUL]], rsp2, k1)))"

section \<open>The client\<close>

text \<open>The text printed for the datagrams received, up to the one that starts with \<open>END\<close>.\<close>

fun client_output :: "char list list \<Rightarrow> string" where
  "client_output [] = []"
| "client_output (d # ds) =
     (if length d \<ge> 3 \<and> strncasecmp_pre (cstr d) END_OF_RSP then [] else cstr d @ client_output ds)"

section \<open>Replies\<close>

text \<open>Sleeps in which nothing arrives.\<close>

lemma poll_reply_idle:
  "\<lbrakk>uopen uid su 4096 rcv k monitor_q; k_queue k (rfd rcv monitor_q) = []; length (buf m) = 4097;
    \<forall>c \<in> set cs. others c k = k\<rbrakk> \<Longrightarrow>
   \<exists>m1. length (buf m1) = 4097 \<and>
     poll_reply others (rcv monitor_q) rsp (cs @ ds) m k = poll_reply others (rcv monitor_q) rsp ds m1 k"
proof (induction cs arbitrary: m)
  case (Cons c cs)
  have "cl_recvfrom_q (MTYPE MONITOR CL_MGR_ID) (Some m) (of_nat (16 + 4096)) True (rcv monitor_q) k
      = Ret (-1, Some (clear_struct m), k)"
    using recv_nothing [OF Cons.prems(1,2), of m] Cons.prems(3) by simp
  then have "poll_reply others (rcv monitor_q) rsp ((c # cs) @ ds) m k
      = poll_reply others (rcv monitor_q) rsp (cs @ ds) (clear_struct m) k"
    using Cons.prems(4) by (simp add: sizeof_msg_buf_def MAX_CMD_RSP_SZ_def)
  with Cons show ?case by simp
qed auto

lemma poll_reply_idle_all:
  assumes "uopen uid su 4096 rcv k monitor_q" "k_queue k (rfd rcv monitor_q) = []" "length (buf m) = 4097"
    "\<forall>c \<in> set cs. others c k = k"
  shows "poll_reply others (rcv monitor_q) rsp cs m k = Ret (None, k)"
  using poll_reply_idle [where cs = cs and others = others and ds = "[]", OF assms] by auto

text \<open>A sleep after which a message is waiting.\<close>

lemma poll_reply_gets:
  assumes "uopen uid su 4096 rcv (others c k) monitor_q"
    and "k_queue (others c k) (rfd rcv monitor_q) = wire monitor_q r # ds"
    and "fits_buf r" "unat (mb_len r) < 4096" "length (buf m) = 4097" "length rsp = 4096"
  shows "poll_reply others (rcv monitor_q) rsp (c # cs) m k =
    (let k1 = (others c k)\<lparr>k_queue := (k_queue (others c k))(rfd rcv monitor_q := ds)\<rparr>; n = unat (mb_len r)
     in if n = 0 then poll_reply others (rcv monitor_q) rsp cs (received monitor_q r m) k1
        else Ret (Some (int n + 1, take n (buf r) @ NUL # drop (n + 1) rsp), k1))"
proof -
  have "cl_recvfrom_q (MTYPE MONITOR CL_MGR_ID) (Some m) (of_nat (16 + 4096)) True (rcv monitor_q) (others c k)
      = Ret (16 + int (unat (mb_len r)), Some (received monitor_q r m),
          (others c k)\<lparr>k_queue := (k_queue (others c k))(rfd rcv monitor_q := ds)\<rparr>)"
    using recv_wire [OF assms(1,2,3) _ , of m True] assms(4,5) by simp
  moreover have "take (unat (mb_len r)) (buf (received monitor_q r m)) = take (unat (mb_len r)) (buf r)"
    using assms(3) by (simp add: received_def fits_buf_def min_def)
  moreover have "unat (mb_len r) \<le> length (buf (received monitor_q r m))"
    using assms(3-5) by simp
  ultimately show ?thesis
    using assms(4,6) by (simp add: sizeof_msg_buf_def MAX_CMD_RSP_SZ_def Let_def)
qed

section \<open>A command and its answer\<close>

lemma uopen_two:
  assumes "uopen uid su cap rcv k a" "uopen uid su' cap' rcv k b" "a \<noteq> b"
  shows "rfd rcv a \<noteq> rfd rcv b"
  using assms by (auto simp: uopen_def usock_name_inject prod_eq_iff)

text \<open>One poll of the airline answers the command in its queue.\<close>

lemma command_answered:
  assumes "uopen uid uf 2048 rcv k airline_q" "uopen uid (rcv airline_q) 4096 rcv k monitor_q"
    and "k_queue k (rfd rcv airline_q) = [wire airline_q m]"
    and "fits_buf m" "mb_len m \<noteq> 0" "unat (mb_len m) \<le> 2048" "flags m = MBUF_IS_CMD"
    and "CFG_STOI (al_cfg s) ''numOfNodes'' = Ret n" "w_uid w = uid"
    and "handle_al_cmd w (received airline_q m DEFINE_MBUF) s = Ret (m1, s1)"
    and "flags m1 = MBUF_IS_CMD" "fits_buf m1" "length (buf m1) = 2049"
  shows "msgReader 2 w (rcv airline_q) s k = Ret (ScheduleCommlineRX s1, k\<lparr>k_queue := (k_queue k)(rfd rcv airline_q := [],
      rfd rcv monitor_q := k_queue k (rfd rcv monitor_q) @ [wire monitor_q m1])\<rparr>)"
proof -
  let ?a = "rfd rcv airline_q" and ?b = "rfd rcv monitor_q" and ?m = "received airline_q m DEFINE_MBUF"
  let ?k1 = "k\<lparr>k_queue := (k_queue k)(?a := [])\<rparr>"
  let ?k2 = "k\<lparr>k_queue := (k_queue k)(?a := [], ?b := k_queue k ?b @ [wire monitor_q m1])\<rparr>"
  have ab: "?a \<noteq> ?b" using uopen_two [OF assms(1,2)] by simp
  have recv: "cl_recvfrom_q (MTYPE AIRLINE CL_MGR_ID) (Some DEFINE_MBUF) (of_nat (16 + 2048)) True (rcv airline_q) k
      = Ret (16 + int (unat (mb_len m)), Some ?m, ?k1)"
    using recv_wire [OF assms(1,3,4,6), of DEFINE_MBUF True] by simp
  have "send_len m1 = mb_len m1 + of_nat sizeof_msg_buf" by (simp add: send_len_def add.commute)
  then have send: "cl_sendto_q uid (MTYPE MONITOR CL_MGR_ID) (Some m1) (mb_len m1 + of_nat sizeof_msg_buf) (rcv airline_q) ?k1
      = Ret (SUCCESS, Some (m1\<lparr>mb_mtype := word_of_int (mt monitor_q)\<rparr>), ?k2)"
    using usend_eq [of uid "rcv airline_q" 4096 rcv ?k1 monitor_q m1] assms(2,12) ab by simp
  have flag: "has_flag MBUF_IS_CMD ?m" "\<not> has_flag MBUF_DO_NOT_RESPOND m1"
    using assms(7,11) by (simp_all add: has_flag_def MBUF_IS_CMD_def MBUF_DO_NOT_RESPOND_def)
  have cb: "msgrecvCallback w (rcv airline_q) ?m s ?k1 = Ret (m1\<lparr>mb_mtype := word_of_int (mt monitor_q)\<rparr>, s1, ?k2)"
    using flag assms(8-10) send by (simp add: msgrecvCallback_def)
  have "cl_recvfrom_q (MTYPE AIRLINE CL_MGR_ID) (Some (m1\<lparr>mb_mtype := word_of_int (mt monitor_q)\<rparr>)) (of_nat (16 + 2048)) True
      (rcv airline_q) ?k2 = Ret (-1, Some (clear_struct (m1\<lparr>mb_mtype := word_of_int (mt monitor_q)\<rparr>)), ?k2)"
    using recv_nothing [of uid uf 2048 rcv ?k2 airline_q "m1\<lparr>mb_mtype := word_of_int (mt monitor_q)\<rparr>"] assms(1,13) ab by simp
  with recv cb assms(5) show ?thesis
    by (simp add: msgReader_def numeral_2_eq_2 sizeof_msg_buf_def COMMLINE_MAX_BUF_def)
qed

lemma node_exec_handled:
  assumes "config_ok (al_cfg s)" "mb_str m = ''cmd_node_exec''" "length (buf m) = 2049"
    and "unat (src_id m) < length (nodeArray (al_cfg s)) \<longrightarrow> length (nodeExec (nodeArray (al_cfg s) ! unat (src_id m))) < 2048"
  shows "\<exists>t. handle_al_cmd w m s = Ret (m\<lparr>mb_len := (if unat (src_id m) < length (nodeArray (al_cfg s)) then of_nat (length t) else 0),
       buf := store_str (take_arg (buf m)) t\<rparr>, s) \<and> length t < 2048 \<and> length (take_arg (buf m)) = 2049 \<and>
     (unat (src_id m) < length (nodeArray (al_cfg s)) \<longrightarrow> t = nodeExec (nodeArray (al_cfg s) ! unat (src_id m)))"
proof -
  let ?c = "al_cfg s" and ?i = "unat (src_id m)"
  have c: "cstr (buf m) = ''cmd_node_exec''" using assms(2) by (simp add: mb_str_def)
  have nul: "NUL \<in> set (buf m)"
  proof (rule ccontr)
    assume "NUL \<notin> set (buf m)"
    then have "buf m = ''cmd_node_exec''" using c by simp
    with assms(3) show False by simp
  qed
  have arg: "take_arg (buf m) = store_str (buf m) []" unfolding take_arg_def c by (simp add: strchr_def)
  have len: "length (take_arg (buf m)) = 2049" using assms(3) unfolding arg by (subst length_store_str) auto
  have match: "cmd_matches ''cmd_node_exec'' m" unfolding cmd_matches_def assms(2) by (simp add: strncasecmp_pre_def)
  have wr: "snprintf_at 0 2048 t (take_arg (buf m)) = Ret (store_str (take_arg (buf m)) t)" if "length t < 2048" for t
    using that len by (intro snprintf_at_start) auto
  show ?thesis
  proof (cases "?i < length (nodeArray ?c)")
    case True
    then have "get_node_info ?c (src_id m) = Some (nodeArray ?c ! ?i)" by (simp add: get_node_info_eq [OF assms(1)])
    with True match nul len wr assms(4) show ?thesis
      by (auto simp: handle_al_cmd_def HANDLE_CMD_def cmd_node_exec_def getNodeConfigVal_def COMMLINE_MAX_BUF_def)
  next
    case False
    let ?t = "''cudnot get nodeinfo id='' @ dec_int (uint (src_id m))"
    have "unat (src_id m) < 10 ^ 5" using unsigned_less [of "src_id m", where ?'a = nat] by simp
    then have "length (dec_int (uint (src_id m))) \<le> 5"
      using length_dec_nat [of "unat (src_id m)" 5] by (simp add: dec_int_def)
    then have "length ?t < 2048" by simp
    moreover have "get_node_info ?c (src_id m) = None" using False by (simp add: get_node_info_eq [OF assms(1)])
    ultimately show ?thesis using False match nul len wr [of ?t]
      by (intro exI [of _ ?t]) (simp add: handle_al_cmd_def HANDLE_CMD_def cmd_node_exec_def getNodeConfigVal_def COMMLINE_MAX_BUF_def)
  qed
qed

text \<open>What the airline does during sleep \<open>j\<close>, every other process being idle.\<close>

definition airline_in_sleep :: "nat \<Rightarrow> world \<Rightarrow> usock \<Rightarrow> airline \<Rightarrow> nat \<Rightarrow> kernel \<Rightarrow> kernel" where
  "airline_in_sleep j w u s c k =
     (if c = j then (case msgReader 2 w u s k of Ret (s1, k1) \<Rightarrow> k1 | _ \<Rightarrow> k) else k)"

lemma cmd_msg_received:
  assumes "length c < 128" "NUL \<notin> set c"
  shows "fits_buf (cmd_msg i c)" "unat (mb_len (cmd_msg i c)) = length c"
    "mb_str (received airline_q (cmd_msg i c) DEFINE_MBUF) = c"
    "length (buf (received airline_q (cmd_msg i c) DEFINE_MBUF)) = 2049"
    "src_id (cmd_msg i c) = i" "flags (cmd_msg i c) = MBUF_IS_CMD"
proof -
  have n: "unat (of_nat (length c) :: u16) = length c" using assms(1) by (simp add: of_nat_len)
  have b: "buf (cmd_msg i c) = store_str (replicate 4097 NUL) c"
    using assms(1) by (simp add: cmd_msg_def put_str_def MAX_CMD_RSP_SZ_def DEFINE_MBUF_SZ_def zero_mbuf_def)
  show "unat (mb_len (cmd_msg i c)) = length c" using n by (simp add: cmd_msg_def)
  show f: "fits_buf (cmd_msg i c)" using assms(1) n b by (simp add: fits_buf_def cmd_msg_def length_store_str)
  have "buf (received airline_q (cmd_msg i c) DEFINE_MBUF) = c @ NUL # drop (length c + 1) (buf DEFINE_MBUF)"
    using n b by (simp add: received_def cmd_msg_def store_str_def)
  then show "mb_str (received airline_q (cmd_msg i c) DEFINE_MBUF) = c"
    "length (buf (received airline_q (cmd_msg i c) DEFINE_MBUF)) = 2049"
    using assms by (simp_all add: mb_str_def)
qed (simp_all add: cmd_msg_def)

lemma parse_cmd_node:
  assumes "n < 65536" "NUL \<notin> set c"
  shows "parse_cmd (''AL:'' @ dec_nat n @ '':'' @ c) = Inr (AIRLINE, of_nat n, c)"
proof -
  obtain d ds where d: "dec_nat n = d # ds" "isdigit d" using dec_nat_hd by blast
  have "CHR '':'' \<notin> set (dec_nat n)" using isdigit_dec_nat [of "CHR '':''" n] by (auto simp: isdigit_def)
  then have "strchr (CHR '':'') (dec_nat n @ '':'' @ c) = Some ('':'' @ c)" by simp
  moreover have "atoi (dec_nat n @ '':'' @ c) = int n" by (rule atoi_dec_nat) (simp add: isdigit_def)
  ultimately show ?thesis
    using d by (simp add: parse_cmd_def strncasecmp_pre_def Let_def)
qed

text \<open>From the result of the polls to the datagrams of a round.\<close>

lemma cstr_datagram: "length d \<le> 127 \<Longrightarrow> NUL \<notin> set d \<Longrightarrow> cstr (take 127 d) = d"
  by simp

lemma round_answered:
  assumes "parse_cmd d = Inr (line, sid, x)" "length d \<le> 127" "NUL \<notin> set d" "d \<noteq> []"
    and "dest = (if line = STACKLINE then sid else CL_MGR_ID)"
    and "cl_sendto_q uid (MTYPE line dest) (Some (cmd_msg sid x)) (of_nat sizeof_msg_buf + mb_len (cmd_msg sid x)) u k
      = Ret (q, Some ms, k1)"
    and "poll_reply others u rsp [1..<101] ms k1 = Ret (Some (int i + 1, take i b @ NUL # drop (i + 1) rsp), k2)"
    and "i \<le> length b"
  shows "monitor_round uid others u d rsp k
    = Ret ([take i b @ [NUL], END_OF_RSP @ [NUL]], take i b @ NUL # drop (i + 1) rsp, k2)"
proof -
  have "fwd_cmd_on_commline uid others u d rsp k = Ret ((int i + 1, take i b @ NUL # drop (i + 1) rsp), k2)"
    unfolding fwd_cmd_on_commline_def assms(1) sum.case prod.case Let_def assms(5) [symmetric] assms(6)
      bindo.simps option.case assms(7) ..
  moreover have "length (take i b) = i" using assms(8) by simp
  moreover have "nat (int l + 1) = l + 1" "\<not> int l + 1 \<le> 0" for l :: nat by simp_all
  ultimately show ?thesis
    using assms(4) unfolding monitor_round_def cstr_datagram [OF assms(2,3)]
    by (simp only: bindo.simps prod.case Let_def if_False) simp
qed

lemma round_unanswered:
  assumes "parse_cmd d = Inr (line, sid, x)" "length d \<le> 127" "NUL \<notin> set d" "d \<noteq> []"
    and "dest = (if line = STACKLINE then sid else CL_MGR_ID)"
    and "cl_sendto_q uid (MTYPE line dest) (Some (cmd_msg sid x)) (of_nat sizeof_msg_buf + mb_len (cmd_msg sid x)) u k
      = Ret (q, Some ms, k1)"
    and "poll_reply others u rsp [1..<101] ms k1 = Ret (None, k2)" "length rsp = 4096"
    and "t = ''NO_RSP_FROM_LINE:'' @ dec_int (line_no line)"
  shows "monitor_round uid others u d rsp k = Ret ([t, END_OF_RSP @ [NUL]], store_str rsp t, k2)"
proof -
  have "fwd_cmd_on_commline uid others u d rsp k = Ret (put_rsp t rsp, k2)"
    unfolding fwd_cmd_on_commline_def assms(1) sum.case prod.case Let_def assms(5) [symmetric] assms(6)
      bindo.simps option.case assms(7,9) ..
  moreover have "length t = 18"
  proof (cases line)
    case STACKLINE
    have "length (dec_int 1) = 1" by code_simp
    with STACKLINE show ?thesis by (simp add: assms(9))
  next
    case AIRLINE
    have "length (dec_int 2) = 1" by code_simp
    with AIRLINE show ?thesis by (simp add: assms(9))
  next
    case FORKER
    have "length (dec_int 3) = 1" by code_simp
    with FORKER show ?thesis by (simp add: assms(9))
  next
    case MONITOR
    have "length (dec_int 4) = 1" by code_simp
    with MONITOR show ?thesis by (simp add: assms(9))
  qed
  moreover then have "put_rsp t rsp = (18, store_str rsp t)" using assms(8) by (simp add: put_rsp_def)
  ultimately show ?thesis
    using assms(4) unfolding monitor_round_def cstr_datagram [OF assms(2,3)] by (simp add: store_str_def)
qed

lemma length_buf_cmd_msg [simp]: "length x < 128 \<Longrightarrow> length (buf (cmd_msg sid x)) = 4097"
  by (simp add: cmd_msg_def put_str_def MAX_CMD_RSP_SZ_def DEFINE_MBUF_SZ_def zero_mbuf_def store_str_def snprintf_text_def)

text \<open>Polls in which the only thing that happens is one answer, in sleep \<open>j\<close>.\<close>

lemma poll_one_answer:
  assumes "uopen uid su 4096 rcv k1 monitor_q" "k_queue k1 (rfd rcv monitor_q) = []"
    and "uopen uid su 4096 rcv k2 monitor_q" "k_queue k2 (rfd rcv monitor_q) = [wire monitor_q r]"
    and "others = (\<lambda>c k. if c = j then f k else k)" "f k1 = k2" "1 \<le> j" "j \<le> 100"
    and "fits_buf r" "unat (mb_len r) < 4096" "length (buf ms) = 4097" "length rsp = 4096"
  shows "poll_reply others (rcv monitor_q) rsp [1..<101] ms k1 =
    (let k3 = k2\<lparr>k_queue := (k_queue k2)(rfd rcv monitor_q := [])\<rparr>; i = unat (mb_len r)
     in Ret (if i = 0 then None else Some (int i + 1, take i (buf r) @ NUL # drop (i + 1) rsp), k3))"
proof -
  let ?b = "rfd rcv monitor_q" and ?n = "unat (mb_len r)"
  let ?k3 = "k2\<lparr>k_queue := (k_queue k2)(?b := [])\<rparr>"
  have cs: "[1..<101] = [1..<j] @ j # [Suc j..<101]"
    using assms(7,8) upt_add_eq_append [of 1 j "101 - j"] upt_conv_Cons [of j 101] by simp
  have idle: "\<forall>c \<in> set [1..<j]. others c k1 = k1" "\<forall>c \<in> set [Suc j..<101]. others c k' = k'" "others j k1 = k2" for k'
    using assms(5,6) by auto
  obtain m1 where m1: "length (buf m1) = 4097"
    "poll_reply others (rcv monitor_q) rsp [1..<101] ms k1 = poll_reply others (rcv monitor_q) rsp (j # [Suc j..<101]) m1 k1"
    using poll_reply_idle [where others = others, OF assms(1,2,11) idle(1), of rsp "j # [Suc j..<101]"] unfolding cs by blast
  have "uopen uid su 4096 rcv ?k3 monitor_q" using assms(3) by simp
  then have "poll_reply others (rcv monitor_q) rsp [Suc j..<101] (received monitor_q r m1) ?k3 = Ret (None, ?k3)" if "?n = 0"
    using idle(2) assms(9) m1(1) that by (intro poll_reply_idle_all [where su = su]) simp_all
  then show ?thesis
    unfolding m1(2) using poll_reply_gets [where others = others and c = j and k = k1 and ds = "[]", unfolded idle(3),
        OF assms(3) assms(4) assms(9,10) m1(1) assms(12)] by (simp add: Let_def)
qed

text \<open>The airline finds the command in its queue and answers it.\<close>

lemma airline_reacts:
  assumes "uopen uid uf 2048 rcv k airline_q" "uopen uid (rcv airline_q) 4096 rcv k monitor_q"
    and "k_queue k (rfd rcv airline_q) = []" "k_queue k (rfd rcv monitor_q) = []"
    and "CFG_STOI (al_cfg s) ''numOfNodes'' = Ret n" "w_uid w = uid"
    and "length x < 128" "NUL \<notin> set x" "x \<noteq> []"
    and "handle_al_cmd w (received airline_q (cmd_msg sid x) DEFINE_MBUF) s = Ret (r, s1)"
    and "flags r = MBUF_IS_CMD" "fits_buf r" "length (buf r) = 2049"
    and "k1 = k\<lparr>k_queue := (k_queue k)(rfd rcv airline_q := [wire airline_q (cmd_msg sid x)])\<rparr>"
  shows "cl_sendto_q uid (MTYPE AIRLINE CL_MGR_ID) (Some (cmd_msg sid x)) (of_nat sizeof_msg_buf + mb_len (cmd_msg sid x)) uf k
      = Ret (SUCCESS, Some ((cmd_msg sid x)\<lparr>mb_mtype := word_of_int (mt airline_q)\<rparr>), k1)"
    and "msgReader 2 w (rcv airline_q) s k1
      = Ret (ScheduleCommlineRX s1, k\<lparr>k_queue := (k_queue k)(rfd rcv monitor_q := [wire monitor_q r])\<rparr>)"
proof -
  let ?a = "rfd rcv airline_q" and ?b = "rfd rcv monitor_q" and ?m = "cmd_msg sid x"
  have ab: "?a \<noteq> ?b" using uopen_two [OF assms(1,2)] by simp
  note cm = cmd_msg_received [OF assms(7,8), of sid]
  have nz: "mb_len ?m \<noteq> 0" using cm(2) assms(9) by (metis length_0_conv unat_0)
  show "cl_sendto_q uid (MTYPE AIRLINE CL_MGR_ID) (Some ?m) (of_nat sizeof_msg_buf + mb_len ?m) uf k
      = Ret (SUCCESS, Some (?m\<lparr>mb_mtype := word_of_int (mt airline_q)\<rparr>), k1)"
    using usend_eq [OF assms(1) cm(1)] assms(3,14) by (simp add: send_len_def)
  have o1: "uopen uid uf 2048 rcv k1 airline_q" "uopen uid (rcv airline_q) 4096 rcv k1 monitor_q"
    using assms(1,2,14) by simp_all
  have "k_queue k1 ?a = [wire airline_q ?m]" "unat (mb_len ?m) \<le> 2048" using cm(2) assms(7,14) by simp_all
  from command_answered [OF o1(1,2) this(1) cm(1) nz this(2) cm(6) assms(5,6,10-13)]
  have "msgReader 2 w (rcv airline_q) s k1 = Ret (ScheduleCommlineRX s1, k1\<lparr>k_queue :=
      (k_queue k1)(?a := [], ?b := k_queue k1 ?b @ [wire monitor_q r])\<rparr>)" .
  moreover have "(k_queue k1)(?a := [], ?b := k_queue k1 ?b @ [wire monitor_q r]) = (k_queue k)(?b := [wire monitor_q r])"
    using ab assms(3,4,14) by (auto simp: fun_eq_iff)
  ultimately show "msgReader 2 w (rcv airline_q) s k1
      = Ret (ScheduleCommlineRX s1, k\<lparr>k_queue := (k_queue k)(?b := [wire monitor_q r])\<rparr>)"
    using assms(14) by simp
qed

text \<open>
  A command to the airline goes round: the answer of its handler is sent to the client, and all
  queues are as they were, whatever of the hundred sleeps the airline answers in.
\<close>

lemma airline_round:
  assumes "uopen uid uf 2048 rcv k airline_q" "uopen uid (rcv airline_q) 4096 rcv k monitor_q" "uf = rcv monitor_q"
    and "k_queue k (rfd rcv airline_q) = []" "k_queue k (rfd rcv monitor_q) = []"
    and "CFG_STOI (al_cfg s) ''numOfNodes'' = Ret n" "w_uid w = uid" "1 \<le> j" "j \<le> 100" "length rsp = 4096"
    and "parse_cmd d = Inr (AIRLINE, sid, x)" "length d \<le> 127" "NUL \<notin> set d" "d \<noteq> []"
    and "length x < 128" "NUL \<notin> set x" "x \<noteq> []"
    and "handle_al_cmd w (received airline_q (cmd_msg sid x) DEFINE_MBUF) s = Ret (r, s1)"
    and "flags r = MBUF_IS_CMD" "fits_buf r" "length (buf r) = 2049"
  shows "monitor_round uid (airline_in_sleep j w (rcv airline_q) s) uf d rsp k =
    (let i = unat (mb_len r)
     in if i = 0 then Ret ([''NO_RSP_FROM_LINE:2'', END_OF_RSP @ [NUL]], store_str rsp ''NO_RSP_FROM_LINE:2'', k)
        else Ret ([take i (buf r) @ [NUL], END_OF_RSP @ [NUL]], take i (buf r) @ NUL # drop (i + 1) rsp, k))"
proof -
  let ?b = "rfd rcv monitor_q" and ?n = "unat (mb_len r)" and ?m = "cmd_msg sid x"
  let ?k1 = "k\<lparr>k_queue := (k_queue k)(rfd rcv airline_q := [wire airline_q ?m])\<rparr>"
  let ?k2 = "k\<lparr>k_queue := (k_queue k)(?b := [wire monitor_q r])\<rparr>" and ?ms = "?m\<lparr>mb_mtype := word_of_int (mt airline_q)\<rparr>"
  let ?f = "\<lambda>k. case msgReader 2 w (rcv airline_q) s k of Ret (s1, k1) \<Rightarrow> k1 | _ \<Rightarrow> k"
  note re = airline_reacts [OF assms(1,2,4,5,6,7,15-21) refl]
  have o: "airline_in_sleep j w (rcv airline_q) s = (\<lambda>c k. if c = j then ?f k else k)"
    by (simp add: airline_in_sleep_def fun_eq_iff)
  have k3: "?k2\<lparr>k_queue := (k_queue ?k2)(?b := [])\<rparr> = k" using assms(5) by (simp add: fun_upd_idem)
  have "rfd rcv airline_q \<noteq> ?b" using uopen_two [OF assms(1,2)] by simp
  then have e: "k_queue ?k1 ?b = []" "k_queue ?k2 ?b = [wire monitor_q r]" "?f ?k1 = ?k2"
    using assms(5) re(2) by simp_all
  have lens: "?n < 4096" "?n \<le> length (buf r)" "length (buf ?ms) = 4097"
    using assms(15,20,21) by (simp_all add: fits_buf_def)
  have poll: "poll_reply (airline_in_sleep j w (rcv airline_q) s) uf rsp [1..<101] ?ms ?k1
      = Ret (if ?n = 0 then None else Some (int ?n + 1, take ?n (buf r) @ NUL # drop (?n + 1) rsp), k)"
    unfolding assms(3) using poll_one_answer [OF _ e(1) _ e(2) o e(3) assms(8,9,20) lens(1,3) assms(10)] assms(2)
    unfolding k3 Let_def by simp
  show ?thesis
  proof (cases "?n = 0")
    case True
    have "''NO_RSP_FROM_LINE:2'' = ''NO_RSP_FROM_LINE:'' @ dec_int (line_no AIRLINE)" by code_simp
    from round_unanswered [OF assms(11-14) _ re(1) _ assms(10) this] poll True show ?thesis by simp
  next
    case False
    with round_answered [OF assms(11-14) _ re(1) _ lens(2)] poll show ?thesis by (simp add: Let_def)
  qed
qed

text \<open>
  C8: A query goes round: asking the airline for the executable of a node prints exactly the
  configured path, whatever of the hundred sleeps the airline answers in, and leaves all queues
  as they were; but for an id that is not a node the error text the airline writes is lost, because
  its length is returned as 0, and the user is told that the line does not respond.
\<close>

theorem node_exec_query:
  assumes "uopen uid uf 2048 rcv k airline_q" "uopen uid (rcv airline_q) 4096 rcv k monitor_q" "uf = rcv monitor_q"
    and "k_queue k (rfd rcv airline_q) = []" "k_queue k (rfd rcv monitor_q) = []"
    and "config_ok (al_cfg s)" "CFG_STOI (al_cfg s) ''numOfNodes'' = Ret n" "w_uid w = uid"
    and "i < 65536" "1 \<le> j" "j \<le> 100" "length rsp = 4096"
    and "i < length (nodeArray (al_cfg s)) \<longrightarrow> (let e = nodeExec (nodeArray (al_cfg s) ! i)
        in e \<noteq> [] \<and> length e < 2048 \<and> NUL \<notin> set e \<and> \<not> strncasecmp_pre e END_OF_RSP)"
  shows "\<exists>ds rsp1. monitor_round uid (airline_in_sleep j w (rcv airline_q) s) uf (''AL:'' @ dec_nat i @ '':cmd_node_exec'') rsp k
      = Ret (ds, rsp1, k) \<and>
    client_output ds = (if i < length (nodeArray (al_cfg s)) then nodeExec (nodeArray (al_cfg s) ! i) else ''NO_RSP_FROM_LINE:2'')"
proof -
  let ?x = "''cmd_node_exec''" and ?N = "length (nodeArray (al_cfg s))"
  let ?mr = "received airline_q (cmd_msg (of_nat i) ?x) DEFINE_MBUF" and ?d = "''AL:'' @ dec_nat i @ '':cmd_node_exec''"
  have x: "length ?x < 128" "NUL \<notin> set ?x" "?x \<noteq> []" by simp_all
  note cm = cmd_msg_received [OF x(1,2), of "of_nat i"]
  have src: "unat (src_id ?mr) = i" using assms(9) cm(5) by (simp add: unat_of_nat)
  obtain t where t: "handle_al_cmd w ?mr s = Ret (?mr\<lparr>mb_len := (if i < ?N then of_nat (length t) else 0),
       buf := store_str (take_arg (buf ?mr)) t\<rparr>, s)" "length t < 2048" "length (take_arg (buf ?mr)) = 2049"
     "i < ?N \<longrightarrow> t = nodeExec (nodeArray (al_cfg s) ! i)"
    using node_exec_handled [OF assms(6) cm(3,4), of w] assms(13) unfolding src Let_def by blast
  define r where "r = ?mr\<lparr>mb_len := (if i < ?N then of_nat (length t) else 0), buf := store_str (take_arg (buf ?mr)) t\<rparr>"
  have lt: "unat (of_nat (length t) :: u16) = length t" using t(2) by (simp add: of_nat_len)
  have r: "flags r = MBUF_IS_CMD" "fits_buf r" "length (buf r) = 2049" "unat (mb_len r) = (if i < ?N then length t else 0)"
    "take (length t) (buf r) = t"
    using t(2,3) cm(6) lt by (simp_all add: r_def fits_buf_def length_store_str store_str_def)
  have parse: "parse_cmd ?d = Inr (AIRLINE, of_nat i, ?x)" using parse_cmd_node [OF assms(9) x(2)] by simp
  have "length (dec_nat i) \<le> 5" using assms(9) by (intro length_dec_nat) simp_all
  moreover have "NUL \<notin> set (dec_nat i)" using isdigit_dec_nat [of NUL i] by (auto simp: isdigit_def)
  ultimately have d: "length ?d \<le> 127" "NUL \<notin> set ?d" "?d \<noteq> []" by simp_all
  note round = airline_round [OF assms(1-5,7,8,10-12) parse d x t(1) [folded r_def] r(1-3)]
  show ?thesis
  proof (cases "i < ?N")
    case True
    have "t \<noteq> []" "NUL \<notin> set t" "\<not> strncasecmp_pre t END_OF_RSP"
      using True t(4) assms(13) by (auto simp: Let_def)
    moreover have "client_output [END_OF_RSP @ [NUL]] = []" by code_simp
    ultimately have "client_output [t @ [NUL], END_OF_RSP @ [NUL]] = t" by simp
    with True round r(4,5) t(4) \<open>t \<noteq> []\<close> show ?thesis by (auto simp: Let_def)
  next
    case False
    have "client_output [''NO_RSP_FROM_LINE:2'', END_OF_RSP @ [NUL]] = ''NO_RSP_FROM_LINE:2''" by code_simp
    with False round r(4) show ?thesis by (auto simp: Let_def)
  qed
qed

definition demo_both :: kernel where
  "demo_both = (kernel_start 100)\<lparr>k_open := [3, 4, 0, 1, 2], k_next := 5,
     k_name := (\<lambda>_. None)(3 := Some (usock_setabsaddr 0 (mt airline_q)), 4 := Some (usock_setabsaddr 0 (mt monitor_q)))\<rparr>"

definition demo_rcv :: "address \<Rightarrow> usock" where
  "demo_rcv a = (if a = airline_q then \<lparr>g_usock_fd = [-1, 0, 3, 0, 0], g_def_line = 2\<rparr>
     else \<lparr>g_usock_fd = [-1, 0, 0, 0, 4], g_def_line = 4\<rparr>)"

lemma demo_both_open:
  "uopen 0 (demo_rcv monitor_q) 2048 demo_rcv demo_both airline_q"
  "uopen 0 (demo_rcv airline_q) 4096 demo_rcv demo_both monitor_q"
  "k_queue demo_both fd = []"
  by (auto simp: uopen_def demo_both_def demo_rcv_def kernel_ok_def rfd_def usock_fd_def kernel_start_def usock_name_inject)

lemma node_exec_query_witness:
  "\<exists>ds rsp1. monitor_round 0 (airline_in_sleep 7 demo_world (demo_rcv airline_q) (demo_al (sized_config 2 new_config) 2 (0, 0, 0)))
      (demo_rcv monitor_q) (''AL:'' @ dec_nat 9 @ '':cmd_node_exec'') (replicate 4096 NUL) demo_both = Ret (ds, rsp1, demo_both) \<and>
    client_output ds = ''NO_RSP_FROM_LINE:2''"
proof -
  let ?s = "demo_al (sized_config 2 new_config) 2 (0, 0, 0)"
  have "config_ok (al_cfg ?s)" by (simp add: config_ok_def sized_config_def)
  moreover have "CFG_STOI (al_cfg ?s) ''numOfNodes'' = Ret 2" using sized_numOfNodes [of 2] by simp
  moreover have "length (nodeArray (al_cfg ?s)) = 2" by (simp add: sized_config_def)
  ultimately show ?thesis
    using node_exec_query [OF demo_both_open(1,2) refl demo_both_open(3,3), of ?s 2 demo_world 9 7 "replicate 4096 NUL"]
    by (simp add: demo_world_def)
qed

section \<open>A late answer\<close>

text \<open>
  C36: A late answer goes to the wrong command: when an answer is still in the queue of the monitor
  (because the airline needed longer than the hundred sleeps), every later command that is sent
  gets that answer at its first poll, whatever was asked, and its own answer stays in the queue
  for the command after it.
\<close>

theorem late_reply_answers_next:
  assumes "parse_cmd cmd = Inr (line, sid, c)" "length c < 128" "NUL \<notin> set c"
    and "dest = (if line = STACKLINE then sid else CL_MGR_ID)" "(line, dest) \<noteq> monitor_q"
    and "uopen uid (rcv monitor_q) cap rcv k (line, dest)" "uopen uid su 4096 rcv k monitor_q"
    and "k_queue k (rfd rcv monitor_q) = wire monitor_q r # ds" "fits_buf r" "mb_len r \<noteq> 0" "unat (mb_len r) < 4096"
    and "\<forall>k'. others 1 k' = k'\<lparr>k_queue := (k_queue k')(rfd rcv monitor_q := k_queue k' (rfd rcv monitor_q) @ new)\<rparr>"
    and "length rsp = 4096"
  shows "\<exists>k1. fwd_cmd_on_commline uid others (rcv monitor_q) cmd rsp k
      = Ret ((int (unat (mb_len r)) + 1, take (unat (mb_len r)) (buf r) @ NUL # drop (unat (mb_len r) + 1) rsp), k1) \<and>
    k_queue k1 (rfd rcv monitor_q) = ds @ new"
proof -
  let ?m = "cmd_msg sid c" and ?b = "rfd rcv monitor_q"
  note cm = cmd_msg_received [OF assms(2,3), of sid]
  let ?k1 = "k\<lparr>k_queue := (k_queue k)(rfd rcv (line, dest) := k_queue k (rfd rcv (line, dest)) @ [wire (line, dest) ?m])\<rparr>"
  let ?ms = "?m\<lparr>mb_mtype := word_of_int (mt (line, dest))\<rparr>"
  have ab: "rfd rcv (line, dest) \<noteq> ?b" using uopen_two [OF assms(6,7)] assms(5) by simp
  have send: "cl_sendto_q uid (MTYPE line dest) (Some ?m) (of_nat sizeof_msg_buf + mb_len ?m) (rcv monitor_q) k
      = Ret (SUCCESS, Some ?ms, ?k1)"
    using usend_eq [OF assms(6) cm(1)] by (simp add: send_len_def)
  have q: "k_queue (others 1 ?k1) ?b = wire monitor_q r # (ds @ new)" "uopen uid su 4096 rcv (others 1 ?k1) monitor_q"
    using assms(7,8,12) ab by simp_all
  have lm: "length (buf ?ms) = 4097"
    by (simp add: cmd_msg_def put_str_def MAX_CMD_RSP_SZ_def DEFINE_MBUF_SZ_def zero_mbuf_def store_str_def snprintf_text_def)
  have "unat (mb_len r) \<noteq> 0" using assms(10) by (simp add: unat_eq_0)
  moreover have cs: "[1..<101] = (1::nat) # [Suc 1..<101]" by (rule upt_conv_Cons) simp
  ultimately have poll: "poll_reply others (rcv monitor_q) rsp [1..<101] ?ms ?k1
      = Ret (Some (int (unat (mb_len r)) + 1, take (unat (mb_len r)) (buf r) @ NUL # drop (unat (mb_len r) + 1) rsp),
          (others 1 ?k1)\<lparr>k_queue := (k_queue (others 1 ?k1))(?b := ds @ new)\<rparr>)"
    unfolding cs
    using poll_reply_gets [where others = others and c = 1 and k = ?k1 and cs = "[Suc 1..<101]", OF q(2,1) assms(9,11) lm assms(13)]
    by (simp add: Let_def del: poll_reply.simps)
  have "fwd_cmd_on_commline uid others (rcv monitor_q) cmd rsp k
      = Ret ((int (unat (mb_len r)) + 1, take (unat (mb_len r)) (buf r) @ NUL # drop (unat (mb_len r) + 1) rsp),
          (others 1 ?k1)\<lparr>k_queue := (k_queue (others 1 ?k1))(?b := ds @ new)\<rparr>)"
    unfolding fwd_cmd_on_commline_def assms(1) sum.case prod.case Let_def assms(4) [symmetric] send bindo.simps option.case poll ..
  then show ?thesis by simp
qed

lemma late_reply_answers_next_witness:
  "\<exists>k1. fwd_cmd_on_commline 0 (\<lambda>_ k. k) (demo_rcv monitor_q) ''AL:cmd_mac_stats'' (replicate 4096 NUL)
      (demo_both\<lparr>k_queue := (\<lambda>_. [])(4 := [wire monitor_q (air_msg 0 0 0 ''old'')])\<rparr>)
    = Ret ((4, ''old'' @ NUL # replicate 4092 NUL), k1) \<and> k_queue k1 4 = []"
proof -
  let ?r = "air_msg 0 0 0 ''old''" and ?k = "demo_both\<lparr>k_queue := (\<lambda>_. [])(4 := [wire monitor_q (air_msg 0 0 0 ''old'')])\<rparr>"
  have p: "parse_cmd ''AL:cmd_mac_stats'' = Inr (AIRLINE, CL_MGR_ID, ''cmd_mac_stats'')" by code_simp
  have f: "rfd demo_rcv monitor_q = 4" by (simp add: rfd_def usock_fd_def demo_rcv_def)
  have b: "take 3 (buf ?r) = ''old''" using air_msg_buf(2) [of "''old''" 0 0 0] by (simp add: eval_nat_numeral)
  have l: "unat (mb_len ?r) = 3" by simp
  from late_reply_answers_next [OF p _ _ _ _ _ _ _ air_msg_buf(1), of CL_MGR_ID 0 demo_rcv 2048 ?k "demo_rcv airline_q" 0 0 0 "''old''" "[]" "\<lambda>_ k. k" "[]" "replicate 4096 NUL"]
  show ?thesis using demo_both_open b l by (simp add: f)
qed

end
