(* ===== verification/Stackline_Cmds.thy ===== *)
theory Stackline_Cmds
  imports Commline_API
begin

text \<open>
  \<open>sl_handle_cmd\<close> of \<open>commline/cl_stackline_helpers.c\<close>: how a stackline process answers a command.
  The handlers are functions of the stackline the process is linked with, so they are a parameter:
  from the node id, the bytes of the buffer and its size to the length and the bytes of the reply.
\<close>

section \<open>Handling a command\<close>

type_synonym sl_handlers = "string \<Rightarrow> u16 \<Rightarrow> char list \<Rightarrow> int \<Rightarrow> int \<times> char list"

definition sl_names :: "string list" where
  "sl_names = [''cmd_rpl_stats'', ''cmd_def_route'', ''cmd_route_table'', ''cmd_rtsize'', ''cmd_node_osname'',
     ''cmd_ipv6_stats'', ''cmd_nd6_stats'', ''cmd_icmp_stats'', ''cmd_udp_stats'', ''cmd_tcp_stats'',
     ''cmd_config_info'', ''cmd_start_udp'', ''cmd_get_udpapp_stat'']"

text \<open>The copy of the message the command works on: only the bytes and the length are copied.\<close>

definition cbuf_of :: "msg_buf \<Rightarrow> msg_buf" where
  "cbuf_of m = (put_buf (take (unat (mb_len m)) (buf m)) (DEFINE_MBUF_SZ MAX_CMD_RSP_SZ))\<lparr>mb_len := mb_len m\<rparr>"

definition cmd_name :: "char list \<Rightarrow> string" where
  \<comment> \<open>\<open>strncpy(cmd, buf, sizeof(cmd) - 1)\<close> after the colon became a terminator\<close>
  "cmd_name b = take 255 (takeWhile (\<lambda>c. c \<noteq> CHR '':'') (cstr b))"

definition PLAY_CMD :: "sl_handlers \<Rightarrow> string \<Rightarrow> msg_buf \<Rightarrow> msg_buf" where
  "PLAY_CMD h cmd m = (let (n, b) = h cmd (src_id m) (buf m) (uint (max_len m)) in m\<lparr>mb_len := word_of_int n, buf := b\<rparr>)"

definition sl_invalid :: "msg_buf \<Rightarrow> msg_buf" where
  "sl_invalid m =
     (let t = ''SL_INVALID_CMD('' @ snprintf_text 256 (mb_str m) @ '')''
      in m\<lparr>mb_len := of_nat (length t), buf := store_str (buf m) t\<rparr>)"

definition sl_handle_cmd :: "u32 \<Rightarrow> sl_handlers \<Rightarrow> usock \<Rightarrow> msg_buf \<Rightarrow> kernel \<Rightarrow> kernel outcome" where
  "sl_handle_cmd uid h u m k =
     (if unat (mb_len m) > length (buf m) \<or> unat (mb_len m) > MAX_CMD_RSP_SZ + 1 then Fault Out_Of_Bounds
      else
        let c = cbuf_of m
        in if NUL \<notin> set (buf c) then Fault Out_Of_Bounds
           else
             let cmd = cmd_name (buf c); c1 = c\<lparr>buf := take_arg (buf c)\<rparr>;
                 c2 = (if cmd \<in> set sl_names then PLAY_CMD h cmd c1 else sl_invalid c1)
             in bindo (cl_sendto_q uid (MTYPE MONITOR CL_MGR_ID) (Some c2) (mb_len c2 + of_nat sizeof_msg_buf) u k)
                  (\<lambda>(r, mo, k1). Ret k1))"

section \<open>What a handler sees\<close>

lemma cbuf_of_text:
  assumes "take (unat (mb_len m)) (buf m) = t" "unat (mb_len m) = length t" "length t < 4096"
  shows "buf (cbuf_of m) = store_str (replicate 4097 NUL) t" "src_id (cbuf_of m) = 0" "max_len (cbuf_of m) = 4096"
    "flags (cbuf_of m) = 0"
proof -
  have "drop (length t) (replicate 4097 NUL) = NUL # drop (Suc (length t)) (replicate 4097 NUL)"
    using assms(3) by (subst Cons_nth_drop_Suc [symmetric]) auto
  then show "buf (cbuf_of m) = store_str (replicate 4097 NUL) t"
    using assms by (simp add: cbuf_of_def put_buf_def DEFINE_MBUF_SZ_def zero_mbuf_def MAX_CMD_RSP_SZ_def store_str_def)
qed (simp_all add: cbuf_of_def DEFINE_MBUF_SZ_def zero_mbuf_def MAX_CMD_RSP_SZ_def)

lemma of_nat_len4: "n < 4096 \<Longrightarrow> unat (of_nat n :: u16) = n"
  by (simp add: unat_of_nat)

text \<open>The command and the argument of a text, as a handler gets them.\<close>

lemma sl_answers:
  assumes "uopen uid u 4096 rcv k (MONITOR, CL_MGR_ID)" "unat (mb_len m) = length txt"
    and "take (unat (mb_len m)) (buf m) = txt" "unat (mb_len m) \<le> length (buf m)" "length txt < 4096"
    and "b = store_str (replicate 4097 NUL) txt" "cmd_name b = name" "cstr (take_arg b) = a" "length (take_arg b) = 4097"
    and "h name 0 (take_arg b) 4096 = (int (length t), store_str (take_arg b) t)" "length t < 4096" "NUL \<notin> set t"
  shows "\<exists>r. sl_handle_cmd uid h u m k = Ret (usend uid u (MONITOR, CL_MGR_ID) r k) \<and> unat (mb_len r) = length (mb_str r) \<and>
    fits_buf r \<and> length (buf r) = 4097 \<and> take (unat (mb_len r)) (buf r) = mb_str r \<and>
    mb_str r = (if name \<in> set sl_names then t else ''SL_INVALID_CMD('' @ snprintf_text 256 a @ '')'')"
proof -
  note c = cbuf_of_text [OF assms(3,2,5)]
  note arg = assms(8,9) [unfolded assms(6), folded c(1)]
  have cmd: "cmd_name (buf (cbuf_of m)) = name" using assms(7) by (simp add: c(1) assms(6))
  have nul: "NUL \<in> set (buf (cbuf_of m))" unfolding c(1) by (rule NUL_in_store_str)
  let ?c1 = "(cbuf_of m)\<lparr>buf := take_arg (buf (cbuf_of m))\<rparr>"
  let ?s = "if name \<in> set sl_names then t else ''SL_INVALID_CMD('' @ snprintf_text 256 a @ '')''"
  define r where "r = ?c1\<lparr>mb_len := of_nat (length ?s), buf := store_str (take_arg (buf (cbuf_of m))) ?s\<rparr>"
  have "NUL \<notin> set a" unfolding assms(8) [symmetric] by simp
  then have sn: "length ?s < 4096" "NUL \<notin> set ?s"
    using assms(11,12) set_snprintf_text [of 256 a] by (auto simp: snprintf_text_def)
  have step: "(if name \<in> set sl_names then PLAY_CMD h name ?c1 else sl_invalid ?c1) = r"
    using assms(6,10) arg(1) c by (simp add: PLAY_CMD_def sl_invalid_def mb_str_def r_def)
  have fit: "fits_buf r" "unat (mb_len r) = length ?s" "mb_str r = ?s" "length (buf r) = 4097" "take (length ?s) (buf r) = ?s"
    using sn arg(2) of_nat_len4 [of "length ?s"] unfolding r_def
    by (simp_all add: fits_buf_def mb_str_def length_store_str) (simp_all add: store_str_def)
  have "mb_len r + of_nat sizeof_msg_buf = send_len r" by (simp add: send_len_def add.commute)
  then have "cl_sendto_q uid (MTYPE MONITOR CL_MGR_ID) (Some r) (mb_len r + of_nat sizeof_msg_buf) u k
      = Ret (SUCCESS, Some (r\<lparr>mb_mtype := word_of_int (mt (MONITOR, CL_MGR_ID))\<rparr>), usend uid u (MONITOR, CL_MGR_ID) r k)"
    using usend_eq [OF assms(1) fit(1)] by (simp add: usend_def)
  then have "sl_handle_cmd uid h u m k = Ret (usend uid u (MONITOR, CL_MGR_ID) r k)"
    using assms(2,4,5) nul cmd step by (simp add: sl_handle_cmd_def MAX_CMD_RSP_SZ_def Let_def)
  with fit show ?thesis by (intro exI [of _ r]) simp
qed

text \<open>
  C40: A stackline command loses its node: whatever node the monitor addressed, the handler of the
  stackline is called with node id 0, with the argument of the command and a buffer of 4096 bytes,
  and the text it writes is what the monitor gets; the reply to an unknown command names the
  argument of the command instead of the command.
\<close>

theorem stackline_handlers_get_id_0:
  assumes "uopen uid u 4096 rcv k (MONITOR, CL_MGR_ID)" "unat (mb_len m) = length (name @ '':'' @ a)"
    and "take (unat (mb_len m)) (buf m) = name @ '':'' @ a" "unat (mb_len m) \<le> length (buf m)"
    and "length name < 255" "length a < 3000" "NUL \<notin> set name" "CHR '':'' \<notin> set name" "NUL \<notin> set a"
    and "\<forall>b. cstr b = a \<and> length b = 4097 \<longrightarrow> h name 0 b 4096 = (int (length t), store_str b t)" "length t < 4096" "NUL \<notin> set t"
  shows "\<exists>r. sl_handle_cmd uid h u m k = Ret (usend uid u (MONITOR, CL_MGR_ID) r k) \<and> unat (mb_len r) = length (mb_str r) \<and>
    mb_str r = (if name \<in> set sl_names then t else ''SL_INVALID_CMD('' @ snprintf_text 256 a @ '')'')"
proof -
  define b where "b = store_str (replicate 4097 NUL) (name @ '':'' @ a)"
  have lt: "length (name @ '':'' @ a) < 4096" using assms(5,6) by simp
  have arg: "cstr (take_arg b) = a" "length (take_arg b) = 4097"
    using take_arg_colon [OF b_def assms(8,7,9)] assms(5,6) by simp_all
  have cs: "cstr b = name @ '':'' @ a" unfolding b_def using assms(7,9) by simp
  have cmd: "cmd_name b = name" unfolding cmd_name_def cs using assms(5,8) by simp
  have "h name 0 (take_arg b) 4096 = (int (length t), store_str (take_arg b) t)" using assms(10) arg by simp
  from sl_answers [where h = h, OF assms(1-4) lt b_def cmd arg this assms(11,12)] show ?thesis by blast
qed

text \<open>A command without an argument.\<close>

lemma plain_command:
  assumes "b = store_str (replicate 4097 NUL) name" "NUL \<notin> set name" "CHR '':'' \<notin> set name" "length name < 255"
  shows "cmd_name b = name" "cstr (take_arg b) = []" "length (take_arg b) = 4097"
proof -
  have c: "cstr b = name" using assms(1,2) by simp
  show "cmd_name b = name" using assms(3,4) by (simp add: cmd_name_def c)
  have "take_arg b = store_str b []" using assms(3) by (simp add: take_arg_def c)
  moreover have "length b = 4097" using assms(1,4) by (simp add: length_store_str)
  ultimately show "cstr (take_arg b) = []" "length (take_arg b) = 4097" by (simp_all add: length_store_str)
qed

lemma uopen_cap: "uopen uid su cap rcv k a \<Longrightarrow> 16 + cap' < 2 ^ 16 \<Longrightarrow> uopen uid su cap' rcv k a"
  by (simp add: uopen_def)

definition id_handler :: sl_handlers where
  \<comment> \<open>a handler that answers with the node id it is given\<close>
  "id_handler cmd i b n = (int (length (dec_nat (unat i))), store_str b (dec_nat (unat i)))"

lemma stackline_handlers_get_id_0_witness:
  "\<exists>r. sl_handle_cmd 0 id_handler demo_all
      ((put_buf ''cmd_rtsize:x'' DEFINE_MBUF)\<lparr>mb_len := 12, src_id := 5, flags := MBUF_IS_CMD\<rparr>) (demo_at (MONITOR, CL_MGR_ID))
    = Ret (usend 0 demo_all (MONITOR, CL_MGR_ID) r (demo_at (MONITOR, CL_MGR_ID))) \<and> mb_str r = ''0''"
proof -
  let ?m = "(put_buf ''cmd_rtsize:x'' DEFINE_MBUF)\<lparr>mb_len := 12, src_id := 5, flags := MBUF_IS_CMD\<rparr>"
  have o: "uopen 0 demo_all 4096 (\<lambda>_. demo_all) (demo_at (MONITOR, CL_MGR_ID)) (MONITOR, CL_MGR_ID)"
    by (rule uopen_cap [OF demo_open_at]) simp
  have z: "dec_nat 0 = ''0''" by code_simp
  have m: "unat (mb_len ?m) = length (''cmd_rtsize'' @ '':'' @ ''x'')" "take (unat (mb_len ?m)) (buf ?m) = ''cmd_rtsize'' @ '':'' @ ''x''"
    "unat (mb_len ?m) \<le> length (buf ?m)"
    by (simp_all add: put_buf_def)
  have h: "\<forall>b. cstr b = ''x'' \<and> length b = 4097 \<longrightarrow> id_handler ''cmd_rtsize'' 0 b 4096 = (int (length ''0''), store_str b ''0'')"
    by (simp add: id_handler_def z)
  show ?thesis
    using stackline_handlers_get_id_0 [where name = "''cmd_rtsize''" and a = "''x''" and t = "''0''" and h = id_handler, OF o m _ _ _ _ _ h]
    by (auto simp: sl_names_def)
qed

end
