(* ===== verification/Py_Text.thy ===== *)
theory Py_Text
  imports Double_Text
begin

text \<open>
  The part of Python's library the canvas server uses on text: \<open>strip\<close>, \<open>split\<close>, \<open>partition\<close>,
  iteration over lines, \<open>int\<close> and \<open>float\<close>.  Reading back with \<open>float\<close> what a C++ stream wrote
  gives the number rounded to six digits.
\<close>

section \<open>Python text\<close>

definition py_space :: "char \<Rightarrow> bool" where
  "py_space c \<longleftrightarrow> isspace c \<or> (28 \<le> (of_char c :: nat) \<and> (of_char c :: nat) \<le> 31)"

definition py_strip :: "(char \<Rightarrow> bool) \<Rightarrow> string \<Rightarrow> string" where
  "py_strip P s = rev (dropWhile P (rev (dropWhile P s)))"

text \<open>\<open>s.split()\<close>: the words between white space.\<close>

fun py_words :: "string \<Rightarrow> string \<Rightarrow> string list" where
  "py_words w [] = (if w = [] then [] else [w])"
| "py_words w (c # cs) =
     (if py_space c then (if w = [] then [] else [w]) @ py_words [] cs else py_words (w @ [c]) cs)"

definition py_split :: "string \<Rightarrow> string list" where
  "py_split s = py_words [] s"

text \<open>The lines of a text file, without their ends.\<close>

definition py_lines :: "string \<Rightarrow> string list" where
  "py_lines s = (let ls = splits (CHR 0x0A) s in if last ls = [] then butlast ls else ls)"

text \<open>\<open>s.partition("=")[::2]\<close>\<close>

definition py_partition :: "char \<Rightarrow> string \<Rightarrow> string \<times> string" where
  "py_partition c s = (takeWhile (\<lambda>x. x \<noteq> c) s, drop 1 (dropWhile (\<lambda>x. x \<noteq> c) s))"

text \<open>Digits with single underscores between them; \<open>None\<close> is a \<open>ValueError\<close>.\<close>

fun underscored :: "(char \<Rightarrow> bool) \<Rightarrow> bool \<Rightarrow> string \<Rightarrow> bool" where
  "underscored P prev [] = prev"
| "underscored P prev (c # cs) =
     (if c = CHR ''_'' then prev \<and> underscored P False cs else P c \<and> underscored P True cs)"

definition py_digits :: "(char \<Rightarrow> bool) \<Rightarrow> nat \<Rightarrow> string \<Rightarrow> int option" where
  "py_digits P b s = (if underscored P False s
     then Some (int (of_base b (lower (filter (\<lambda>c. c \<noteq> CHR ''_'') s)))) else None)"

definition py_int16 :: "string \<Rightarrow> int option" where
  \<comment> \<open>\<open>int(s, 16)\<close>, with an optional prefix \<open>0x\<close>\<close>
  "py_int16 s = (case sign_split (py_strip py_space s) of
     (sg, r) \<Rightarrow>
       map_option (\<lambda>v. sg * v)
         (if lower (take 2 r) = ''0x''
          then py_digits isxdigit 16 (if take 1 (drop 2 r) = ''_'' then drop 3 r else drop 2 r)
          else py_digits isxdigit 16 r))"

definition py_int :: "string \<Rightarrow> int option" where
  "py_int s = (case sign_split (py_strip py_space s) of
     (sg, r) \<Rightarrow> map_option (\<lambda>v. sg * v) (py_digits isdigit 10 r))"

text \<open>\<open>float(s)\<close> on decimal numbers; \<open>inf\<close>, \<open>nan\<close> and underscores are not values of the model.\<close>

definition py_exponent :: "string \<Rightarrow> int option" where
  "py_exponent r =
     (if r = [] then Some 0
      else if tolower (hd r) \<noteq> CHR ''e'' then None
      else case sign_split (tl r) of
        (sg, k) \<Rightarrow> if k \<noteq> [] \<and> list_all isdigit k then Some (sg * int (of_base 10 k)) else None)"

definition py_float :: "string \<Rightarrow> rat option" where
  "py_float s = (case sign_split (py_strip py_space s) of
     (sg, r) \<Rightarrow>
       let a = takeWhile isdigit r; r1 = dropWhile isdigit r;
           dot = (take 1 r1 = ''.'');
           b = (if dot then takeWhile isdigit (tl r1) else []);
           r2 = (if dot then dropWhile isdigit (tl r1) else r1)
       in if a @ b = [] then None
          else map_option (\<lambda>k. of_int sg * of_nat (of_base 10 (a @ b)) * scale10 (k - int (length b)))
                 (py_exponent r2))"

section \<open>Reading back a number\<close>

lemma of_base_append: "of_base b (s @ u) = of_base b s * b ^ length u + of_base b u"
proof (induction u rule: rev_induct)
  case (snoc c u)
  then show ?case unfolding append_assoc [symmetric] of_base_snoc by (simp add: algebra_simps)
qed (simp add: of_base_def)

lemma of_base_zeros_right: "of_base b (s @ replicate z (CHR ''0'')) = of_base b s * b ^ z"
  using of_base_zeros [of b z "[]"] by (simp add: of_base_append) (simp add: of_base_def)

lemma of_base_pad0: "of_base 10 (pad0 w (dec_nat n)) = n"
  by (simp add: pad0_def of_base_zeros dec_nat_def of_base_to_base)

lemma digits_pad0: "c \<in> set (pad0 w (dec_nat n)) \<Longrightarrow> isdigit c"
  using isdigit_dec_nat by (auto simp: pad0_def isdigit_def)

lemma rstrip0_split: "\<exists>z. s = rstrip0 s @ replicate z (CHR ''0'')"
proof -
  have "s = rev (dropWhile (\<lambda>c. c = CHR ''0'') (rev s)) @ rev (takeWhile (\<lambda>c. c = CHR ''0'') (rev s))"
    by (metis rev_append rev_rev_ident takeWhile_dropWhile_id)
  moreover have "takeWhile (\<lambda>c. c = x) u = replicate (length (takeWhile (\<lambda>c. c = x) u)) x" for x u
    by (induction u) auto
  ultimately show ?thesis unfolding rstrip0_def by (metis rev_replicate)
qed

lemma rstrip0_value:
  obtains z where "length s = length (rstrip0 s) + z" "of_base b (u @ s) = of_base b (u @ rstrip0 s) * b ^ z"
proof -
  obtain z where z: "s = rstrip0 s @ replicate z (CHR ''0'')" using rstrip0_split by blast
  then have "length s = length (rstrip0 s) + z" by (metis length_append length_replicate)
  moreover have "of_base b (u @ s) = of_base b (u @ rstrip0 s) * b ^ z"
    by (subst z) (simp only: append_assoc [symmetric] of_base_zeros_right)
  ultimately show thesis by (rule that)
qed

lemma set_rstrip0: "set (rstrip0 s) \<subseteq> set s"
  unfolding rstrip0_def using set_dropWhileD by fastforce

lemma digit_facts:
  "isdigit c \<Longrightarrow> c \<noteq> CHR ''-'' \<and> c \<noteq> CHR ''+'' \<and> c \<noteq> CHR ''.'' \<and> c \<noteq> CHR ''e'' \<and> \<not> py_space c"
  by (auto simp: isdigit_def py_space_def isspace_def)

lemma py_strip_id: "s = [] \<or> \<not> P (hd s) \<and> \<not> P (last s) \<Longrightarrow> py_strip P s = s"
proof (elim disjE)
  assume s: "\<not> P (hd s) \<and> \<not> P (last s)"
  then have "dropWhile P s = s" by (cases s) simp_all
  moreover have "dropWhile P (rev s) = rev s" using s by (cases s rule: rev_cases) simp_all
  ultimately show ?thesis by (simp add: py_strip_def)
qed (simp add: py_strip_def)

lemma takeWhile_digits:
  "\<forall>c \<in> set a. isdigit c \<Longrightarrow> r = [] \<or> \<not> isdigit (hd r) \<Longrightarrow>
   takeWhile isdigit (a @ r) = a \<and> dropWhile isdigit (a @ r) = r"
  by (cases r) (auto simp: takeWhile_append dropWhile_append)

text \<open>A sign, digits, an optional fraction and an optional exponent.\<close>

lemma py_float_parts:
  assumes "a \<noteq> []" "\<forall>c \<in> set a. isdigit c" "\<forall>c \<in> set b. isdigit c"
    and "r = [] \<and> k = 0 \<or> (hd r = CHR ''e'' \<and> r \<noteq> [] \<and> py_exponent r = Some k)"
    and "\<not> py_space (last (a @ point b @ r))"
  shows "py_float ((if neg then ''-'' else []) @ a @ point b @ r)
    = Some ((if neg then -1 else 1) * of_nat (of_base 10 (a @ b)) * scale10 (k - int (length b)))"
proof -
  let ?s = "(if neg then ''-'' else []) @ a @ point b @ r"
  obtain c a' where a: "a = c # a'" "isdigit c" using assms(1,2) by (cases a) auto
  have "\<not> py_space (hd ?s)" using digit_facts [OF a(2)] by (simp add: a py_space_def isspace_def)
  then have "py_strip py_space ?s = ?s"
    using assms(5) a by (intro py_strip_id) auto
  moreover have "sign_split ?s = (if neg then -1 else 1, a @ point b @ r)"
    using digit_facts [OF a(2)] by (simp add: sign_split_def a)
  moreover have nd: "r = [] \<or> \<not> isdigit (hd r)" using assms(4) by (auto simp: isdigit_def)
  then have "takeWhile isdigit (a @ point b @ r) = a" "dropWhile isdigit (a @ point b @ r) = point b @ r"
    using takeWhile_digits [OF assms(2), of "point b @ r"] by (auto simp: point_def isdigit_def)
  moreover have "(take 1 (point b @ r) = ''.'') = (b \<noteq> [])"
    using assms(4) by (cases r) (auto simp: point_def)
  moreover have "takeWhile isdigit (b @ r) = b" "dropWhile isdigit (b @ r) = r"
    using takeWhile_digits [OF assms(3) nd] by simp_all
  moreover have "py_exponent r = Some k" using assms(4) by (auto simp: py_exponent_def)
  ultimately show ?thesis
    using a by (simp add: py_float_def Let_def point_def split del: if_split cong: if_cong) (simp add: point_def split: if_splits)
qed

lemma exp_text_read: "py_exponent (exp_text e) = Some e"
proof -
  define d where "d = pad0 2 (dec_nat (nat \<bar>e\<bar>))"
  have "d \<noteq> []" "list_all isdigit d" using digits_pad0 by (auto simp: list_all_iff d_def) (simp add: pad0_def)
  moreover have "tolower (CHR ''e'') = CHR ''e''" by code_simp
  moreover have "of_base 10 d = nat \<bar>e\<bar>" by (simp add: d_def of_base_pad0)
  ultimately show ?thesis
    unfolding exp_text_def d_def [symmetric] by (cases "e < 0") (simp_all add: py_exponent_def sign_split_def)
qed

text \<open>Six digits, cut in front of the point.\<close>

lemma cut_value:
  assumes "d < 10 ^ 6" "ds = pad0 6 (dec_nat d)" "j \<le> 6" "b = rstrip0 (drop j ds)" "a = take j ds"
  shows "(of_nat (of_base 10 (a @ b)) :: rat) * scale10 (k - int (length b)) = of_nat d * scale10 (k + int j - 6)"
proof -
  have "length (dec_nat d) \<le> 6" using assms(1) length_to_base [of 10 d 6] by (simp add: dec_nat_def)
  then have len: "length ds = 6" by (simp add: assms(2) pad0_def)
  obtain z where z: "length (drop j ds) = length b + z" "of_base 10 (a @ drop j ds) = of_base 10 (a @ b) * 10 ^ z"
    unfolding assms(4) by (rule rstrip0_value)
  have "of_base 10 (a @ drop j ds) = d" by (simp add: assms(2,5) of_base_pad0)
  then have d: "(of_nat d :: rat) = of_nat (of_base 10 (a @ b)) * 10 ^ z"
    using z(2) by (metis of_nat_mult of_nat_numeral of_nat_power)
  have "k - int (length b) = (k + int j - 6) + int z" using z(1) len assms(3) by simp
  then have "scale10 (k - int (length b)) = scale10 (k + int j - 6) * 10 ^ z"
    by (simp only: scale10_add_nat)
  with d show ?thesis by simp
qed

lemma last_point: "a \<noteq> [] \<Longrightarrow> \<forall>c \<in> set (a @ b). isdigit c \<Longrightarrow> \<not> py_space (last (a @ point b))"
  using digit_facts by (auto simp: point_def last_append)

lemma last_exp: "\<not> py_space (last (u @ exp_text e))"
proof -
  let ?d = "pad0 2 (dec_nat (nat \<bar>e\<bar>))"
  have "?d \<noteq> []" by (simp add: pad0_def)
  then have "last (u @ exp_text e) \<in> set ?d" by (simp add: exp_text_def last_append)
  then show ?thesis using digits_pad0 digit_facts by blast
qed

theorem float_reads_stream: "py_float (ostream_double x) = Some (g6 x)"
proof (cases "x = 0")
  case True
  have "py_float ''0'' = Some 0" by code_simp
  with True show ?thesis by (simp add: ostream_double_def g6_def)
next
  case False
  obtain d e where de: "sig6 \<bar>x\<bar> = (d, e)" by fastforce
  define ds where "ds = pad0 6 (dec_nat d)"
  have d: "d < 10 ^ 6" using sig6_lt [OF _ de] False by simp
  have dig: "\<forall>c \<in> set ds. isdigit c" using digits_pad0 by (auto simp: ds_def)
  have len: "length ds = 6"
    using d length_to_base [of 10 d 6] by (simp add: ds_def pad0_def dec_nat_def)
  have parts: "\<forall>c \<in> set (take j ds @ rstrip0 (drop j ds)). isdigit c" for j
    using dig set_rstrip0 [of "drop j ds"] by (auto dest: in_set_takeD in_set_dropD)
  have sg: "(if x < 0 then -1 else 1) = sgn x" using False by (simp add: sgn_if)
  have val: "g6 x = (if x < 0 then -1 else 1) * (of_nat d * scale10 (e - 5))"
    unfolding sg using False by (simp add: g6_def de mult.assoc)
  have out: "ostream_double x = (if x < 0 then ''-'' else []) @
      (if e < -4 \<or> 6 \<le> e then take 1 ds @ point (rstrip0 (drop 1 ds)) @ exp_text e
       else if 0 \<le> e then take (nat e + 1) ds @ point (rstrip0 (drop (nat e + 1) ds))
       else ''0'' @ point (replicate (nat (- e) - 1) (CHR ''0'') @ rstrip0 ds))"
    using False by (simp add: ostream_double_def de ds_def Let_def)
  consider "e < -4 \<or> 6 \<le> e" | "0 \<le> e" "e < 6" | "-4 \<le> e" "e < 0" by linarith
  then show ?thesis
  proof cases
    case 1
    let ?a = "take 1 ds" and ?b = "rstrip0 (drop 1 ds)"
    have "?a \<noteq> []" using len by auto
    moreover have "hd (exp_text e) = CHR ''e''" "exp_text e \<noteq> []" by (simp_all add: exp_text_def)
    ultimately have "py_float ((if x < 0 then ''-'' else []) @ ?a @ point ?b @ exp_text e)
        = Some ((if x < 0 then -1 else 1) * of_nat (of_base 10 (?a @ ?b)) * scale10 (e - int (length ?b)))"
      using parts [of 1] exp_text_read last_exp [of "[]" e] by (intro py_float_parts) auto
    then show ?thesis
      using 1 cut_value [OF d ds_def _ refl refl, of 1 e] by (simp add: out val mult.assoc)
  next
    case 2
    let ?j = "nat e + 1"
    let ?a = "take ?j ds" and ?b = "rstrip0 (drop ?j ds)"
    have "?a \<noteq> []" using len by auto
    then have "py_float ((if x < 0 then ''-'' else []) @ ?a @ point ?b @ [])
        = Some ((if x < 0 then -1 else 1) * of_nat (of_base 10 (?a @ ?b)) * scale10 (0 - int (length ?b)))"
      using parts [of ?j] last_point [of ?a ?b] by (intro py_float_parts) auto
    moreover have "of_nat (of_base 10 (?a @ ?b)) * scale10 (0 - int (length ?b)) = (of_nat d :: rat) * scale10 (e - 5)"
      using 2 cut_value [OF d ds_def _ refl refl, of ?j 0] by simp
    ultimately show ?thesis using 2 by (simp add: out val mult.assoc)
  next
    case 3
    let ?z = "replicate (nat (- e) - 1) (CHR ''0'')"
    let ?b = "?z @ rstrip0 ds"
    have dz: "\<forall>c \<in> set ?b. isdigit c" using parts [of 0] by (auto simp: isdigit_def)
    have "py_float ((if x < 0 then ''-'' else []) @ ''0'' @ point ?b @ [])
        = Some ((if x < 0 then -1 else 1) * of_nat (of_base 10 (''0'' @ ?b)) * scale10 (0 - int (length ?b)))"
      using dz last_point [of "''0''" ?b] by (intro py_float_parts) (auto simp: isdigit_def)
    moreover have "of_base 10 (''0'' @ ?b) = of_base 10 (take 0 ds @ rstrip0 (drop 0 ds))"
      using of_base_zeros [of 10 "Suc (nat (- e) - 1)" "rstrip0 ds"] by simp
    moreover have "0 - int (length ?b) = (e + 1) - int (length (rstrip0 (drop 0 ds)))" using 3 by simp
    ultimately show ?thesis
      using 3 cut_value [OF d ds_def _ refl refl, of 0 "e + 1"] by (simp add: out val algebra_simps)
  qed
qed

end
