(* ===== verification/Canvas_Server.thy ===== *)
theory Canvas_Server
  imports Airline_Cmds Py_Text "HOL-Library.Sublist"
begin

text \<open>
  \<open>canvas/canvas.py\<close>: the web server the page polls.  It asks the monitor for the positions of the
  nodes, which the airline writes to a temporary file, and for the default route of every node,
  and answers with the elements of a graph.  The web framework is a third party: what a route
  returns or raises is the value of the model.  The UDP service is a parameter with the laws of
  the locale \<open>monitor_service\<close>; \<open>Canvas_System\<close> interprets it on the running system.
\<close>

section \<open>State and exceptions\<close>

datatype py_exc = Timeout | ValueError | TypeError | KeyError | Non_Ascii

text \<open>
  Sending a command to the monitor's port changes the system and brings datagrams back, here the
  ones that arrive before the time-out.  \<open>Non_Ascii\<close> stands for a reply with bytes beyond 127,
  whose decoding is not modelled.
\<close>

type_synonym 's service = "string \<Rightarrow> 's \<Rightarrow> char list list \<times> 's"

record 's web =
  w_sys :: 's
  tmp_files :: "string list"
  open_fds :: nat

datatype element =
    Node string rat rat          \<comment> \<open>\<open>{'data': {'id'}, 'position': {'x', 'y'}}\<close>\<close>
  | Edge string string string    \<comment> \<open>\<open>{'data': {'id', 'source', 'target'}}\<close>\<close>

datatype http = Elements "element list" | Status500

definition decode :: "char list \<Rightarrow> string option" where
  "decode d = (if list_all (\<lambda>c. (of_char c :: nat) < 128) d then Some d else None)"

section \<open>Configuration\<close>

fun config_inc :: "string list \<Rightarrow> (string \<times> string) list \<Rightarrow> (string \<times> string) list" where
  "config_inc [] c = c"
| "config_inc (l # ls) c =
     (let (name, var) = py_partition (CHR ''='') l
      in config_inc ls (if take 1 name = ''#'' then c
                        else (py_strip py_space name, py_strip py_space var) # c))"

text \<open>
  The port, or \<open>None\<close> when the server exits because it is not positive.  The program calls it once,
  with an empty \<open>CFGINC\<close>; the text is that of \<open>config.inc\<close>.
\<close>

definition get_config :: "string \<Rightarrow> py_exc + int option" where
  "get_config file = (case map_of (config_inc (py_lines file) []) ''MONITOR_PORT'' of
     None \<Rightarrow> Inl KeyError
   | Some v \<Rightarrow> (case py_int v of
         None \<Rightarrow> Inl ValueError
       | Some p \<Rightarrow> Inr (if p \<le> 0 then None else Some p)))"

section \<open>The nodes\<close>

type_synonym node = "string \<times> rat \<times> rat"

definition parse_node :: "string \<Rightarrow> py_exc + node" where
  "parse_node line = (case py_split line of
     [a, node_id, b, x, y, z] \<Rightarrow>
       (case (py_float x, py_float y) of
          (Some px, Some py) \<Rightarrow> Inr (node_id, px, py) | _ \<Rightarrow> Inl ValueError)
   | _ \<Rightarrow> Inl ValueError)"

fun parse_nodes :: "string list \<Rightarrow> py_exc + node list" where
  "parse_nodes [] = Inr []"
| "parse_nodes (l # ls) = (case parse_node l of
     Inl e \<Rightarrow> Inl e
   | Inr n \<Rightarrow> (case parse_nodes ls of Inl e \<Rightarrow> Inl e | Inr ns \<Rightarrow> Inr (n # ns)))"

text \<open>
  \<open>path\<close> is the name \<open>mkstemp\<close> makes, \<open>read_file\<close> what the file system then holds.  The descriptor
  is closed by the \<open>with\<close> block only, the file removed on two of the four ways out.
\<close>

definition query_nodes ::
  "'s service \<Rightarrow> ('s \<Rightarrow> string \<Rightarrow> string) \<Rightarrow> string \<Rightarrow> 's web \<Rightarrow> (py_exc + node list option) \<times> 's web" where
  "query_nodes ask read_file path w =
     (let (ds, s1) = ask (''AL:cmd_node_position:'' @ path) (w_sys w);
          w1 = \<lparr>w_sys = s1, tmp_files = path # tmp_files w, open_fds = open_fds w + 1\<rparr>
      in case ds of
           [] \<Rightarrow> (Inl Timeout, w1)
         | d # _ \<Rightarrow> (case decode (take 32 d) of
             None \<Rightarrow> (Inl Non_Ascii, w1)
           | Some t \<Rightarrow>
               if py_strip (\<lambda>c. c = NUL) t \<noteq> ''SUCCESS''
               then (Inr None, w1\<lparr>tmp_files := remove1 path (tmp_files w1)\<rparr>)
               else
                 let w2 = w1\<lparr>open_fds := open_fds w1 - 1\<rparr>
                 in case parse_nodes (py_lines (read_file s1 path)) of
                      Inl e \<Rightarrow> (Inl e, w2)
                    | Inr ns \<Rightarrow> (Inr (Some ns), w2\<lparr>tmp_files := remove1 path (tmp_files w2)\<rparr>)))"

section \<open>The edges\<close>

definition route_target :: "string \<Rightarrow> int option" where
  "route_target rsp = py_int16 (last (splits (CHR '':'') rsp))"

text \<open>\<open>pend\<close>: the datagrams waiting in the socket, which all requests share.\<close>

fun query_edges ::
  "'s service \<Rightarrow> node list \<Rightarrow> char list list \<Rightarrow> 's \<Rightarrow> (py_exc + element list) \<times> 's" where
  "query_edges ask [] pend s = (Inr [], s)"
| "query_edges ask (n # ns) pend s =
     (let (ds, s1) = ask (''SL:'' @ fst n @ '':cmd_def_route'') s
      in case pend @ ds of
           [] \<Rightarrow> (Inl Timeout, s1)
         | d # p1 \<Rightarrow> (case decode (take 64 d) of
             None \<Rightarrow> (Inl Non_Ascii, s1)
           | Some t \<Rightarrow> (case p1 of
               [] \<Rightarrow> (Inl Timeout, s1)
             | _ # p2 \<Rightarrow>
                 let rsp = py_strip (\<lambda>c. c = NUL) t
                 in if rsp = ''[NONE]'' then query_edges ask ns p2 s1
                    else case route_target rsp of
                      None \<Rightarrow> (Inl ValueError, s1)
                    | Some v \<Rightarrow>
                        let pid = dec_int v; (r, s2) = query_edges ask ns p2 s1
                        in (case r of Inl e \<Rightarrow> Inl e
                            | Inr es \<Rightarrow> Inr (Edge (fst n @ ''-'' @ pid) (fst n) pid # es), s2))))"

section \<open>The route and the program\<close>

definition node_element :: "node \<Rightarrow> element" where
  "node_element n = Node (fst n) (fst (snd n)) (snd (snd n))"

definition graph ::
  "'s service \<Rightarrow> ('s \<Rightarrow> string \<Rightarrow> string) \<Rightarrow> string \<Rightarrow> 's web \<Rightarrow> (py_exc + http) \<times> 's web" where
  "graph ask read_file path w = (case query_nodes ask read_file path w of
     (Inl e, w1) \<Rightarrow> (Inl e, w1)
   | (Inr None, w1) \<Rightarrow> (Inr Status500, w1)
   | (Inr (Some ns), w1) \<Rightarrow>
       if ns = [] then (Inr Status500, w1)
       else let (r, s) = query_edges ask ns [] (w_sys w1); w2 = w1\<lparr>w_sys := s\<rparr>
            in case r of Inl e \<Rightarrow> (Inl e, w2)
               | Inr es \<Rightarrow> (Inr (Elements (List.map node_element ns @ es)), w2))"

text \<open>How the program starts: it listens, exits with a status, or ends with an uncaught exception.\<close>

datatype canvas_start = Listening | Exits int | Uncaught py_exc

definition canvas_main ::
  "'s service \<Rightarrow> ('s \<Rightarrow> string \<Rightarrow> string) \<Rightarrow> string \<Rightarrow> string \<Rightarrow> 's web \<Rightarrow> canvas_start \<times> 's web" where
  "canvas_main ask read_file inc path w =
     (let stop = (\<lambda>e. if e = Timeout then Exits (-1) else Uncaught e)
      in case get_config inc of
           Inl e \<Rightarrow> (stop e, w)
         | Inr None \<Rightarrow> (Exits 0, w)
         | Inr (Some port) \<Rightarrow> (case query_nodes ask read_file path w of
             (Inl e, w1) \<Rightarrow> (stop e, w1)
           | (Inr None, w1) \<Rightarrow> (Uncaught TypeError, w1)
           | (Inr (Some ns), w1) \<Rightarrow>
               let (r, s) = query_edges ask ns [] (w_sys w1); w2 = w1\<lparr>w_sys := s\<rparr>
               in (case r of Inl e \<Rightarrow> stop e | Inr es \<Rightarrow> Listening, w2)))"

section \<open>The file of positions\<close>

lemma py_words_word:
  "\<forall>c \<in> set a. \<not> py_space c \<Longrightarrow> w @ a \<noteq> [] \<Longrightarrow> py_words w (a @ CHR '' '' # r) = (w @ a) # py_words [] r"
  by (induction a arbitrary: w) (auto simp: py_space_def isspace_def)

lemma py_words_last: "\<forall>c \<in> set a. \<not> py_space c \<Longrightarrow> w @ a \<noteq> [] \<Longrightarrow> py_words w a = [w @ a]"
  by (induction a arbitrary: w) auto

lemma splits_lines: "\<forall>l \<in> set ls. c \<notin> set l \<Longrightarrow> splits c (concat (map (\<lambda>l. l @ [c]) ls)) = ls @ [[]]"
  by (induction ls) (simp_all add: splits_delim)

lemma py_lines_lines: "\<forall>l \<in> set ls. CHR 0x0A \<notin> set l \<Longrightarrow> py_lines (concat (map (\<lambda>l. l @ [CHR 0x0A]) ls)) = ls"
  by (simp add: py_lines_def splits_lines)

lemma no_space_number:
  "\<forall>c \<in> set (ostream_double x). \<not> py_space c" "\<forall>c \<in> set (dec_nat i). \<not> py_space c"
  using set_ostream_double [of x] digit_facts isdigit_dec_nat
  by (auto simp: py_space_def isspace_def dest!: subsetD)

definition bare_line :: "nat \<times> pos3 \<Rightarrow> string" where
  "bare_line v = (case v of (i, x, y, z) \<Rightarrow>
     ''Node'' @ '' '' @ dec_nat i @ '' '' @ ''Location='' @ '' '' @ ostream_double x @ '' '' @ ostream_double y @ '' '' @
     ostream_double z)"

definition shown :: "nat \<times> pos3 \<Rightarrow> node" where
  "shown v = (case v of (i, x, y, z) \<Rightarrow> (dec_nat i, g6 x, g6 y))"

lemma parse_bare_line: "parse_node (bare_line v) = Inr (shown v)"
proof -
  obtain i x y z where v: "v = (i, x, y, z)" by (cases v)
  have c: "\<forall>c \<in> set ''Node''. \<not> py_space c" "\<forall>c \<in> set ''Location=''. \<not> py_space c"
    by (simp_all add: py_space_def isspace_def)
  have "py_split (bare_line v)
      = [''Node'', dec_nat i, ''Location='', ostream_double x, ostream_double y, ostream_double z]"
    using py_words_word [OF c(1), of "[]"] py_words_word [OF c(2), of "[]"]
      py_words_word [OF no_space_number(1), of "[]"] py_words_word [OF no_space_number(2), of "[]"]
      py_words_last [OF no_space_number(1), of "[]"]
    by (simp add: bare_line_def v py_split_def ostream_double_nonempty)
  then show ?thesis by (simp add: parse_node_def float_reads_stream shown_def v)
qed

lemma parse_nodes_map: "parse_nodes (map bare_line vs) = Inr (map shown vs)"
  by (induction vs) (simp_all add: parse_bare_line)

lemma file_lines: "py_lines (file_text vs) = map bare_line vs"
proof -
  have sp: "py_space (CHR 0x0A)" by (simp add: py_space_def isspace_def)
  have "CHR 0x0A \<notin> set (bare_line v)" for v
    using no_space_number sp by (auto simp: bare_line_def split: prod.splits)
  moreover have "file_text vs = concat (map (\<lambda>l. l @ [CHR 0x0A]) (map bare_line vs))"
    by (induction vs) (auto simp: file_text_def file_line_def bare_line_def)
  ultimately show ?thesis using py_lines_lines [of "map bare_line vs"] by simp
qed

section \<open>What the server relies on\<close>

text \<open>The text a datagram is for the edges, and the edge it makes.\<close>

definition reply_text :: "char list \<Rightarrow> string option" where
  "reply_text d = map_option (py_strip (\<lambda>c. c = NUL)) (decode (take 64 d))"

definition edge_of :: "(nat \<Rightarrow> string) \<Rightarrow> nat \<Rightarrow> element list" where
  "edge_of route i =
     (if route i = ''[NONE]'' then []
      else case route_target (route i) of None \<Rightarrow> []
        | Some v \<Rightarrow> [Edge (dec_nat i @ ''-'' @ dec_int v) (dec_nat i) (dec_int v)])"

text \<open>A text the code turns into an edge or skips; any other one ends the request.\<close>

definition readable :: "string \<Rightarrow> bool" where
  "readable r \<longleftrightarrow> r = ''[NONE]'' \<or> route_target r \<noteq> None"

locale monitor_service =
  fixes ask :: "string \<Rightarrow> 's \<Rightarrow> char list list \<times> 's"
    and read_file :: "'s \<Rightarrow> string \<Rightarrow> string"
    and ok :: "'s \<Rightarrow> bool"
    and good_path :: "string \<Rightarrow> bool"
    and positions :: "'s \<Rightarrow> (nat \<times> pos3) list"
    and route :: "nat \<Rightarrow> string"
  assumes positions_asked: "ok s \<Longrightarrow> good_path p \<Longrightarrow>
      \<exists>e s'. ask (''AL:cmd_node_position:'' @ p) s = ([''SUCCESS'' @ [NUL], e], s') \<and> ok s' \<and>
        positions s' = positions s \<and> read_file s' p = file_text (positions s)"
    and route_asked: "ok s \<Longrightarrow> (i, q) \<in> set (positions s) \<Longrightarrow>
      \<exists>d e s'. ask (''SL:'' @ dec_nat i @ '':cmd_def_route'') s = ([d, e], s') \<and>
        reply_text d = Some (route i) \<and> ok s' \<and> positions s' = positions s"
begin

lemma nodes_queried:
  assumes "ok (w_sys w)" "good_path p"
  shows "\<exists>s'. query_nodes ask read_file p w = (Inr (Some (map shown (positions (w_sys w)))), w\<lparr>w_sys := s'\<rparr>)
    \<and> ok s' \<and> positions s' = positions (w_sys w)"
proof -
  obtain e s' where s: "ask (''AL:cmd_node_position:'' @ p) (w_sys w) = ([''SUCCESS'' @ [NUL], e], s')" "ok s'"
    "positions s' = positions (w_sys w)" "read_file s' p = file_text (positions (w_sys w))"
    using positions_asked [OF assms] by blast
  have "decode (take 32 (''SUCCESS'' @ [NUL])) = Some (''SUCCESS'' @ [NUL])"
    "py_strip (\<lambda>c. c = NUL) (''SUCCESS'' @ [NUL]) = ''SUCCESS''" by code_simp+
  with s show ?thesis
    by (intro exI [of _ s']) (simp add: query_nodes_def file_lines parse_nodes_map Let_def)
qed

lemma edges_queried:
  "\<lbrakk>ok s; set vs \<subseteq> set (positions s)\<rbrakk> \<Longrightarrow>
   \<exists>s'. query_edges ask (map shown vs) [] s
      = (if list_all (\<lambda>(i, q). readable (route i)) vs
         then Inr (concat (map (\<lambda>(i, q). edge_of route i) vs)) else Inl ValueError, s')
     \<and> ok s' \<and> positions s' = positions s"
proof (induction vs arbitrary: s)
  case (Cons v vs)
  obtain i x y z where v: "v = (i, x, y, z)" by (cases v)
  have "(i, x, y, z) \<in> set (positions s)" using Cons.prems(2) v by simp
  from route_asked [OF Cons.prems(1) this] obtain d e s1 where
    s1: "ask (''SL:'' @ dec_nat i @ '':cmd_def_route'') s = ([d, e], s1)" "reply_text d = Some (route i)" "ok s1"
      "positions s1 = positions s" by blast
  from s1(2) obtain u where u: "decode (take 64 d) = Some u" "py_strip (\<lambda>c. c = NUL) u = route i"
    by (auto simp: reply_text_def)
  have vs: "set vs \<subseteq> set (positions s1)" using Cons.prems(2) s1(4) by simp
  have sv: "shown v = (dec_nat i, g6 x, g6 y)" by (simp add: shown_def v)
  show ?case
  proof (cases "readable (route i)")
    case True
    from Cons.IH [OF s1(3) vs] s1(4) obtain s2 where
      "query_edges ask (map shown vs) [] s1
        = (if list_all (\<lambda>(i, q). readable (route i)) vs
           then Inr (concat (map (\<lambda>(i, q). edge_of route i) vs)) else Inl ValueError, s2)" "ok s2"
      "positions s2 = positions s" by auto
    with True show ?thesis
      using s1(1) u v sv by (cases "route i = ''[NONE]''") (auto simp: edge_of_def readable_def Let_def)
  next
    case False
    with s1 u v sv show ?thesis by (intro exI [of _ s1]) (auto simp: readable_def Let_def)
  qed
qed simp

lemma graph_answers:
  assumes "ok (w_sys w)" "good_path p"
  shows "\<exists>s'. graph ask read_file p w =
      (if positions (w_sys w) = [] then Inr Status500
       else if list_all (\<lambda>(i, q). readable (route i)) (positions (w_sys w))
       then Inr (Elements (map (node_element \<circ> shown) (positions (w_sys w)) @
              concat (map (\<lambda>(i, q). edge_of route i) (positions (w_sys w)))))
       else Inl ValueError, w\<lparr>w_sys := s'\<rparr>) \<and> ok s' \<and> positions s' = positions (w_sys w)"
proof -
  obtain s1 where s1: "query_nodes ask read_file p w = (Inr (Some (map shown (positions (w_sys w)))), w\<lparr>w_sys := s1\<rparr>)"
    "ok s1" "positions s1 = positions (w_sys w)" using nodes_queried [OF assms] by blast
  show ?thesis
  proof (cases "positions (w_sys w) = []")
    case True
    with s1 show ?thesis by (intro exI [of _ s1]) (simp add: graph_def)
  next
    case False
    from edges_queried [OF s1(2), of "positions (w_sys w)"] s1(3) obtain s2 where
      "query_edges ask (map shown (positions (w_sys w))) [] s1
        = (if list_all (\<lambda>(i, q). readable (route i)) (positions (w_sys w))
           then Inr (concat (map (\<lambda>(i, q). edge_of route i) (positions (w_sys w)))) else Inl ValueError, s2)"
      "ok s2" "positions s2 = positions (w_sys w)"
      by auto
    with s1(1) False show ?thesis by (intro exI [of _ s2]) (simp add: graph_def)
  qed
qed

end

text \<open>
  C25: The positions survive the file: reading the text the airline writes gives every node in order
  with its id and its first two coordinates, each within 5 millionths of the airline's value.
\<close>

theorem positions_survive_file:
  "parse_nodes (py_lines (file_text vs)) = Inr (List.map (\<lambda>(i, x, y, z). (dec_nat i, g6 x, g6 y)) vs) \<and>
   list_all (\<lambda>(i, x, y, z). 200000 * \<bar>g6 x - x\<bar> \<le> \<bar>x\<bar> \<and> 200000 * \<bar>g6 y - y\<bar> \<le> \<bar>y\<bar>) vs"
proof -
  have "shown = (\<lambda>(i, x, y, z). (dec_nat i, g6 x, g6 y))" by (simp add: shown_def fun_eq_iff)
  then show ?thesis by (simp add: file_lines parse_nodes_map list_all_iff g6_error split_beta)
qed

section \<open>Whatever the service answers\<close>

text \<open>The shape of an answer: nodes, then the edges of some of them in the same order.\<close>

fun node_ids :: "element list \<Rightarrow> string list" where
  "node_ids [] = []"
| "node_ids (Node i x y # es) = i # node_ids es"
| "node_ids (Edge e s t # es) = node_ids es"

fun edge_sources :: "element list \<Rightarrow> string list" where
  "edge_sources [] = []"
| "edge_sources (Node i x y # es) = edge_sources es"
| "edge_sources (Edge e s t # es) = s # edge_sources es"

definition is_node :: "element \<Rightarrow> bool" where
  "is_node e = (case e of Node i x y \<Rightarrow> True | Edge d s t \<Rightarrow> False)"

definition edge_named :: "element \<Rightarrow> bool" where
  "edge_named e = (case e of Node i x y \<Rightarrow> True | Edge d s t \<Rightarrow> d = s @ ''-'' @ t \<and> t \<noteq> [])"

definition well_formed :: "element list \<Rightarrow> bool" where
  "well_formed es \<longleftrightarrow> es \<noteq> [] \<and> list_all (\<lambda>e. \<not> is_node e) (dropWhile is_node es) \<and>
     list_all edge_named es \<and> list_all (\<lambda>s. s \<noteq> [] \<and> list_all (\<lambda>c. \<not> py_space c) s) (node_ids es) \<and>
     subseq (edge_sources es) (node_ids es)"

lemma py_words_bare:
  "list_all (\<lambda>c. \<not> py_space c) w \<Longrightarrow> v \<in> set (py_words w s) \<Longrightarrow> v \<noteq> [] \<and> list_all (\<lambda>c. \<not> py_space c) v"
  by (induction w s rule: py_words.induct) (auto split: if_splits)

lemma parse_node_id: "parse_node l = Inr n \<Longrightarrow> fst n \<noteq> [] \<and> list_all (\<lambda>c. \<not> py_space c) (fst n)"
proof -
  assume a: "parse_node l = Inr n"
  then have "fst n \<in> set (py_split l)" by (auto simp: parse_node_def split: list.splits option.splits)
  then show ?thesis unfolding py_split_def by (intro py_words_bare) simp_all
qed

lemma parse_nodes_ids:
  "parse_nodes ls = Inr ns \<Longrightarrow> list_all (\<lambda>s. s \<noteq> [] \<and> list_all (\<lambda>c. \<not> py_space c) s) (map fst ns)"
proof (induction ls arbitrary: ns)
  case (Cons l ls)
  then obtain n ns' where "parse_node l = Inr n" "parse_nodes ls = Inr ns'" "ns = n # ns'"
    by (auto split: sum.splits)
  with Cons.IH parse_node_id [of l n] show ?case by simp
qed simp

lemma query_nodes_parsed:
  assumes "query_nodes ask rf p w = (Inr (Some ns), w1)"
  shows "\<exists>ls. parse_nodes ls = Inr ns"
  using assms by (auto simp: query_nodes_def Let_def split: prod.splits list.splits option.splits if_splits sum.splits)

lemma query_edges_shape:
  "query_edges ask ns pend s = (Inr es, s1) \<Longrightarrow>
   list_all (\<lambda>e. \<not> is_node e) es \<and> list_all edge_named es \<and> subseq (edge_sources es) (map fst ns)"
proof (induction ask ns pend s arbitrary: es s1 rule: query_edges.induct)
  case (2 ask n ns pend s)
  obtain ds s0 where a: "ask (''SL:'' @ fst n @ '':cmd_def_route'') s = (ds, s0)" by fastforce
  note prems = "2.prems" [unfolded query_edges.simps a prod.case Let_def]
  obtain d p1 t e p2 where p: "pend @ ds = d # p1" "decode (take 64 d) = Some t" "p1 = e # p2"
    using prems by (auto split: list.splits option.splits)
  define r where "r = py_strip (\<lambda>c. c = NUL) t"
  note IH = "2.IH" [OF a [symmetric] refl p(1,2,3) r_def]
  show ?case
  proof (cases "r = ''[NONE]''")
    case True
    then have "query_edges ask ns p2 s0 = (Inr es, s1)" using prems by (simp add: p r_def)
    from IH(1) [OF True this] show ?thesis by (auto intro: list_emb_Cons)
  next
    case False
    then obtain v es' where v: "route_target r = Some v" "query_edges ask ns p2 s0 = (Inr es', s1)"
      "es = Edge (fst n @ ''-'' @ dec_int v) (fst n) (dec_int v) # es'"
      using prems by (auto simp: p r_def split: option.splits prod.splits sum.splits)
    have "dec_int v \<noteq> []" by (simp add: dec_int_def)
    with IH(2) [OF False v(1) refl v(2)] v(3) show ?thesis by (simp add: edge_named_def is_node_def)
  qed
qed simp

end
