(* ===== verification/Canvas_System.thy ===== *)
theory Canvas_System
  imports Monitor Stackline_Cmds Canvas_Server
begin

text \<open>
  The web server on the running system: a request goes through the monitor to the airline and to
  every stackline and comes back as a graph.  The processes are those of the other theories; the
  time each needs is the sleep of the monitor in which it reacts.
\<close>

section \<open>The service of the running system\<close>

text \<open>
  The processes the server talks to: the airline and the stacklines react in sleep \<open>n_sleep\<close> of
  the monitor.  A stackline that answers takes its message and calls \<open>sl_handle_cmd\<close> with its
  handlers; \<open>None\<close> is one that does not answer, whether its process is gone or busy.
\<close>

record parties =
  n_uid :: u32
  n_world :: world
  n_rcv :: "address \<Rightarrow> usock"
  n_sleep :: nat
  n_stack :: "nat \<Rightarrow> sl_handlers option"

type_synonym system = "airline \<times> kernel \<times> char list"

abbreviation stack_q :: "nat \<Rightarrow> address" where "stack_q i \<equiv> (STACKLINE, of_nat i)"

definition stack_poll :: "parties \<Rightarrow> nat \<Rightarrow> kernel \<Rightarrow> kernel" where
  "stack_poll p i k = (case n_stack p i of
     None \<Rightarrow> k
   | Some h \<Rightarrow> (case cl_recvfrom_q (mt (stack_q i)) (Some DEFINE_MBUF) (of_nat (16 + 2048)) True (n_rcv p (stack_q i)) k of
         Ret (r, Some m, k1) \<Rightarrow>
           if mb_len m = 0 then k1
           else (case sl_handle_cmd (n_uid p) h (n_rcv p (stack_q i)) m k1 of Ret k2 \<Rightarrow> k2 | _ \<Rightarrow> k1)
       | _ \<Rightarrow> k))"

definition reacts :: "parties \<Rightarrow> airline \<Rightarrow> string \<Rightarrow> nat \<Rightarrow> kernel \<Rightarrow> kernel" where
  "reacts p s cmd = (case parse_cmd cmd of
     Inr (AIRLINE, sid, x) \<Rightarrow> airline_in_sleep (n_sleep p) (n_world p) (n_rcv p airline_q) s
   | Inr (STACKLINE, sid, x) \<Rightarrow> (\<lambda>c k. if c = n_sleep p then stack_poll p (unat sid) k else k)
   | _ \<Rightarrow> (\<lambda>c k. k))"

definition airline_after :: "parties \<Rightarrow> airline \<Rightarrow> kernel \<Rightarrow> string \<Rightarrow> airline" where
  "airline_after p s k cmd = (case parse_cmd cmd of
     Inr (AIRLINE, sid, x) \<Rightarrow>
       if n_sleep p < 1 \<or> 100 < n_sleep p then s
       else (case cl_sendto_q (n_uid p) (mt airline_q) (Some (cmd_msg sid x)) (of_nat sizeof_msg_buf + mb_len (cmd_msg sid x))
               (n_rcv p monitor_q) k of
          Ret (r, m, k1) \<Rightarrow> (case msgReader 2 (n_world p) (n_rcv p airline_q) s k1 of Ret (s1, k2) \<Rightarrow> s1 | _ \<Rightarrow> s)
        | _ \<Rightarrow> s)
   | _ \<Rightarrow> s)"

definition sys_ask :: "parties \<Rightarrow> system service" where
  "sys_ask p cmd sys = (case sys of (s, k, rsp) \<Rightarrow>
     (case monitor_round (n_uid p) (reacts p s cmd) (n_rcv p monitor_q) cmd rsp k of
        Ret (ds, rsp1, k1) \<Rightarrow> (ds, airline_after p s k cmd, k1, rsp1)
      | _ \<Rightarrow> ([], s, k, rsp)))"

definition sys_file :: "system \<Rightarrow> string \<Rightarrow> string" where
  "sys_file sys f = (case map_of (rev (al_files (fst sys))) f of None \<Rightarrow> [] | Some vs \<Rightarrow> file_text vs)"

definition sys_positions :: "system \<Rightarrow> (nat \<times> pos3) list" where
  "sys_positions sys = (case sys of (s, k, rsp) \<Rightarrow> file_values (al_mob s) 0xffff [0..<al_nodes s])"

text \<open>What the stackline of a node answers to \<open>cmd_def_route\<close>, and the text the server gets.\<close>

definition says :: "sl_handlers \<Rightarrow> string \<Rightarrow> bool" where
  "says h t \<longleftrightarrow> (\<forall>b. cstr b = [] \<and> length b = 4097 \<longrightarrow>
     h ''cmd_def_route'' 0 b 4096 = (int (length t), store_str b t)) \<and>
     t \<noteq> [] \<and> length t < 64 \<and> list_all (\<lambda>c. c \<noteq> NUL \<and> (of_char c :: nat) < 128) t"

definition route_text :: "(nat \<Rightarrow> string option) \<Rightarrow> nat \<Rightarrow> string" where
  "route_text answer i = (case answer i of None \<Rightarrow> ''NO_RSP_FROM_LINE:1'' | Some t \<Rightarrow> t)"

definition sys_ok :: "parties \<Rightarrow> (nat \<Rightarrow> string option) \<Rightarrow> system \<Rightarrow> bool" where
  "sys_ok p answer sys \<longleftrightarrow> (case sys of (s, k, rsp) \<Rightarrow>
     w_uid (n_world p) = n_uid p \<and> 1 \<le> n_sleep p \<and> n_sleep p \<le> 100 \<and> length rsp = 4096 \<and> al_nodes s < 65536 \<and>
     uopen (n_uid p) (n_rcv p monitor_q) 2048 (n_rcv p) k airline_q \<and>
     uopen (n_uid p) (n_rcv p airline_q) 4096 (n_rcv p) k monitor_q \<and>
     k_queue k (rfd (n_rcv p) airline_q) = [] \<and> k_queue k (rfd (n_rcv p) monitor_q) = [] \<and>
     (\<exists>n. CFG_STOI (al_cfg s) ''numOfNodes'' = Ret n) \<and>
     (\<forall>i < al_nodes s. case answer i of
        None \<Rightarrow> n_stack p i = None
      | Some t \<Rightarrow> (\<exists>h. n_stack p i = Some h \<and> says h t) \<and>
          uopen (n_uid p) (n_rcv p monitor_q) 2048 (n_rcv p) k (stack_q i) \<and>
          uopen (n_uid p) (n_rcv p (stack_q i)) 4096 (n_rcv p) k monitor_q \<and>
          k_queue k (rfd (n_rcv p) (stack_q i)) = []))"

definition sys_path :: "parties \<Rightarrow> string \<Rightarrow> bool" where
  "sys_path p f \<longleftrightarrow> w_open (n_world p) f \<and> f \<noteq> [] \<and> NUL \<notin> set f \<and> length f \<le> 100"

section \<open>The positions\<close>

lemma cmd_received:
  assumes "length c < 128"
  shows "buf (received a (cmd_msg i c) DEFINE_MBUF) = store_str (buf DEFINE_MBUF) c"
    "length (buf (received a (cmd_msg i c) DEFINE_MBUF)) = 2049"
proof -
  have n: "unat (of_nat (length c) :: u16) = length c" using assms by (simp add: of_nat_len)
  have b: "buf (cmd_msg i c) = store_str (replicate 4097 NUL) c"
    using assms by (simp add: cmd_msg_def put_str_def MAX_CMD_RSP_SZ_def DEFINE_MBUF_SZ_def zero_mbuf_def)
  show "buf (received a (cmd_msg i c) DEFINE_MBUF) = store_str (buf DEFINE_MBUF) c"
    using n b by (simp add: received_def cmd_msg_def store_str_def)
  then show "length (buf (received a (cmd_msg i c) DEFINE_MBUF)) = 2049" using assms by (simp add: length_store_str)
qed

lemma position_file_handled:
  assumes "buf m = store_str (buf DEFINE_MBUF) (''cmd_node_position:'' @ f)" "w_open w f" "f \<noteq> []" "NUL \<notin> set f" "length f \<le> 100"
  shows "handle_al_cmd w m s = Ret (m\<lparr>mb_len := 7, buf := store_str (take_arg (buf m)) ''SUCCESS''\<rparr>,
      s\<lparr>al_files := al_files s @ [(f, file_values (al_mob s) (src_id m) [0..<al_nodes s])]\<rparr>)
    \<and> length (take_arg (buf m)) = 2049"
proof -
  let ?c = "''cmd_node_position:'' @ f"
  have b: "buf m = store_str (buf DEFINE_MBUF) (''cmd_node_position'' @ '':'' @ f)" using assms(1) by simp
  have arg: "cstr (take_arg (buf m)) = f" "length (take_arg (buf m)) = 2049"
    using take_arg_colon [OF b _ _ assms(4)] assms(5) by simp_all
  have str: "mb_str m = ?c" using assms(1,4) by (simp add: mb_str_def)
  have nul: "NUL \<in> set (buf m)" unfolding assms(1) by (rule NUL_in_store_str)
  have match: "cmd_matches ''cmd_node_position'' m" "\<not> cmd_matches ''cmd_node_exec'' m"
    unfolding cmd_matches_def str strncasecmp_pre_def by (simp_all add: tolower_def)
  have "snprintf_at 0 2048 ''SUCCESS'' (take_arg (buf m)) = Ret (store_str (take_arg (buf m)) ''SUCCESS'')"
    using arg(2) by (intro snprintf_at_start) simp_all
  then show ?thesis
    using arg match nul assms(2,3)
    by (simp add: handle_al_cmd_def HANDLE_CMD_def cmd_node_position_def COMMLINE_MAX_BUF_def Let_def)
qed

section \<open>A stackline answers, or does not\<close>

lemma parse_cmd_stack:
  assumes "n < 65536"
  shows "parse_cmd (''SL:'' @ dec_nat n @ '':'' @ c) = Inr (STACKLINE, of_nat n, c)"
proof -
  obtain d ds where d: "dec_nat n = d # ds" "isdigit d" using dec_nat_hd by blast
  have "CHR '':'' \<notin> set (dec_nat n)" using isdigit_dec_nat [of "CHR '':''" n] by (auto simp: isdigit_def)
  then have "strchr (CHR '':'') (dec_nat n @ '':'' @ c) = Some ('':'' @ c)" by simp
  moreover have "atoi (dec_nat n @ '':'' @ c) = int n" by (rule atoi_dec_nat) (simp add: isdigit_def)
  ultimately show ?thesis
    using d by (simp add: parse_cmd_def strncasecmp_pre_def Let_def tolower_def)
qed

lemma route_cmd_datagram:
  assumes "n < 65536"
  shows "length (''SL:'' @ dec_nat n @ '':cmd_def_route'') \<le> 127" "NUL \<notin> set (''SL:'' @ dec_nat n @ '':cmd_def_route'')"
proof -
  have "length (dec_nat n) \<le> 5" using assms by (intro length_dec_nat) simp_all
  then show "length (''SL:'' @ dec_nat n @ '':cmd_def_route'') \<le> 127" by simp
  have "NUL \<notin> set (dec_nat n)" using isdigit_dec_nat [of NUL n] by (auto simp: isdigit_def)
  then show "NUL \<notin> set (''SL:'' @ dec_nat n @ '':cmd_def_route'')" by simp
qed

text \<open>A message to an address, bound or not, leaves the queues of the other owners as they are.\<close>

lemma send_elsewhere:
  assumes "uopen uid su cap rcv k b" "fits_buf m"
  shows "\<exists>r q. cl_sendto_q uid (mt a) (Some m) (send_len m) su k
      = Ret (r, Some (m\<lparr>mb_mtype := word_of_int (mt a)\<rparr>), k\<lparr>k_queue := q\<rparr>) \<and>
    (\<forall>c. c \<noteq> a \<longrightarrow> k_name k (rfd rcv c) = Some (usock_setabsaddr uid (mt c)) \<longrightarrow> q (rfd rcv c) = k_queue k (rfd rcv c))"
proof -
  have len: "16 + unat (mb_len m) \<le> length (mem m)" "length (mem (m\<lparr>mb_mtype := x\<rparr>)) = length (mem m)" for x
    using assms(2) by (auto simp: fits_buf_def length_mem)
  define d where "d = take (16 + unat (mb_len m)) (mem (m\<lparr>mb_mtype := word_of_int (mt a)\<rparr>))"
  have ld: "int (length d) = 16 + uint (mb_len m)" using len by (simp add: d_def)
  have send: "cl_sendto_q uid (mt a) (Some m) (send_len m) su k =
    (let (r, k1) = sys_sendto (g_usock_fd su ! nat (g_def_line su)) d (usock_setabsaddr uid (mt a)) k
     in Ret (if r \<noteq> int (16 + unat (mb_len m)) then FAILURE else SUCCESS, Some (m\<lparr>mb_mtype := word_of_int (mt a)\<rparr>), k1))"
    using assms len by (simp add: cl_sendto_q_def usock_sendto_def send_len_nonzero unat_send_len uopen_def Let_def
        case_prod_beta d_def)
  have fd: "\<not> g_usock_fd su ! nat (g_def_line su) < 3" "g_usock_fd su ! nat (g_def_line su) \<in> set (k_open k)"
    using assms(1) by (auto simp: uopen_def)
  show ?thesis
  proof (cases "name_fd k (usock_setabsaddr uid (mt a))")
    case None
    have "17 + uint (mb_len m) \<noteq> 0" using uint_u16_range(1) [of "mb_len m"] by linarith
    with send fd None show ?thesis
      by (intro exI [of _ FAILURE] exI [of _ "k_queue k"]) (simp add: sys_sendto_def)
  next
    case (Some t)
    then have t: "k_name k t = Some (usock_setabsaddr uid (mt a))" by (auto simp: name_fd_def find_Some_iff)
    let ?q = "(k_queue k)(t := k_queue k t @ [d])"
    have "?q (rfd rcv c) = k_queue k (rfd rcv c)"
      if "c \<noteq> a" "k_name k (rfd rcv c) = Some (usock_setabsaddr uid (mt c))" for c
      using t that by (auto simp: usock_name_inject prod_eq_iff)
    moreover have "cl_sendto_q uid (mt a) (Some m) (send_len m) su k
        = Ret (SUCCESS, Some (m\<lparr>mb_mtype := word_of_int (mt a)\<rparr>), k\<lparr>k_queue := ?q\<rparr>)"
      using send fd Some ld by (simp add: sys_sendto_def)
    ultimately show ?thesis by blast
  qed
qed

text \<open>A command nobody answers: the client is told so, and only the queue of the line may grow.\<close>

lemma line_silent:
  assumes "uopen uid uf cap rcv k b" "uopen uid su 4096 rcv k monitor_q" "uf = rcv monitor_q"
    and "k_queue k (rfd rcv monitor_q) = []" "length rsp = 4096"
    and "parse_cmd d = Inr (line, sid, x)" "length d \<le> 127" "NUL \<notin> set d" "d \<noteq> []" "length x < 128" "NUL \<notin> set x"
    and "dest = (if line = STACKLINE then sid else CL_MGR_ID)" "(line, dest) \<noteq> monitor_q"
    and "\<forall>c \<in> set [1..<101]. \<forall>k. others c k = k" "t = ''NO_RSP_FROM_LINE:'' @ dec_int (line_no line)"
  shows "\<exists>q. monitor_round uid others uf d rsp k = Ret ([t, END_OF_RSP @ [NUL]], store_str rsp t, k\<lparr>k_queue := q\<rparr>) \<and>
    (\<forall>c. c \<noteq> (line, dest) \<longrightarrow> k_name k (rfd rcv c) = Some (usock_setabsaddr uid (mt c)) \<longrightarrow> q (rfd rcv c) = k_queue k (rfd rcv c))"
proof -
  let ?m = "cmd_msg sid x" and ?a = "(line, dest)"
  note cm = cmd_msg_received [OF assms(10,11), of sid]
  obtain r q where q: "cl_sendto_q uid (mt ?a) (Some ?m) (send_len ?m) uf k
      = Ret (r, Some (?m\<lparr>mb_mtype := word_of_int (mt ?a)\<rparr>), k\<lparr>k_queue := q\<rparr>)"
    "\<forall>c. c \<noteq> ?a \<longrightarrow> k_name k (rfd rcv c) = Some (usock_setabsaddr uid (mt c)) \<longrightarrow> q (rfd rcv c) = k_queue k (rfd rcv c)"
    using send_elsewhere [OF assms(1) cm(1), of ?a] by blast
  have send: "cl_sendto_q uid (MTYPE line dest) (Some ?m) (of_nat sizeof_msg_buf + mb_len ?m) uf k
      = Ret (r, Some (?m\<lparr>mb_mtype := word_of_int (mt ?a)\<rparr>), k\<lparr>k_queue := q\<rparr>)"
    using q(1) by (simp add: send_len_def)
  have "k_name k (rfd rcv monitor_q) = Some (usock_setabsaddr uid (mt monitor_q))" using assms(2) by (simp add: uopen_def)
  then have e: "k_queue (k\<lparr>k_queue := q\<rparr>) (rfd rcv monitor_q) = []"
    using q(2) [rule_format, OF assms(13) [symmetric]] assms(4) by simp
  have o: "uopen uid su 4096 rcv (k\<lparr>k_queue := q\<rparr>) monitor_q" using assms(2) by simp
  have poll: "poll_reply others uf rsp [1..<101] (?m\<lparr>mb_mtype := word_of_int (mt ?a)\<rparr>)
      (k\<lparr>k_queue := q\<rparr>) = Ret (None, k\<lparr>k_queue := q\<rparr>)"
    unfolding assms(3) by (rule poll_reply_idle_all [OF o e]) (use assms(10,14) in simp_all)
  from round_unanswered [OF assms(6-9,12) send poll assms(5,15)] q(2) show ?thesis by blast
qed

lemma stackline_silent:
  assumes "uopen uid uf 2048 rcv k airline_q" "uopen uid su 4096 rcv k monitor_q" "uf = rcv monitor_q"
    and "k_queue k (rfd rcv monitor_q) = []" "length rsp = 4096" "n < 65536"
  shows "\<exists>q. monitor_round uid (\<lambda>c k. if c = j then k else k) uf (''SL:'' @ dec_nat n @ '':cmd_def_route'') rsp k
      = Ret ([''NO_RSP_FROM_LINE:1'', END_OF_RSP @ [NUL]], store_str rsp ''NO_RSP_FROM_LINE:1'', k\<lparr>k_queue := q\<rparr>) \<and>
    (\<forall>c. c \<noteq> stack_q n \<longrightarrow> k_name k (rfd rcv c) = Some (usock_setabsaddr uid (mt c)) \<longrightarrow> q (rfd rcv c) = k_queue k (rfd rcv c))"
proof -
  have parse: "parse_cmd (''SL:'' @ dec_nat n @ '':cmd_def_route'') = Inr (STACKLINE, of_nat n, ''cmd_def_route'')"
    using parse_cmd_stack [OF assms(6), of "''cmd_def_route''"] by simp
  have t: "''NO_RSP_FROM_LINE:1'' = ''NO_RSP_FROM_LINE:'' @ dec_int (line_no STACKLINE)" by code_simp
  have "''SL:'' @ dec_nat n @ '':cmd_def_route'' \<noteq> []" by simp
  from line_silent [OF assms(1-5) parse route_cmd_datagram [OF assms(6)] this _ _ _ _ _ t, of "of_nat n" "\<lambda>c k. if c = j then k else k"]
  show ?thesis by simp
qed

text \<open>A stackline that answers: its text goes back, and all queues are as they were.\<close>

lemma stack_poll_answers:
  assumes "uopen (n_uid p) su 2048 (n_rcv p) k (stack_q n)" "uopen (n_uid p) (n_rcv p (stack_q n)) 4096 (n_rcv p) k monitor_q"
    and "k_queue k (rfd (n_rcv p) (stack_q n)) = []" "k_queue k (rfd (n_rcv p) monitor_q) = []"
    and "n_stack p n = Some h" "says h t"
    and "k1 = k\<lparr>k_queue := (k_queue k)(rfd (n_rcv p) (stack_q n) := [wire (stack_q n) (cmd_msg i ''cmd_def_route'')])\<rparr>"
  shows "\<exists>r. stack_poll p n k1 = k\<lparr>k_queue := (k_queue k)(rfd (n_rcv p) monitor_q := [wire monitor_q r])\<rparr> \<and>
    fits_buf r \<and> length (buf r) = 4097 \<and> unat (mb_len r) = length t \<and> take (length t) (buf r) = t"
proof -
  let ?m = "cmd_msg i ''cmd_def_route''" and ?a = "rfd (n_rcv p) (stack_q n)" and ?b = "rfd (n_rcv p) monitor_q"
  have x: "length ''cmd_def_route'' < 128" "NUL \<notin> set ''cmd_def_route''" "CHR '':'' \<notin> set ''cmd_def_route''"
    "length ''cmd_def_route'' < 255" by simp_all
  note cm = cmd_msg_received [OF x(1,2), of i]
  define m where "m = received (stack_q n) ?m DEFINE_MBUF"
  have ab: "?a \<noteq> ?b" using uopen_two [OF assms(1,2)] by simp
  have "k_queue k1 ?a = wire (stack_q n) ?m # []" by (simp add: assms(7))
  moreover have "uopen (n_uid p) su 2048 (n_rcv p) k1 (stack_q n)" using assms(1,7) by simp
  ultimately have recv: "cl_recvfrom_q (mt (stack_q n)) (Some DEFINE_MBUF) (of_nat (16 + 2048)) True (n_rcv p (stack_q n)) k1
      = Ret (16 + int (unat (mb_len ?m)), Some m, k1\<lparr>k_queue := (k_queue k1)(?a := [])\<rparr>)"
    unfolding m_def using cm(1,2) by (intro recv_wire) simp_all
  have k: "k1\<lparr>k_queue := (k_queue k1)(?a := [])\<rparr> = k" using assms(3,7) by (simp add: fun_upd_idem)
  have b: "buf m = store_str (buf DEFINE_MBUF) ''cmd_def_route''" "length (buf m) = 2049"
    unfolding m_def using cmd_received [OF x(1)] by simp_all
  have len: "unat (mb_len m) = length ''cmd_def_route''" using cm(2) by (simp add: m_def)
  then have nz: "mb_len m \<noteq> 0" by auto
  have pre: "take (unat (mb_len m)) (buf m) = ''cmd_def_route''" "unat (mb_len m) \<le> length (buf m)"
    unfolding len using b by (simp_all add: store_str_def)
  define c where "c = store_str (replicate 4097 NUL) ''cmd_def_route''"
  note pc = plain_command [OF c_def x(2,3,4)]
  have t: "t \<noteq> []" "length t < 64" "NUL \<notin> set t" "h ''cmd_def_route'' 0 (take_arg c) 4096 = (int (length t), store_str (take_arg c) t)"
    using assms(6) pc(2,3) by (auto simp: says_def list_all_iff)
  have known: "''cmd_def_route'' \<in> set sl_names" by (simp add: sl_names_def)
  have t4: "length t < 4096" using t(2) by simp
  obtain r where r: "sl_handle_cmd (n_uid p) h (n_rcv p (stack_q n)) m k = Ret (usend (n_uid p) (n_rcv p (stack_q n)) monitor_q r k)"
    "unat (mb_len r) = length (mb_str r)" "fits_buf r" "length (buf r) = 4097" "take (unat (mb_len r)) (buf r) = mb_str r"
    "mb_str r = t"
    using sl_answers [where h = h, OF assms(2) len pre _ c_def pc t(4) t4 t(3)] known by auto
  have "usend (n_uid p) (n_rcv p (stack_q n)) monitor_q r k = k\<lparr>k_queue := (k_queue k)(?b := [wire monitor_q r])\<rparr>"
    using usend_queue [OF assms(2) r(3)] assms(4) by simp
  with recv r nz have "stack_poll p n k1 = k\<lparr>k_queue := (k_queue k)(?b := [wire monitor_q r])\<rparr>"
    unfolding k by (simp add: stack_poll_def assms(5))
  with r show ?thesis by (intro exI [of _ r]) simp
qed

lemma stackline_answers:
  assumes "uopen (n_uid p) (n_rcv p monitor_q) 2048 (n_rcv p) k (stack_q n)"
    and "uopen (n_uid p) (n_rcv p (stack_q n)) 4096 (n_rcv p) k monitor_q"
    and "k_queue k (rfd (n_rcv p) (stack_q n)) = []" "k_queue k (rfd (n_rcv p) monitor_q) = []"
    and "n_stack p n = Some h" "says h t" "1 \<le> j" "j \<le> 100" "length rsp = 4096" "n < 65536"
  shows "monitor_round (n_uid p) (\<lambda>c k. if c = j then stack_poll p n k else k) (n_rcv p monitor_q)
      (''SL:'' @ dec_nat n @ '':cmd_def_route'') rsp k
    = Ret ([t @ [NUL], END_OF_RSP @ [NUL]], t @ NUL # drop (length t + 1) rsp, k)"
proof -
  let ?m = "cmd_msg (of_nat n) ''cmd_def_route''" and ?d = "''SL:'' @ dec_nat n @ '':cmd_def_route''"
  let ?a = "rfd (n_rcv p) (stack_q n)" and ?b = "rfd (n_rcv p) monitor_q"
  let ?k1 = "k\<lparr>k_queue := (k_queue k)(?a := [wire (stack_q n) ?m])\<rparr>"
  let ?ms = "?m\<lparr>mb_mtype := word_of_int (mt (stack_q n))\<rparr>"
  have x: "length ''cmd_def_route'' < 128" "NUL \<notin> set ''cmd_def_route''" by simp_all
  note cm = cmd_msg_received [OF x, of "of_nat n"]
  have ab: "?a \<noteq> ?b" using uopen_two [OF assms(1,2)] by simp
  obtain r where r: "stack_poll p n ?k1 = k\<lparr>k_queue := (k_queue k)(?b := [wire monitor_q r])\<rparr>"
    "fits_buf r" "length (buf r) = 4097" "unat (mb_len r) = length t" "take (length t) (buf r) = t"
    using stack_poll_answers [OF assms(1-6) refl] by blast
  have t: "length t < 64" "t \<noteq> []" using assms(6) by (auto simp: says_def)
  have send: "cl_sendto_q (n_uid p) (MTYPE STACKLINE (of_nat n)) (Some ?m) (of_nat sizeof_msg_buf + mb_len ?m) (n_rcv p monitor_q) k
      = Ret (SUCCESS, Some ?ms, ?k1)"
    using usend_eq [OF assms(1) cm(1)] assms(3) by (simp add: send_len_def)
  let ?k2 = "k\<lparr>k_queue := (k_queue k)(?b := [wire monitor_q r])\<rparr>"
  have q: "uopen (n_uid p) (n_rcv p (stack_q n)) 4096 (n_rcv p) ?k1 monitor_q" "k_queue ?k1 ?b = []"
    "uopen (n_uid p) (n_rcv p (stack_q n)) 4096 (n_rcv p) ?k2 monitor_q" "k_queue ?k2 ?b = [wire monitor_q r]"
    "unat (mb_len r) < 4096" "length (buf ?ms) = 4097"
    using assms(2,4) ab r(4) t(1) by simp_all
  have k: "?k2\<lparr>k_queue := (k_queue ?k2)(?b := [])\<rparr> = k" using assms(4) by (simp add: fun_upd_idem)
  have poll: "poll_reply (\<lambda>c k. if c = j then stack_poll p n k else k) (n_rcv p monitor_q) rsp [1..<101] ?ms ?k1
      = Ret (Some (int (length t) + 1, take (length t) (buf r) @ NUL # drop (length t + 1) rsp), k)"
    using poll_one_answer [where f = "stack_poll p n" and j = j, OF q(1-4) refl r(1) assms(7,8) r(2) q(5,6) assms(9)] t(2) unfolding k Let_def r(4) by simp
  have parse: "parse_cmd ?d = Inr (STACKLINE, of_nat n, ''cmd_def_route'')"
    using parse_cmd_stack [OF assms(10), of "''cmd_def_route''"] by simp
  have ne: "?d \<noteq> []" by simp
  have "length t \<le> length (buf r)" using r(3) t(1) by simp
  from round_answered [OF parse route_cmd_datagram [OF assms(10)] ne _ send poll this] r(5) show ?thesis by simp
qed

section \<open>The system provides the service\<close>

lemma reply_text_nul:
  assumes "length t < 64" "t \<noteq> []" "list_all (\<lambda>c. c \<noteq> NUL \<and> (of_char c :: nat) < 128) t"
  shows "reply_text (t @ [NUL]) = Some t"
proof -
  have n: "list_all (\<lambda>c. (of_char c :: nat) < 128) (t @ [NUL])" using assms(3) by (auto simp: list_all_iff)
  obtain c cs where c: "t = c # cs" "c \<noteq> NUL" using assms(2,3) by (cases t) auto
  obtain d ds where d: "rev t = d # ds" using assms(2) by (cases "rev t") auto
  then have "d \<in> set t" by (metis list.set_intros(1) set_rev)
  then have "d \<noteq> NUL" using assms(3) by (auto simp: list_all_iff)
  with d have "dropWhile (\<lambda>c. c = NUL) (rev (t @ [NUL])) = rev t" by simp
  moreover have "dropWhile (\<lambda>c. c = NUL) (t @ [NUL]) = t @ [NUL]" using c by simp
  ultimately have "py_strip (\<lambda>c. c = NUL) (t @ [NUL]) = t" by (simp only: py_strip_def rev_rev_ident)
  with n assms(1) show ?thesis by (simp add: reply_text_def decode_def)
qed

lemma parse_position_cmd: "parse_cmd (''AL:cmd_node_position:'' @ f) = Inr (AIRLINE, CL_MGR_ID, ''cmd_node_position:'' @ f)"
  by (simp add: parse_cmd_def strncasecmp_pre_def Let_def tolower_def isdigit_def)

lemma sys_positions_asked:
  assumes "sys_ok p answer sys" "sys_path p f"
  shows "\<exists>e sys'. sys_ask p (''AL:cmd_node_position:'' @ f) sys = ([''SUCCESS'' @ [NUL], e], sys') \<and> sys_ok p answer sys' \<and>
    sys_positions sys' = sys_positions sys \<and> sys_file sys' f = file_text (sys_positions sys)"
proof -
  obtain s k rsp where sys: "sys = (s, k, rsp)" by (cases sys)
  let ?x = "''cmd_node_position:'' @ f" and ?d = "''AL:cmd_node_position:'' @ f"
  note ok = assms(1) [unfolded sys_ok_def sys prod.case]
  then obtain n where n: "CFG_STOI (al_cfg s) ''numOfNodes'' = Ret n" by blast
  have f: "w_open (n_world p) f" "f \<noteq> []" "NUL \<notin> set f" "length f \<le> 100" using assms(2) by (auto simp: sys_path_def)
  have x: "length ?x < 128" "NUL \<notin> set ?x" "?x \<noteq> []" "length ?d \<le> 127" "NUL \<notin> set ?d" "?d \<noteq> []" using f by simp_all
  note parse = parse_position_cmd [of f]
  let ?m = "cmd_msg CL_MGR_ID ?x" and ?mr = "received airline_q (cmd_msg CL_MGR_ID ?x) DEFINE_MBUF"
  note cm = cmd_msg_received [OF x(1,2), of CL_MGR_ID]
  let ?vs = "file_values (al_mob s) 0xffff [0..<al_nodes s]"
  define r where "r = ?mr\<lparr>mb_len := 7, buf := store_str (take_arg (buf ?mr)) ''SUCCESS''\<rparr>"
  let ?s1 = "s\<lparr>al_files := al_files s @ [(f, ?vs)]\<rparr>"
  have h: "handle_al_cmd (n_world p) ?mr s = Ret (r, ?s1)" "length (take_arg (buf ?mr)) = 2049"
    using position_file_handled [OF cmd_received(1) [OF x(1)] f] cm(5) by (simp_all add: r_def CL_MGR_ID_def)
  have r: "flags r = MBUF_IS_CMD" "length (buf r) = 2049" "take 7 (buf r) = ''SUCCESS''" "unat (mb_len r) = 7"
    using cm(6) h(2) unfolding r_def by (simp_all add: length_store_str) (simp add: store_str_def)
  then have fit: "fits_buf r" by (simp add: fits_buf_def)
  have o: "uopen (n_uid p) (n_rcv p monitor_q) 2048 (n_rcv p) k airline_q"
    "uopen (n_uid p) (n_rcv p airline_q) 4096 (n_rcv p) k monitor_q" "k_queue k (rfd (n_rcv p) airline_q) = []"
    "k_queue k (rfd (n_rcv p) monitor_q) = []" "w_uid (n_world p) = n_uid p" "1 \<le> n_sleep p" "n_sleep p \<le> 100" "length rsp = 4096"
    using ok by blast+
  have re: "reacts p s ?d = airline_in_sleep (n_sleep p) (n_world p) (n_rcv p airline_q) s"
    unfolding reacts_def parse by simp
  let ?rsp = "''SUCCESS'' @ NUL # drop 8 rsp"
  have round: "monitor_round (n_uid p) (reacts p s ?d) (n_rcv p monitor_q) ?d rsp k
      = Ret ([''SUCCESS'' @ [NUL], END_OF_RSP @ [NUL]], ?rsp, k)"
    using airline_round [OF o(1,2) refl o(3,4) n o(5-8) parse x(4-6,1-3) h(1) r(1) fit r(2)] r(3,4)
    unfolding re by (simp add: Let_def)
  note act = airline_reacts [OF o(1-4) n o(5) x(1-3) h(1) r(1) fit r(2) refl]
  have up: "\<not> (n_sleep p < 1 \<or> 100 < n_sleep p)" using o(6,7) by simp
  have after: "airline_after p s k ?d = ScheduleCommlineRX ?s1"
    unfolding airline_after_def parse
    by (simp only: sum.case prod.case cl_line.case fst_conv snd_conv act outcome.case up if_False)
  let ?sys = "(ScheduleCommlineRX ?s1, k, ?rsp)"
  have "sys_ask p ?d sys = ([''SUCCESS'' @ [NUL], END_OF_RSP @ [NUL]], ?sys)"
    unfolding sys_ask_def sys prod.case round outcome.case after ..
  moreover have "sys_ok p answer ?sys"
    using ok by (simp add: sys_ok_def ScheduleCommlineRX_def)
  moreover have "sys_positions ?sys = sys_positions sys" "sys_file ?sys f = file_text (sys_positions sys)"
    by (simp_all add: sys sys_positions_def sys_file_def ScheduleCommlineRX_def)
  ultimately show ?thesis by blast
qed

lemma sys_ok_silent:
  assumes "sys_ok p answer (s, k, rsp)" "i < al_nodes s" "answer i = None"
    and q: "\<forall>c. c \<noteq> stack_q i \<longrightarrow> k_name k (rfd (n_rcv p) c) = Some (usock_setabsaddr (n_uid p) (mt c)) \<longrightarrow>
      q (rfd (n_rcv p) c) = k_queue k (rfd (n_rcv p) c)"
    and "length rsp1 = 4096"
  shows "sys_ok p answer (s, k\<lparr>k_queue := q\<rparr>, rsp1)"
proof -
  note ok = assms(1) [unfolded sys_ok_def prod.case]
  have same: "q (rfd (n_rcv p) c) = k_queue k (rfd (n_rcv p) c)"
    if "uopen (n_uid p) su cap (n_rcv p) k c" "c \<noteq> stack_q i" for su cap c
    using q [rule_format, OF that(2)] that(1) by (simp add: uopen_def)
  have "q (rfd (n_rcv p) airline_q) = k_queue k (rfd (n_rcv p) airline_q)"
    by (rule same [of "n_rcv p monitor_q" 2048]) (use ok in simp_all)
  moreover have "q (rfd (n_rcv p) monitor_q) = k_queue k (rfd (n_rcv p) monitor_q)"
    by (rule same [of "n_rcv p airline_q" 4096]) (use ok in simp_all)
  moreover have "q (rfd (n_rcv p) (stack_q j)) = k_queue k (rfd (n_rcv p) (stack_q j))"
    if "j < al_nodes s" "answer j = Some t" for j t
  proof (rule same [of "n_rcv p monitor_q" 2048])
    show "uopen (n_uid p) (n_rcv p monitor_q) 2048 (n_rcv p) k (stack_q j)" using ok that by (auto split: option.splits)
    have "j < 65536" "i < 65536" "i \<noteq> j" using ok that assms(2,3) by auto
    then have "unat (of_nat j :: u16) \<noteq> unat (of_nat i :: u16)" by (simp add: unat_of_nat)
    then have "(of_nat j :: u16) \<noteq> of_nat i" by metis
    then show "stack_q j \<noteq> stack_q i" by simp
  qed
  ultimately show ?thesis
    using ok assms(5) unfolding sys_ok_def prod.case by (auto split: option.splits)
qed

lemma sys_route_asked:
  assumes "sys_ok p answer sys" "(i, q) \<in> set (sys_positions sys)"
  shows "\<exists>d e sys'. sys_ask p (''SL:'' @ dec_nat i @ '':cmd_def_route'') sys = ([d, e], sys') \<and>
    reply_text d = Some (route_text answer i) \<and> sys_ok p answer sys' \<and> sys_positions sys' = sys_positions sys"
proof -
  obtain s k rsp where sys: "sys = (s, k, rsp)" by (cases sys)
  let ?d = "''SL:'' @ dec_nat i @ '':cmd_def_route''"
  note ok = assms(1) [unfolded sys_ok_def sys prod.case]
  have i: "i < al_nodes s"
    using assms(2) by (auto simp: sys sys_positions_def file_values_def List.map_filter_def split: if_splits option.splits)
  then have i16: "i < 65536" using ok by simp
  have parse: "parse_cmd ?d = Inr (STACKLINE, of_nat i, ''cmd_def_route'')"
    using parse_cmd_stack [OF i16, of "''cmd_def_route''"] by simp
  have un: "unat (of_nat i :: u16) = i" using i16 by (simp add: unat_of_nat)
  have o: "uopen (n_uid p) (n_rcv p monitor_q) 2048 (n_rcv p) k airline_q"
    "uopen (n_uid p) (n_rcv p airline_q) 4096 (n_rcv p) k monitor_q" "k_queue k (rfd (n_rcv p) airline_q) = []"
    "k_queue k (rfd (n_rcv p) monitor_q) = []" "1 \<le> n_sleep p" "n_sleep p \<le> 100" "length rsp = 4096"
    using ok by blast+
  have re: "reacts p s ?d = (\<lambda>c k. if c = n_sleep p then stack_poll p i k else k)"
    unfolding reacts_def parse by (simp only: sum.case prod.case cl_line.case un)
  have after: "airline_after p s k ?d = s" unfolding airline_after_def parse by simp
  note node = ok [THEN conjunct2, THEN conjunct2, THEN conjunct2, THEN conjunct2, THEN conjunct2, THEN conjunct2,
      THEN conjunct2, THEN conjunct2, THEN conjunct2, THEN conjunct2, rule_format, OF i]
  show ?thesis
  proof (cases "answer i")
    case None
    then have "n_stack p i = None" using node by simp
    then have re0: "reacts p s ?d = (\<lambda>c k. if c = n_sleep p then k else k)"
      unfolding re by (simp add: stack_poll_def fun_eq_iff)
    obtain q' where q': "monitor_round (n_uid p) (reacts p s ?d) (n_rcv p monitor_q) ?d rsp k
        = Ret ([''NO_RSP_FROM_LINE:1'', END_OF_RSP @ [NUL]], store_str rsp ''NO_RSP_FROM_LINE:1'', k\<lparr>k_queue := q'\<rparr>)"
      "\<forall>c. c \<noteq> stack_q i \<longrightarrow> k_name k (rfd (n_rcv p) c) = Some (usock_setabsaddr (n_uid p) (mt c)) \<longrightarrow>
        q' (rfd (n_rcv p) c) = k_queue k (rfd (n_rcv p) c)"
      using stackline_silent [OF o(1,2) refl o(4,7) i16] unfolding re0 by blast
    let ?sys = "(s, k\<lparr>k_queue := q'\<rparr>, store_str rsp ''NO_RSP_FROM_LINE:1'')"
    have "sys_ask p ?d sys = ([''NO_RSP_FROM_LINE:1'', END_OF_RSP @ [NUL]], ?sys)"
      unfolding sys_ask_def sys prod.case q'(1) outcome.case after ..
    moreover have "reply_text ''NO_RSP_FROM_LINE:1'' = Some (route_text answer i)"
      unfolding route_text_def None option.case by code_simp
    moreover have "sys_ok p answer ?sys"
    proof (rule sys_ok_silent [OF assms(1) [unfolded sys] i None q'(2)])
      show "length (store_str rsp ''NO_RSP_FROM_LINE:1'') = 4096" using o(7) by (simp add: length_store_str)
    qed
    moreover have "sys_positions ?sys = sys_positions sys" by (simp add: sys sys_positions_def)
    ultimately show ?thesis by blast
  next
    case (Some t)
    then obtain h where h: "n_stack p i = Some h" "says h t" "uopen (n_uid p) (n_rcv p monitor_q) 2048 (n_rcv p) k (stack_q i)"
      "uopen (n_uid p) (n_rcv p (stack_q i)) 4096 (n_rcv p) k monitor_q" "k_queue k (rfd (n_rcv p) (stack_q i)) = []"
      using node by auto
    have t: "t \<noteq> []" "length t < 64" "list_all (\<lambda>c. c \<noteq> NUL \<and> (of_char c :: nat) < 128) t" using h(2) by (auto simp: says_def)
    let ?sys = "(s, k, t @ NUL # drop (length t + 1) rsp)"
    have "monitor_round (n_uid p) (reacts p s ?d) (n_rcv p monitor_q) ?d rsp k
        = Ret ([t @ [NUL], END_OF_RSP @ [NUL]], t @ NUL # drop (length t + 1) rsp, k)"
      unfolding re using stackline_answers [OF h(3-5) o(4) h(1,2) o(5-7) i16] .
    then have "sys_ask p ?d sys = ([t @ [NUL], END_OF_RSP @ [NUL]], ?sys)"
      unfolding sys_ask_def sys prod.case by (simp only: outcome.case prod.case after)
    moreover have "reply_text (t @ [NUL]) = Some (route_text answer i)"
      using reply_text_nul [OF t(2,1,3)] by (simp add: route_text_def Some)
    moreover have "sys_ok p answer ?sys" using ok t(2) by (simp add: sys_ok_def)
    moreover have "sys_positions ?sys = sys_positions sys" by (simp add: sys sys_positions_def)
    ultimately show ?thesis by blast
  qed
qed

interpretation canvas: monitor_service "sys_ask p" sys_file "sys_ok p answer" "sys_path p" sys_positions "route_text answer"
  for p answer
proof
  show "sys_ok p answer s \<Longrightarrow> sys_path p f \<Longrightarrow> \<exists>e s'. sys_ask p (''AL:cmd_node_position:'' @ f) s = ([''SUCCESS'' @ [NUL], e], s') \<and>
      sys_ok p answer s' \<and> sys_positions s' = sys_positions s \<and> sys_file s' f = file_text (sys_positions s)" for s f
    by (rule sys_positions_asked)
  show "sys_ok p answer s \<Longrightarrow> (i, q) \<in> set (sys_positions s) \<Longrightarrow>
      \<exists>d e s'. sys_ask p (''SL:'' @ dec_nat i @ '':cmd_def_route'') s = ([d, e], s') \<and>
        reply_text d = Some (route_text answer i) \<and> sys_ok p answer s' \<and> sys_positions s' = sys_positions s" for s i q
    by (rule sys_route_asked)
qed

section \<open>Properties\<close>

text \<open>
  What the answer of one stackline makes of its node: no edge for \<open>[NONE]\<close>, an edge to the number a
  route ends in, an edge to node 1 for a stackline that does not answer (the monitor's error text
  \<open>NO_RSP_FROM_LINE:1\<close> ends in a number, too), and an error for any other text.
\<close>

datatype drawn_edge = No_Edge | Edge_To int | Unreadable

definition drawn_edge :: "string option \<Rightarrow> drawn_edge" where
  "drawn_edge a = (case a of
     None \<Rightarrow> Edge_To 1
   | Some t \<Rightarrow> if t = ''[NONE]'' then No_Edge
       else (case route_target t of None \<Rightarrow> Unreadable | Some v \<Rightarrow> Edge_To v))"

text \<open>The elements of an answer: the nodes at their positions, then their edges.\<close>

definition edges_of_node :: "nat \<Rightarrow> drawn_edge \<Rightarrow> element list" where
  "edges_of_node i d = (case d of Edge_To v \<Rightarrow> [Edge (dec_nat i @ ''-'' @ dec_int v) (dec_nat i) (dec_int v)] | _ \<Rightarrow> [])"

definition graph_elements :: "(nat \<Rightarrow> string option) \<Rightarrow> (nat \<times> pos3) list \<Rightarrow> element list" where
  "graph_elements answer ps =
     List.map (\<lambda>(i, x, y, z). Node (dec_nat i) (g6 x) (g6 y)) ps @
     concat (List.map (\<lambda>(i, q). edges_of_node i (drawn_edge (answer i))) ps)"

definition routes_readable :: "(nat \<Rightarrow> string option) \<Rightarrow> (nat \<times> pos3) list \<Rightarrow> bool" where
  "routes_readable answer ps = list_all (\<lambda>(i, q). drawn_edge (answer i) \<noteq> Unreadable) ps"

lemma no_rsp_target: "route_target ''NO_RSP_FROM_LINE:1'' = Some 1"
  by code_simp

lemma readable_route: "readable (route_text answer i) \<longleftrightarrow> drawn_edge (answer i) \<noteq> Unreadable"
  using no_rsp_target by (auto simp: readable_def route_text_def drawn_edge_def split: option.splits)

lemma edge_of_route: "edge_of (route_text answer) i = edges_of_node i (drawn_edge (answer i))"
  using no_rsp_target by (auto simp: edge_of_def edges_of_node_def route_text_def drawn_edge_def split: option.splits)

lemma graph_answered:
  assumes "sys_ok p answer (w_sys w)" "sys_path p f"
  shows "\<exists>s. graph (sys_ask p) sys_file f w =
      (if sys_positions (w_sys w) = [] then Inr Status500
       else if routes_readable answer (sys_positions (w_sys w)) then Inr (Elements (graph_elements answer (sys_positions (w_sys w))))
       else Inl ValueError, w\<lparr>w_sys := s\<rparr>) \<and>
    sys_ok p answer s \<and> sys_positions s = sys_positions (w_sys w)"
proof -
  have n: "node_element \<circ> shown = (\<lambda>(i, x, y, z). Node (dec_nat i) (g6 x) (g6 y))"
    by (simp add: fun_eq_iff shown_def node_element_def)
  show ?thesis
    unfolding graph_elements_def routes_readable_def
    by (rule canvas.graph_answers [OF assms, unfolded readable_route edge_of_route n])
qed

lemma graph_of_system:
  assumes "sys_ok p answer (w_sys w)" "sys_path p f" "sys_positions (w_sys w) \<noteq> []"
    and "routes_readable answer (sys_positions (w_sys w))"
  shows "\<exists>s. graph (sys_ask p) sys_file f w
      = (Inr (Elements (graph_elements answer (sys_positions (w_sys w)))), w\<lparr>w_sys := s\<rparr>) \<and>
    sys_ok p answer s \<and> sys_positions s = sys_positions (w_sys w)"
  using graph_answered [OF assms(1,2)] unfolding if_not_P [OF assms(3)] if_P [OF assms(4)] .

text \<open>
  C3: What a request returns: for a running airline and any mix of stacklines that answer, with any ASCII
  text of 1 to 63 characters, and that do not, and whatever of the hundred sleeps they take, it is the
  status 500 when no node has a position, an uncaught \<open>ValueError\<close> when a stackline answers with a
  text that is neither \<open>[NONE]\<close> nor ends in a hexadecimal number, and otherwise exactly the positioned
  nodes, in order, followed by an edge to the number the route ends in for every node with a route,
  no edge for \<open>[NONE]\<close>, and an edge to node 1 for every stackline that does not answer.  The server
  keeps no file and no descriptor, and the next request finds the system in order.
\<close>

theorem graph_shows_network:
  assumes "sys_ok p answer (w_sys w)" "sys_path p f"
  shows "\<exists>s. graph (sys_ask p) sys_file f w =
      (if sys_positions (w_sys w) = [] then Inr Status500
       else if routes_readable answer (sys_positions (w_sys w)) then Inr (Elements (graph_elements answer (sys_positions (w_sys w))))
       else Inl ValueError, w\<lparr>w_sys := s\<rparr>) \<and>
    sys_ok p answer s \<and> sys_positions s = sys_positions (w_sys w)"
  by (rule graph_answered [OF assms])

text \<open>A body the server can send while the network has these positions and answers; \<open>enc\<close> writes it as text.\<close>

definition served ::
  "parties \<Rightarrow> (nat \<Rightarrow> string option) \<Rightarrow> (nat \<times> pos3) list \<Rightarrow> (element list \<Rightarrow> string) \<Rightarrow> string \<Rightarrow> bool" where
  "served p answer ps enc t \<longleftrightarrow> (\<exists>w w1 f es. sys_ok p answer (w_sys w) \<and> sys_path p f \<and> sys_positions (w_sys w) = ps \<and>
     graph (sys_ask p) sys_file f w = (Inr (Elements es), w1) \<and> t = enc es)"

lemma served_text: "served p answer ps enc t \<Longrightarrow> t = enc (graph_elements answer ps)"
  using graph_answered by (fastforce simp: served_def split: if_splits)

text \<open>The example: node 0 does not answer, node 1 has the route \<open>fe80::a\<close>.\<close>

definition demo_three :: kernel where
  "demo_three = demo_both\<lparr>k_open := 5 # k_open demo_both, k_next := 6,
     k_name := (k_name demo_both)(5 := Some (usock_setabsaddr 0 (mt (stack_q 1))))\<rparr>"

definition demo_route :: sl_handlers where
  "demo_route cmd i b n = (7, store_str b ''fe80::a'')"

definition demo_parties :: parties where
  "demo_parties = \<lparr>n_uid = 0, n_world = demo_world,
     n_rcv = (\<lambda>a. if fst a = STACKLINE then \<lparr>g_usock_fd = [-1, 5, 0, 0, 0], g_def_line = 1\<rparr> else demo_rcv a),
     n_sleep = 7, n_stack = [1 \<mapsto> demo_route]\<rparr>"

definition demo_answer :: "nat \<Rightarrow> string option" where
  "demo_answer = [1 \<mapsto> ''fe80::a'']"

definition demo_web :: "system web" where
  "demo_web = \<lparr>w_sys = (demo_al (sized_config 2 new_config) 2 (3, -4, 0), demo_three, replicate 4096 NUL), tmp_files = [], open_fds = 0\<rparr>"

lemma demo_says: "says demo_route ''fe80::a''"
  by (simp add: says_def demo_route_def)

lemma demo_sys_ok: "sys_ok demo_parties demo_answer (w_sys demo_web)"
proof -
  have "CFG_STOI (sized_config 2 new_config) ''numOfNodes'' = Ret 2" using sized_numOfNodes [of 2] by simp
  moreover have o: "uopen 0 (n_rcv demo_parties monitor_q) 2048 (n_rcv demo_parties) demo_three airline_q"
    "uopen 0 (n_rcv demo_parties airline_q) 4096 (n_rcv demo_parties) demo_three monitor_q"
    "uopen 0 (n_rcv demo_parties monitor_q) 2048 (n_rcv demo_parties) demo_three (stack_q 1)"
    "uopen 0 (n_rcv demo_parties (stack_q 1)) 4096 (n_rcv demo_parties) demo_three monitor_q"
    by (auto simp: uopen_def demo_three_def demo_both_def demo_parties_def demo_rcv_def kernel_ok_def rfd_def usock_fd_def
        kernel_start_def usock_name_inject)
  moreover have "k_queue demo_three fd = []" for fd by (simp add: demo_three_def demo_both_def kernel_start_def)
  moreover have "i = 0 \<or> i = 1" if "i < 2" for i :: nat using that by linarith
  ultimately show ?thesis
    using demo_says
    by (auto simp: sys_ok_def demo_web_def demo_answer_def demo_parties_def demo_world_def demo_al_def demo_net_def demo_ms_def)
qed

lemma demo_positions: "sys_positions (w_sys demo_web) = [(0, 3, -4, 0), (1, 3, -4, 0)]"
  by (simp add: sys_positions_def demo_web_def file_values_def wanted_def upt_rec numeral_2_eq_2 map_filter_simps)

lemma demo_readable: "routes_readable demo_answer (sys_positions (w_sys demo_web))"
proof -
  have "route_target ''fe80::a'' = Some 10" by code_simp
  then show ?thesis by (simp add: routes_readable_def drawn_edge_def demo_positions demo_answer_def)
qed

lemma demo_path: "sys_path demo_parties ''/tmp/x''"
  by (simp add: sys_path_def demo_parties_def demo_world_def)

lemma demo_elements: "graph_elements demo_answer [(0, 3, -4, 0), (1, 3, -4, 0)] =
    [Node ''0'' 3 (-4), Node ''1'' 3 (-4), Edge ''0-1'' ''0'' ''1'', Edge ''1-10'' ''1'' ''10'']"
proof -
  have "dec_nat 0 = ''0''" "dec_nat 1 = ''1''" "dec_int 1 = ''1''" "dec_int 10 = ''10''" by code_simp+
  moreover have "route_target ''fe80::a'' = Some 10" by code_simp
  moreover have "g6 3 = 3" "g6 (-4) = -4" using g6_of_int [of 3] g6_of_int [of "-4"] by simp_all
  ultimately show ?thesis
    by (simp add: graph_elements_def edges_of_node_def drawn_edge_def demo_answer_def)
qed

lemma graph_shows_network_witness:
  "fst (graph (sys_ask demo_parties) sys_file ''/tmp/x'' demo_web) = Inr (Elements
     [Node ''0'' 3 (-4), Node ''1'' 3 (-4), Edge ''0-1'' ''0'' ''1'', Edge ''1-10'' ''1'' ''10''])"
proof -
  show ?thesis
    using graph_shows_network [OF demo_sys_ok demo_path] demo_readable demo_elements by (auto simp: demo_positions)
qed

text \<open>
  A node that does not answer is drawn as a child of node 1: the text \<open>NO_RSP_FROM_LINE:1\<close> that
  the monitor sends in place of a route ends in a hexadecimal number, which the server takes for
  the route, so the page cannot tell a dead node from a neighbour of node 1.
\<close>

theorem silent_node_drawn_under_1:
  assumes "sys_ok p answer (w_sys w)" "sys_path p f" "routes_readable answer (sys_positions (w_sys w))"
    and "(i, q) \<in> set (sys_positions (w_sys w))" "answer i = None"
  shows "\<exists>es s. graph (sys_ask p) sys_file f w = (Inr (Elements es), w\<lparr>w_sys := s\<rparr>) \<and>
    Edge (dec_nat i @ ''-1'') (dec_nat i) ''1'' \<in> set es"
proof -
  have "dec_int 1 = ''1''" by code_simp
  then have "edges_of_node i (drawn_edge (answer i)) = [Edge (dec_nat i @ ''-1'') (dec_nat i) ''1'']"
    using assms(5) by (simp add: edges_of_node_def drawn_edge_def)
  then have "Edge (dec_nat i @ ''-1'') (dec_nat i) ''1''
      \<in> set (concat (List.map (\<lambda>(i, q). edges_of_node i (drawn_edge (answer i))) (sys_positions (w_sys w))))"
    unfolding set_concat set_map by (intro UN_I [OF imageI [OF assms(4)]]) simp
  then have "Edge (dec_nat i @ ''-1'') (dec_nat i) ''1'' \<in> set (graph_elements answer (sys_positions (w_sys w)))"
    unfolding graph_elements_def set_append by (rule UnI2)
  moreover have "sys_positions (w_sys w) \<noteq> []" using assms(4) by auto
  ultimately show ?thesis using graph_of_system [OF assms(1,2) _ assms(3)] by blast
qed

lemma silent_node_drawn_under_1_witness:
  "\<exists>es s. graph (sys_ask demo_parties) sys_file ''/tmp/x'' demo_web = (Inr (Elements es), demo_web\<lparr>w_sys := s\<rparr>) \<and>
    Edge ''0-1'' ''0'' ''1'' \<in> set es"
proof -
  have "dec_nat 0 = ''0''" by code_simp
  then show ?thesis
    using silent_node_drawn_under_1 [OF demo_sys_ok demo_path demo_readable, of 0 "(3, -4, 0)"]
    by (simp add: demo_positions demo_answer_def)
qed

text \<open>
  C15: The page gets a well-formed graph: whatever the monitor, the airline and the stacklines send,
  an answer is a list of nodes followed by edges; the ids of the nodes are not empty and have no
  white space, every edge is named after its ends, leaves a node of the same answer, and no node
  has more edges than entries.
\<close>

theorem graph_is_well_formed:
  assumes "graph ask read_file path w = (Inr (Elements es), w1)"
  shows "well_formed es"
proof -
  obtain ns w2 where ns: "query_nodes ask read_file path w = (Inr (Some ns), w2)" "ns \<noteq> []"
    using assms by (auto simp: graph_def split: prod.splits sum.splits option.splits if_splits)
  then obtain xs s where e: "query_edges ask ns [] (w_sys w2) = (Inr xs, s)" "es = List.map node_element ns @ xs"
    using assms by (auto simp: graph_def Let_def split: prod.splits sum.splits)
  obtain ls where "parse_nodes ls = Inr ns" using query_nodes_parsed [OF ns(1)] by blast
  note ids = parse_nodes_ids [OF this]
  note shape = query_edges_shape [OF e(1)]
  have nodes: "node_ids (List.map node_element ns @ xs) = map fst ns @ node_ids xs"
    "edge_sources (List.map node_element ns @ xs) = edge_sources xs"
    "list_all edge_named (List.map node_element ns)" "dropWhile is_node (List.map node_element ns @ xs) = dropWhile is_node xs" for xs
    by (induction ns) (simp_all add: node_element_def edge_named_def is_node_def)
  have "list_all (\<lambda>e. \<not> is_node e) xs \<Longrightarrow> node_ids xs = []" for xs
    by (induction xs rule: node_ids.induct) (simp_all add: is_node_def)
  then have "node_ids xs = []" using shape by blast
  moreover have "list_all (\<lambda>e. \<not> is_node e) (dropWhile is_node xs)"
    using shape by (auto simp: list_all_iff dest: set_dropWhileD)
  ultimately show ?thesis
    using shape ids nodes ns(2) by (simp add: well_formed_def e(2))
qed

lemma graph_is_well_formed_witness:
  "well_formed [Node ''0'' 3 (-4), Node ''1'' 3 (-4), Edge ''0-1'' ''0'' ''1'', Edge ''1-10'' ''1'' ''10'']"
proof -
  obtain s where "graph (sys_ask demo_parties) sys_file ''/tmp/x'' demo_web
      = (Inr (Elements [Node ''0'' 3 (-4), Node ''1'' 3 (-4), Edge ''0-1'' ''0'' ''1'', Edge ''1-10'' ''1'' ''10'']), demo_web\<lparr>w_sys := s\<rparr>)"
    using graph_of_system [OF demo_sys_ok demo_path _ demo_readable] demo_elements by (auto simp: demo_positions)
  then show ?thesis by (rule graph_is_well_formed)
qed

section \<open>A system without an airline\<close>

text \<open>
  The airline does not get to its queue while the monitor waits: \<open>n_sleep\<close> is beyond the hundred
  sleeps, and whether anybody owns the queue does not matter.
\<close>

definition sys_down :: "parties \<Rightarrow> system \<Rightarrow> bool" where
  "sys_down p sys \<longleftrightarrow> (case sys of (s, k, rsp) \<Rightarrow>
     n_sleep p > 100 \<and> length rsp = 4096 \<and> uopen (n_uid p) (n_rcv p monitor_q) 4096 (n_rcv p) k monitor_q \<and>
     k_queue k (rfd (n_rcv p) monitor_q) = [])"

lemma sys_down_asked:
  assumes "sys_down p sys" "sys_path p f"
  shows "\<exists>e sys'. sys_ask p (''AL:cmd_node_position:'' @ f) sys = ([''NO_RSP_FROM_LINE:2'', e], sys') \<and> sys_down p sys'"
proof -
  obtain s k rsp where sys: "sys = (s, k, rsp)" by (cases sys)
  let ?x = "''cmd_node_position:'' @ f" and ?d = "''AL:cmd_node_position:'' @ f"
  note down = assms(1) [unfolded sys_down_def sys prod.case]
  then have o: "uopen (n_uid p) (n_rcv p monitor_q) 4096 (n_rcv p) k monitor_q" "k_queue k (rfd (n_rcv p) monitor_q) = []"
    "length rsp = 4096" "n_sleep p > 100" by blast+
  have x: "length ?d \<le> 127" "NUL \<notin> set ?d" "?d \<noteq> []" "length ?x < 128" "NUL \<notin> set ?x"
    using assms(2) by (auto simp: sys_path_def)
  note parse = parse_position_cmd [of f]
  have re: "\<forall>c \<in> set [1..<101]. \<forall>k. reacts p s ?d c k = k"
    unfolding reacts_def parse using o(4) by (simp add: airline_in_sleep_def)
  have t: "''NO_RSP_FROM_LINE:2'' = ''NO_RSP_FROM_LINE:'' @ dec_int (line_no AIRLINE)" by code_simp
  have "CL_MGR_ID = (if AIRLINE = STACKLINE then CL_MGR_ID else CL_MGR_ID)" "airline_q \<noteq> monitor_q" by simp_all
  from line_silent [OF o(1,1) refl o(2,3) parse x this re t] obtain q where
    q: "monitor_round (n_uid p) (reacts p s ?d) (n_rcv p monitor_q) ?d rsp k
        = Ret ([''NO_RSP_FROM_LINE:2'', END_OF_RSP @ [NUL]], store_str rsp ''NO_RSP_FROM_LINE:2'', k\<lparr>k_queue := q\<rparr>)"
      "\<forall>c. c \<noteq> airline_q \<longrightarrow> k_name k (rfd (n_rcv p) c) = Some (usock_setabsaddr (n_uid p) (mt c)) \<longrightarrow>
        q (rfd (n_rcv p) c) = k_queue k (rfd (n_rcv p) c)" by blast
  let ?sys = "(airline_after p s k ?d, k\<lparr>k_queue := q\<rparr>, store_str rsp ''NO_RSP_FROM_LINE:2'')"
  have "sys_ask p ?d sys = ([''NO_RSP_FROM_LINE:2'', END_OF_RSP @ [NUL]], ?sys)"
    unfolding sys_ask_def sys prod.case q(1) outcome.case ..
  moreover have "k_name k (rfd (n_rcv p) monitor_q) = Some (usock_setabsaddr (n_uid p) (mt monitor_q))"
    using o(1) by (simp add: uopen_def)
  then have "sys_down p ?sys"
    using q(2) [rule_format, of monitor_q] down by (simp add: sys_down_def length_store_str)
  ultimately show ?thesis by blast
qed

lemma down_query:
  assumes "sys_down p (w_sys w)" "sys_path p f"
  shows "\<exists>s. query_nodes (sys_ask p) sys_file f w = (Inr None, w\<lparr>w_sys := s, open_fds := open_fds w + 1\<rparr>) \<and> sys_down p s"
proof -
  obtain e s where s: "sys_ask p (''AL:cmd_node_position:'' @ f) (w_sys w) = ([''NO_RSP_FROM_LINE:2'', e], s)" "sys_down p s"
    using sys_down_asked [OF assms] by blast
  have "decode (take 32 ''NO_RSP_FROM_LINE:2'') = Some ''NO_RSP_FROM_LINE:2''"
    "py_strip (\<lambda>c. c = NUL) ''NO_RSP_FROM_LINE:2'' = ''NO_RSP_FROM_LINE:2''" by code_simp+
  then show ?thesis unfolding query_nodes_def s(1) using s(2) by (intro exI [of _ s]) (simp add: Let_def)
qed

text \<open>
  C33: Without an airline the server starts badly and leaks: the monitor answers the first query
  with an error text, \<open>query_nodes\<close> returns nothing and the program ends with an uncaught
  \<open>TypeError\<close> instead of its message; a server that was started before answers every request with
  the status 500, and each of them leaves one more descriptor open.
\<close>

theorem without_airline_server_leaks:
  assumes "sys_down p (w_sys w)" "sys_path p f" "get_config inc = Inr (Some port)"
    and "w1 = ((\<lambda>v. snd (graph (sys_ask p) sys_file f v)) ^^ n) w"
  shows "fst (canvas_main (sys_ask p) sys_file inc f w) = Uncaught TypeError \<and>
    fst (graph (sys_ask p) sys_file f w1) = Inr Status500 \<and> open_fds w1 = open_fds w + n \<and> tmp_files w1 = tmp_files w"
proof -
  have step: "\<exists>s. graph (sys_ask p) sys_file f v = (Inr Status500, v\<lparr>w_sys := s, open_fds := open_fds v + 1\<rparr>) \<and> sys_down p s"
    if d: "sys_down p (w_sys v)" for v
  proof -
    obtain s where "query_nodes (sys_ask p) sys_file f v = (Inr None, v\<lparr>w_sys := s, open_fds := open_fds v + 1\<rparr>)" "sys_down p s"
      using down_query [OF d assms(2)] by blast
    then show ?thesis by (intro exI [of _ s]) (simp add: graph_def)
  qed
  have "sys_down p (w_sys w1) \<and> open_fds w1 = open_fds w + n \<and> tmp_files w1 = tmp_files w"
    unfolding assms(4)
  proof (induction n)
    case (Suc n)
    then show ?case using step [of "((\<lambda>v. snd (graph (sys_ask p) sys_file f v)) ^^ n) w"] by auto
  qed (simp add: assms(1))
  then show ?thesis
    using step [of w1] down_query [OF assms(1,2)] assms(3) by (auto simp: canvas_main_def)
qed

definition demo_down :: parties where "demo_down = demo_parties\<lparr>n_sleep := 200\<rparr>"

lemma without_airline_server_leaks_witness:
  "fst (canvas_main (sys_ask demo_down) sys_file ''MONITOR_PORT=8000'' ''/tmp/x'' demo_web) = Uncaught TypeError \<and>
   open_fds (((\<lambda>v. snd (graph (sys_ask demo_down) sys_file ''/tmp/x'' v)) ^^ 1024) demo_web) = 1024"
proof -
  have "sys_down demo_down (w_sys demo_web)"
    by (auto simp: sys_down_def demo_down_def demo_web_def uopen_def demo_three_def demo_both_def demo_parties_def demo_rcv_def
        kernel_ok_def rfd_def usock_fd_def kernel_start_def usock_name_inject)
  moreover have "sys_path demo_down ''/tmp/x''" by (simp add: sys_path_def demo_down_def demo_parties_def demo_world_def)
  moreover have "get_config ''MONITOR_PORT=8000'' = Inr (Some 8000)" by code_simp
  ultimately show ?thesis
    using without_airline_server_leaks [where w = demo_web and n = 1024, OF _ _ _ refl] by (simp add: demo_web_def)
qed

end
