(* ===== verification/Pty_Handler.thy ===== *)
theory Pty_Handler
  imports Forker "HOL-Library.Sublist"
begin

text \<open>
  \<open>utils/pty_handler.c\<close>: the thread of the forker that relays between a node's terminal (the
  master side of its pseudo terminal) and a Unix datagram socket named after the node.
  \<open>forker.c\<close> starts the thread; its calls of \<open>uds_open\<close> and \<open>pty_add_fd\<close> stand under \<open>#if 0\<close>,
  so in the program as it is configured the set of watched descriptors stays empty.
  What the nodes print, what the peers send and which ready descriptor comes next are not
  determined by the program: the thread and its surroundings are a step relation.
\<close>

section \<open>State\<close>

record pty_info = child_psinfo +
  uds_fd :: int
  peer :: string
  peerlen :: nat

text \<open>
  \<open>tty_out\<close> and \<open>uds_in\<close> hold what waits at a descriptor, \<open>tty_in\<close> what a terminal was given,
  \<open>uds_sent\<close> the datagrams sent; \<open>hung\<close> says that the node's side of the terminal is closed,
  \<open>peer_up\<close> whether a datagram to the address arrives.
\<close>

record ptys =
  p_info :: "pty_info list"
  g_pty_epollfd :: int
  p_epoll :: "(int \<times> u32) list"
  tty_out :: "int \<Rightarrow> char list"
  tty_in :: "int \<Rightarrow> char list"
  hung :: "int \<Rightarrow> bool"
  uds_in :: "int \<Rightarrow> (string \<times> char list) list"
  uds_sent :: "(int \<times> string \<times> char list) list"
  peer_up :: "string \<Rightarrow> bool"
  uds_name :: "string \<Rightarrow> int option"

section \<open>Descriptors\<close>

definition tty_read :: "int \<Rightarrow> nat \<Rightarrow> ptys \<Rightarrow> (int \<times> char list \<times> ptys) outcome" where
  \<comment> \<open>\<open>read\<close> on the master: fails once the node's side is closed and everything is read\<close>
  "tty_read fd n s =
     (if tty_out s fd = [] then (if hung s fd then Ret (-1, [], s) else Blocked)
      else let d = take n (tty_out s fd)
           in Ret (int (length d), d, s\<lparr>tty_out := (tty_out s)(fd := drop n (tty_out s fd))\<rparr>))"

text \<open>A terminal takes all bytes it is given; one whose input queue is full is not modelled.\<close>

definition tty_write :: "int \<Rightarrow> char list \<Rightarrow> ptys \<Rightarrow> int \<times> ptys" where
  "tty_write fd d s = (int (length d), s\<lparr>tty_in := (tty_in s)(fd := tty_in s fd @ d)\<rparr>)"

definition sockaddr_len :: "string \<Rightarrow> nat" where
  \<comment> \<open>the length the kernel stores: none for a sender without a name\<close>
  "sockaddr_len p = (if p = [] then 0 else 2 + length p + 1)"

definition uds_recvfrom :: "int \<Rightarrow> nat \<Rightarrow> ptys \<Rightarrow> (int \<times> char list \<times> string \<times> ptys) outcome" where
  "uds_recvfrom fd n s = (case uds_in s fd of
     [] \<Rightarrow> Blocked
   | (p, d) # ds \<Rightarrow> Ret (int (length (take n d)), take n d, p, s\<lparr>uds_in := (uds_in s)(fd := ds)\<rparr>))"

definition uds_sendto :: "int \<Rightarrow> char list \<Rightarrow> string \<Rightarrow> ptys \<Rightarrow> int \<times> ptys" where
  "uds_sendto fd d p s =
     (if peer_up s p then (int (length d), s\<lparr>uds_sent := uds_sent s @ [(fd, p, d)]\<rparr>) else (-1, s))"

section \<open>Operations\<close>

definition PTY_BUF :: nat where "PTY_BUF = 1024"
definition MAXEVENTS :: nat where "MAXEVENTS = 32"

text \<open>
  The log line prints the data with the precision \<open>n\<close>; for a negative \<open>n\<close> the precision counts
  as absent and the uninitialised buffer is read up to a terminator it need not have.
\<close>

definition handle_pty_event :: "nat \<Rightarrow> bool \<Rightarrow> ptys \<Rightarrow> (int \<times> ptys) outcome" where
  "handle_pty_event nodeid ismaster s =
     (if nodeid \<ge> length (p_info s) then Fault Out_Of_Bounds
      else
        let c = p_info s ! nodeid
        in if ismaster then
             bindo (tty_read (master c) PTY_BUF s) (\<lambda>(n, d, s1).
               if n < 0 then Fault Out_Of_Bounds
               else
                 let (n', s2) = (if n > 0 \<and> peerlen c \<noteq> 0 then uds_sendto (uds_fd c) d (peer c) s1
                                 else (n, s1))
                 in Ret (if n' \<le> 0 then FAILURE else SUCCESS, s2))
           else
             bindo (uds_recvfrom (uds_fd c) PTY_BUF s) (\<lambda>(n, d, p, s1).
               let set_peer = (\<lambda>l. s1\<lparr>p_info := (p_info s1)[nodeid := c\<lparr>peer := p, peerlen := l\<rparr>]\<rparr>)
               in if n > 0 then
                    let (n', s2) = tty_write (master c) d (set_peer (sockaddr_len p))
                    in Ret (if n' \<le> 0 then FAILURE else SUCCESS, s2)
                  else Ret (FAILURE, set_peer 0)))"

text \<open>The 32 bits registered with a descriptor: the node id, the top bit for the terminal.\<close>

definition event_data :: "int \<Rightarrow> bool \<Rightarrow> u32" where
  "event_data nodeid ismaster = (word_of_int nodeid :: u32) OR (if ismaster then 0x80000000 else 0)"

definition event_node :: "u32 \<Rightarrow> nat" where "event_node ev = unat (ev AND 0x7fffffff)"
definition event_master :: "u32 \<Rightarrow> bool" where "event_master ev \<longleftrightarrow> ev AND 0x80000000 \<noteq> 0"

definition pty_event :: "u32 \<Rightarrow> ptys \<Rightarrow> (int \<times> ptys) outcome" where
  "pty_event ev s = handle_pty_event (event_node ev) (event_master ev) s"

text \<open>One round of \<open>pty_handler_thread\<close>: the results of the handler are not looked at.\<close>

fun pty_events :: "u32 list \<Rightarrow> ptys \<Rightarrow> ptys outcome" where
  "pty_events [] s = Ret s"
| "pty_events (ev # evs) s = bindo (pty_event ev s) (\<lambda>(r, s1). pty_events evs s1)"

definition pty_round :: "u32 list \<Rightarrow> ptys \<Rightarrow> ptys outcome" where
  "pty_round ready s = pty_events (take MAXEVENTS ready) s"

definition pty_add_fd :: "int \<Rightarrow> int \<Rightarrow> bool \<Rightarrow> ptys \<Rightarrow> int \<times> ptys" where
  "pty_add_fd nodeid fd ismaster s =
     (if g_pty_epollfd s < 0 \<or> fd < 0 \<or> fd \<in> fst ` set (p_epoll s) then (FAILURE, s)
      else (SUCCESS, s\<lparr>p_epoll := p_epoll s @ [(fd, event_data nodeid ismaster)]\<rparr>))"

definition start_pty_thread :: "int \<Rightarrow> int \<Rightarrow> ptys \<Rightarrow> int \<times> ptys" where
  \<comment> \<open>\<open>efd\<close> and \<open>created\<close> are the results of \<open>epoll_create1\<close> and \<open>pthread_create\<close>\<close>
  "start_pty_thread efd created s =
     (if efd < 0 then (FAILURE, s\<lparr>g_pty_epollfd := efd\<rparr>)
      else if created \<noteq> 0 then (FAILURE, s\<lparr>g_pty_epollfd := -1\<rparr>)
      else (SUCCESS, s\<lparr>g_pty_epollfd := efd\<rparr>))"

definition uds_get_path :: "string option \<Rightarrow> string option \<Rightarrow> int \<Rightarrow> nat \<Rightarrow> string" where
  \<comment> \<open>the environment's \<open>LOGPATH\<close> and \<open>MONITOR_PORT\<close>; the C library prints a null string so\<close>
  "uds_get_path logp mport nodeid maxlen =
     snprintf_text maxlen
       ((case logp of None \<Rightarrow> ''/tmp'' | Some d \<Rightarrow> d) @ ''/'' @
        (case mport of None \<Rightarrow> ''(null)'' | Some p \<Rightarrow> p) @ ''_'' @
        hex_pad 4 (nat (nodeid mod 2 ^ 32)) @ ''.unixsock'')"

definition SUN_PATH :: nat where "SUN_PATH = 108"

definition uds_open ::
  "string option \<Rightarrow> string option \<Rightarrow> (string \<Rightarrow> bool) \<Rightarrow> int \<Rightarrow> int \<Rightarrow> ptys \<Rightarrow> int \<times> ptys" where
  \<comment> \<open>\<open>fd\<close> is the result of \<open>socket\<close>; \<open>unlink\<close> frees the name, \<open>dir_ok\<close> says if \<open>bind\<close> can make it\<close>
  "uds_open logp mport dir_ok fd nodeid s =
     (if fd = -1 then (FAILURE, s)
      else
        let p = uds_get_path logp mport nodeid SUN_PATH;
            s1 = s\<lparr>uds_name := (uds_name s)(p := None)\<rparr>
        in if \<not> dir_ok p then (FAILURE, s1)
           else (fd, s1\<lparr>uds_name := (uds_name s1)(p := Some fd)\<rparr>))"

section \<open>The thread and its surroundings\<close>

datatype pty_label = Prints int "char list" | Sends int string "char list" | Handles u32

text \<open>
  A round handles the descriptors that were ready one after the other, and nothing but the
  thread takes data from a descriptor, so the steps of single events include every round.
\<close>

inductive pty_step :: "ptys \<Rightarrow> pty_label \<Rightarrow> ptys \<Rightarrow> bool" where
  prints: "pty_step s (Prints fd d) (s\<lparr>tty_out := (tty_out s)(fd := tty_out s fd @ d)\<rparr>)"
| sends: "pty_step s (Sends fd p d) (s\<lparr>uds_in := (uds_in s)(fd := uds_in s fd @ [(p, d)])\<rparr>)"
| handles: "ev \<in> snd ` set (p_epoll s) \<Longrightarrow> pty_event ev s = Ret (r, s') \<Longrightarrow> pty_step s (Handles ev) s'"

inductive_cases pty_stepE: "pty_step s l s'"

inductive pty_run :: "ptys \<Rightarrow> pty_label list \<Rightarrow> ptys \<Rightarrow> bool" where
  idle: "pty_run s [] s"
| step: "pty_run s ls s' \<Longrightarrow> pty_step s' l s'' \<Longrightarrow> pty_run s (ls @ [l]) s''"

section \<open>Registered events\<close>

lemma event_data_roundtrip:
  assumes "0 \<le> i" "i < 2 ^ 31"
  shows "event_node (event_data i b) = nat i" "event_master (event_data i b) \<longleftrightarrow> b"
proof -
  have bits: "bit (word_of_int i :: u32) n \<longleftrightarrow> n < 31 \<and> bit i n" for n
  proof -
    have "take_bit 31 i = i" using assms by (simp add: take_bit_int_eq_self)
    then have "bit i n \<Longrightarrow> n < 31" by (metis bit_take_bit_iff)
    then show ?thesis by (auto simp: bit_simps)
  qed
  have m: "bit (0x80000000 :: u32) n \<longleftrightarrow> n = 31" "bit (0x7fffffff :: u32) n \<longleftrightarrow> n < 31" for n
  proof -
    have "(0x80000000 :: u32) = push_bit 31 1" "(0x7fffffff :: u32) = mask 31"
      by (simp_all add: push_bit_eq_mult mask_eq_exp_minus_1)
    then have "bit (0x80000000 :: u32) n \<longleftrightarrow> bit (push_bit 31 (1 :: u32)) n"
      "bit (0x7fffffff :: u32) n \<longleftrightarrow> bit (mask 31 :: u32) n" by metis+
    moreover have "bit (push_bit 31 (1 :: u32)) n \<longleftrightarrow> n = 31"
      by (subst bit_push_bit_iff) (auto simp: bit_1_iff)
    moreover have "bit (mask 31 :: u32) n \<longleftrightarrow> n < 31"
      by (subst bit_mask_iff) (auto simp: possible_bit_word)
    ultimately show "bit (0x80000000 :: u32) n \<longleftrightarrow> n = 31" "bit (0x7fffffff :: u32) n \<longleftrightarrow> n < 31"
      by simp_all
  qed
  have "event_data i b AND 0x7fffffff = word_of_int i"
    by (rule bit_eqI) (auto simp: event_data_def bits m bit_and_iff bit_or_iff simp del: bit_numeral_word_iff)
  then have "event_node (event_data i b) = unat (word_of_int i :: u32)"
    by (simp only: event_node_def)
  also have "\<dots> = nat i"
    using assms by (simp add: unsigned_of_int take_bit_int_eq_self)
  finally show "event_node (event_data i b) = nat i" .
  have "event_data i b AND 0x80000000 = (if b then 0x80000000 else 0)"
    by (rule bit_eqI) (auto simp: event_data_def bits m bit_and_iff bit_or_iff simp del: bit_numeral_word_iff)
  then show "event_master (event_data i b) \<longleftrightarrow> b" by (simp add: event_master_def)
qed

section \<open>What one event does\<close>

abbreviation node_uds :: "ptys \<Rightarrow> nat \<Rightarrow> int" where "node_uds s i \<equiv> uds_fd (p_info s ! i)"
abbreviation node_tty :: "ptys \<Rightarrow> nat \<Rightarrow> int" where "node_tty s i \<equiv> master (p_info s ! i)"

lemma datagram_event:
  assumes "handle_pty_event j False s = Ret (r, s')"
  obtains p d ds where "j < length (p_info s)" "uds_in s (node_uds s j) = (p, d) # ds"
    "uds_in s' = (uds_in s)(node_uds s j := ds)"
    "tty_in s' = (tty_in s)(node_tty s j := tty_in s (node_tty s j) @ take PTY_BUF d)"
    "p_info s' = (p_info s)[j := (p_info s ! j)\<lparr>peer := p,
       peerlen := (if take PTY_BUF d = [] then 0 else sockaddr_len p)\<rparr>]"
    "tty_out s' = tty_out s" "uds_sent s' = uds_sent s" "p_epoll s' = p_epoll s"
proof (cases "uds_in s (node_uds s j)")
  case Nil
  with assms show ?thesis
    by (auto simp: handle_pty_event_def uds_recvfrom_def split: if_splits)
next
  case (Cons pd ds)
  obtain p d where pd: "pd = (p, d)" by (cases pd)
  show ?thesis
    by (rule that [of p d ds])
      (use assms Cons pd in \<open>auto simp: handle_pty_event_def uds_recvfrom_def tty_write_def Let_def
         PTY_BUF_def split: if_splits\<close>)
qed

lemma terminal_event:
  assumes "handle_pty_event j True s = Ret (r, s')"
  obtains sent where "j < length (p_info s)" "tty_out s (node_tty s j) \<noteq> []"
    "tty_out s' = (tty_out s)(node_tty s j := drop PTY_BUF (tty_out s (node_tty s j)))"
    "uds_sent s' = uds_sent s @ sent"
    "sent = [] \<or> peerlen (p_info s ! j) \<noteq> 0 \<and>
       sent = [(node_uds s j, peer (p_info s ! j), take PTY_BUF (tty_out s (node_tty s j)))]"
    "p_info s' = p_info s" "uds_in s' = uds_in s" "tty_in s' = tty_in s" "p_epoll s' = p_epoll s"
  using assms
  by (auto simp: handle_pty_event_def tty_read_def uds_sendto_def Let_def split: if_splits)

section \<open>What the run of a node's terminal and socket keeps\<close>

text \<open>No other watched node has the descriptors of the node.\<close>

definition own_fds :: "ptys \<Rightarrow> nat \<Rightarrow> bool" where
  "own_fds s i \<longleftrightarrow> i < length (p_info s) \<and>
     (\<forall>(fd, ev) \<in> set (p_epoll s). event_node ev < length (p_info s) \<longrightarrow> event_node ev \<noteq> i \<longrightarrow>
        node_uds s (event_node ev) \<noteq> node_uds s i \<and> node_tty s (event_node ev) \<noteq> node_tty s i)"

fun sent_to :: "int \<Rightarrow> pty_label list \<Rightarrow> (string \<times> char list) list" where
  "sent_to fd [] = []"
| "sent_to fd (Sends fd' p d # ls) = (if fd' = fd then [(p, d)] else []) @ sent_to fd ls"
| "sent_to fd (Prints fd' d # ls) = sent_to fd ls"
| "sent_to fd (Handles ev # ls) = sent_to fd ls"

fun printed :: "int \<Rightarrow> pty_label list \<Rightarrow> char list" where
  "printed fd [] = []"
| "printed fd (Prints fd' d # ls) = (if fd' = fd then d else []) @ printed fd ls"
| "printed fd (Sends fd' p d # ls) = printed fd ls"
| "printed fd (Handles ev # ls) = printed fd ls"

lemma sent_to_append [simp]: "sent_to fd (ls @ ls') = sent_to fd ls @ sent_to fd ls'"
  by (induction fd ls rule: sent_to.induct) auto

lemma printed_append [simp]: "printed fd (ls @ ls') = printed fd ls @ printed fd ls'"
  by (induction fd ls rule: printed.induct) auto

text \<open>What a terminal is to get of a datagram: all of it, up to 1024 bytes.\<close>

definition chunks :: "(string \<times> char list) list \<Rightarrow> char list" where
  "chunks ds = concat (List.map (\<lambda>(p, d). if length d \<le> 1024 then d else take 1024 d) ds)"

lemma chunks_simps [simp]:
  "chunks [] = []" "chunks ((p, d) # ds) = take 1024 d @ chunks ds"
  "chunks (ds @ ds') = chunks ds @ chunks ds'"
  by (simp_all add: chunks_def)

lemma event_fds:
  assumes "pty_event ev s = Ret (r, s')"
  shows "length (p_info s') = length (p_info s) \<and> node_uds s' i = node_uds s i
     \<and> node_tty s' i = node_tty s i \<and> p_epoll s' = p_epoll s"
proof (cases "event_master ev")
  case True
  with assms show ?thesis unfolding pty_event_def by (auto elim: terminal_event)
next
  case False
  with assms show ?thesis
    unfolding pty_event_def by (auto elim!: datagram_event simp: nth_list_update)
qed

lemma run_fds:
  "pty_run s ls s' \<Longrightarrow> length (p_info s') = length (p_info s) \<and> node_uds s' i = node_uds s i
     \<and> node_tty s' i = node_tty s i \<and> p_epoll s' = p_epoll s"
proof (induction rule: pty_run.induct)
  case (step s ls s' l s'')
  from step.hyps(2) show ?case
    by (cases rule: pty_step.cases) (use step.IH event_fds [of _ s' _ s'' i] in auto)
qed simp

lemma own_fds_run: "pty_run s ls s' \<Longrightarrow> own_fds s i \<Longrightarrow> own_fds s' i"
  using run_fds [of s ls s'] by (auto simp: own_fds_def)

lemma own_fds_other:
  "own_fds s i \<Longrightarrow> ev \<in> snd ` set (p_epoll s) \<Longrightarrow> event_node ev < length (p_info s) \<Longrightarrow>
   event_node ev \<noteq> i \<Longrightarrow>
   node_uds s (event_node ev) \<noteq> node_uds s i \<and> node_tty s (event_node ev) \<noteq> node_tty s i"
  by (auto simp: own_fds_def)

definition relayed :: "int \<Rightarrow> int \<Rightarrow> ptys \<Rightarrow> (string \<times> char list) list \<Rightarrow> ptys \<Rightarrow> bool" where
  \<comment> \<open>of the datagrams \<open>ds\<close> some first ones have been given to the terminal, the rest waits\<close>
  "relayed u t s ds s' \<longleftrightarrow> (\<exists>n \<le> length ds. uds_in s' u = drop n ds \<and> tty_in s' t = tty_in s t @ chunks (take n ds))"

lemma relayed_trans:
  assumes "relayed u t s ds s1" "relayed u t s1 (uds_in s1 u @ es) s2"
  shows "relayed u t s (ds @ es) s2"
proof -
  obtain n m where n: "n \<le> length ds" "uds_in s1 u = drop n ds" "tty_in s1 t = tty_in s t @ chunks (take n ds)"
    and m: "m \<le> length (uds_in s1 u @ es)" "uds_in s2 u = drop m (uds_in s1 u @ es)"
      "tty_in s2 t = tty_in s1 t @ chunks (take m (uds_in s1 u @ es))"
    using assms unfolding relayed_def by blast
  have e: "uds_in s1 u @ es = drop n (ds @ es)" using n by simp
  have "n + m \<le> length (ds @ es)" using n m(1) by simp
  moreover have "uds_in s2 u = drop (n + m) (ds @ es)" using m(2) unfolding e drop_drop by (simp only: add.commute)
  moreover have "chunks (take (n + m) (ds @ es)) = chunks (take n ds) @ chunks (take m (drop n (ds @ es)))"
    using n(1) unfolding take_add by simp
  then have "tty_in s2 t = tty_in s t @ chunks (take (n + m) (ds @ es))" using n(3) m(3) unfolding e by simp
  ultimately show ?thesis unfolding relayed_def by blast
qed

lemma step_input:
  assumes "pty_step s l s'" "own_fds s i"
  shows "relayed (node_uds s i) (node_tty s i) s (uds_in s (node_uds s i) @ sent_to (node_uds s i) [l]) s'"
  using assms(1)
proof (cases rule: pty_step.cases)
  case (handles ev r)
  show ?thesis
  proof (cases "event_master ev")
    case True
    with handles(3) have "uds_in s' = uds_in s \<and> tty_in s' = tty_in s"
      unfolding pty_event_def by (auto elim: terminal_event)
    then show ?thesis unfolding relayed_def handles(1) by (intro exI [of _ 0]) simp
  next
    case False
    with handles(3) obtain p d ds where e: "event_node ev < length (p_info s)"
      "uds_in s (node_uds s (event_node ev)) = (p, d) # ds"
      "uds_in s' = (uds_in s)(node_uds s (event_node ev) := ds)"
      "tty_in s' = (tty_in s)(node_tty s (event_node ev) :=
         tty_in s (node_tty s (event_node ev)) @ take PTY_BUF d)"
      unfolding pty_event_def by (auto elim: datagram_event)
    show ?thesis
    proof (cases "event_node ev = i")
      case True
      with e show ?thesis
        unfolding relayed_def handles(1) by (intro exI [of _ 1]) (simp add: PTY_BUF_def)
    next
      case False
      with e own_fds_other [OF assms(2) handles(2) e(1)] show ?thesis
        unfolding relayed_def handles(1) by (intro exI [of _ 0]) simp
    qed
  qed
qed (auto simp: relayed_def)

text \<open>
  C20: A node's terminal gets what is sent to the node's socket: in every run of the relay
  thread, whatever the order in which nodes print, peers send and descriptors are handled,
  the datagrams that waited in the socket or were sent to it are, in the order they were
  sent, first those the terminal was given and then those that still wait, none missing and
  none from another node's socket (as long as no other watched node has the node's
  descriptors).  The terminal gets a datagram of up to 1024 bytes whole, of a longer one
  the first 1024 bytes; the rest is lost.
\<close>

theorem terminal_input_in_order:
  assumes "pty_run s ls s'" "own_fds s i"
    and "ds = uds_in s (node_uds s i) @ sent_to (node_uds s i) ls"
  shows "\<exists>n \<le> length ds. uds_in s' (node_uds s i) = drop n ds \<and>
    tty_in s' (node_tty s i) = tty_in s (node_tty s i) @
      concat (List.map (\<lambda>(p, d). if length d \<le> 1024 then d else take 1024 d) (take n ds))"
proof -
  have "relayed (node_uds s i) (node_tty s i) s (uds_in s (node_uds s i) @ sent_to (node_uds s i) ls) s'"
    using assms(1,2)
  proof (induction rule: pty_run.induct)
    case (step s ls s' l s'')
    from relayed_trans [OF step.IH [OF step.prems], of "sent_to (node_uds s i) [l]" s'']
      step_input [OF step.hyps(2) own_fds_run [OF step.hyps(1) step.prems]] run_fds [OF step.hyps(1), of i]
    show ?case by simp
  qed (auto simp: relayed_def)
  then show ?thesis by (simp add: relayed_def chunks_def assms(3))
qed

definition sent_from :: "int \<Rightarrow> (int \<times> string \<times> char list) list \<Rightarrow> char list" where
  "sent_from fd xs = concat (List.map (\<lambda>(f, p, d). if f = fd then d else []) xs)"

lemma sent_from_simps [simp]:
  "sent_from fd [] = []" "sent_from fd ((f, p, d) # xs) = (if f = fd then d else []) @ sent_from fd xs"
  "sent_from fd (xs @ ys) = sent_from fd xs @ sent_from fd ys"
  by (auto simp: sent_from_def)

text \<open>\<open>ps\<close>: who wrote to the node so far.  \<open>used\<close>: what the thread read from its terminal.\<close>

definition output_ok :: "nat \<Rightarrow> char list \<Rightarrow> string set \<Rightarrow> ptys \<Rightarrow> bool" where
  "output_ok i out ps s \<longleftrightarrow>
     (\<exists>used. out = used @ tty_out s (node_tty s i) \<and> subseq (sent_from (node_uds s i) (uds_sent s)) used)
     \<and> (\<forall>(fd, p, d) \<in> set (uds_sent s). fd = node_uds s i \<longrightarrow> p \<in> ps)
     \<and> (peerlen (p_info s ! i) \<noteq> 0 \<longrightarrow> peer (p_info s ! i) \<in> ps)
     \<and> fst ` set (uds_in s (node_uds s i)) \<subseteq> ps"

lemma output_ok_datagram:
  assumes "handle_pty_event j False s = Ret (r, s')" "output_ok i out ps s"
    and "j \<noteq> i \<longrightarrow> node_uds s j \<noteq> node_uds s i"
  shows "output_ok i out ps s'"
  using assms(1)
proof (rule datagram_event)
  fix p d ds
  assume *: "j < length (p_info s)" "uds_in s (node_uds s j) = (p, d) # ds"
    "uds_in s' = (uds_in s)(node_uds s j := ds)"
    "p_info s' = (p_info s)[j := (p_info s ! j)\<lparr>peer := p,
       peerlen := (if take PTY_BUF d = [] then 0 else sockaddr_len p)\<rparr>]"
    "tty_out s' = tty_out s" "uds_sent s' = uds_sent s"
  show ?thesis
  proof (cases "j = i")
    case True
    with * assms(2) show ?thesis by (auto simp: output_ok_def)
  next
    case False
    with * assms(2,3) show ?thesis by (simp add: output_ok_def)
  qed
qed

lemma output_ok_terminal:
  assumes "handle_pty_event j True s = Ret (r, s')" "output_ok i out ps s"
    and "j \<noteq> i \<longrightarrow> node_uds s j \<noteq> node_uds s i \<and> node_tty s j \<noteq> node_tty s i"
  shows "output_ok i out ps s'"
  using assms(1)
proof (rule terminal_event)
  fix sent
  let ?o = "tty_out s (node_tty s j)"
  assume *: "tty_out s' = (tty_out s)(node_tty s j := drop PTY_BUF ?o)"
    "uds_sent s' = uds_sent s @ sent"
    "sent = [] \<or> peerlen (p_info s ! j) \<noteq> 0 \<and>
       sent = [(node_uds s j, peer (p_info s ! j), take PTY_BUF ?o)]"
    "p_info s' = p_info s" "uds_in s' = uds_in s"
  obtain used where u: "out = used @ tty_out s (node_tty s i)"
    "subseq (sent_from (node_uds s i) (uds_sent s)) used"
    using assms(2) by (auto simp: output_ok_def)
  have "\<exists>used'. out = used' @ tty_out s' (node_tty s i)
      \<and> subseq (sent_from (node_uds s i) (uds_sent s')) used'"
  proof (cases "j = i")
    case True
    have "subseq (sent_from (node_uds s i) sent) (take PTY_BUF ?o)" using *(3) by auto
    with u(2) have "subseq (sent_from (node_uds s i) (uds_sent s')) (used @ take PTY_BUF ?o)"
      by (simp add: *(2) list_emb_append_mono)
    moreover have "out = (used @ take PTY_BUF ?o) @ tty_out s' (node_tty s i)"
      using u(1) True by (simp add: *(1))
    ultimately show ?thesis by blast
  next
    case False
    then have "sent_from (node_uds s i) sent = []" "tty_out s' (node_tty s i) = tty_out s (node_tty s i)"
      using *(1,3) assms(3) by auto
    with u show ?thesis by (auto simp: *(2))
  qed
  moreover have "\<forall>(fd, p, d) \<in> set sent. fd = node_uds s i \<longrightarrow> p \<in> ps"
    using *(3) assms(2,3) by (cases "j = i") (auto simp: output_ok_def)
  ultimately show ?thesis
    using assms(2) * by (auto simp: output_ok_def)
qed

lemma output_ok_mono: "output_ok i out ps s \<Longrightarrow> ps \<subseteq> qs \<Longrightarrow> output_ok i out qs s"
  unfolding output_ok_def by blast

lemma step_output:
  assumes "pty_step s l s'" "own_fds s i" "output_ok i out ps s"
  shows "output_ok i (out @ printed (node_tty s i) [l]) (ps \<union> fst ` set (sent_to (node_uds s i) [l])) s'"
  using assms(1)
proof (cases rule: pty_step.cases)
  case (handles ev r)
  have "event_node ev < length (p_info s)"
    using handles(3) by (cases "event_master ev")
      (auto simp: pty_event_def elim: terminal_event datagram_event)
  then have "event_node ev \<noteq> i \<longrightarrow> node_uds s (event_node ev) \<noteq> node_uds s i
      \<and> node_tty s (event_node ev) \<noteq> node_tty s i"
    using own_fds_other [OF assms(2) handles(2)] by blast
  with handles(1,3) assms(3) show ?thesis
    by (cases "event_master ev") (auto simp: pty_event_def intro: output_ok_datagram output_ok_terminal)
next
  case (prints fd d)
  with assms(3) show ?thesis by (auto simp: output_ok_def)
next
  case (sends fd p d)
  with assms(3) show ?thesis by (auto simp: output_ok_def)
qed

text \<open>
  C21: What a node prints only goes to those who wrote to it: starting with no peer and empty
  sockets, whatever the order of events, every datagram sent from a node's socket has the
  address of a peer that has sent to this socket, and all of them together hold a part, in
  order, of what this node's own terminal printed and the thread has read.
\<close>

theorem terminal_output_to_own_peers:
  assumes "pty_run s ls s'" "own_fds s i"
    and "uds_sent s = []" "peerlen (p_info s ! i) = 0" "uds_in s (node_uds s i) = []"
  shows "(\<forall>(fd, p, d) \<in> set (uds_sent s'). fd = node_uds s i \<longrightarrow> p \<in> fst ` set (sent_to (node_uds s i) ls))
    \<and> (\<exists>used. tty_out s (node_tty s i) @ printed (node_tty s i) ls = used @ tty_out s' (node_tty s i)
         \<and> subseq (sent_from (node_uds s i) (uds_sent s')) used)"
proof -
  have "output_ok i (tty_out s (node_tty s i) @ printed (node_tty s i) ls)
      (fst ` set (sent_to (node_uds s i) ls)) s'"
    using assms
  proof (induction rule: pty_run.induct)
    case (idle s)
    then show ?case by (auto simp: output_ok_def)
  next
    case (step s ls s' l s'')
    from step_output [OF step.hyps(2) own_fds_run [OF step.hyps(1) step.prems(1)] step.IH [OF step.prems]]
      run_fds [OF step.hyps(1), of i]
    show ?case by (simp add: image_Un)
  qed
  with run_fds [OF assms(1), of i] show ?thesis by (simp add: output_ok_def)
qed

section \<open>A run of two nodes\<close>

definition demo_info :: "int \<Rightarrow> pty_info" where
  "demo_info i = \<lparr>pid = 100 + i, master = 10 + i, uds_fd = 20 + i, peer = [], peerlen = 0\<rparr>"

definition demo_pty :: ptys where
  "demo_pty = \<lparr>p_info = [demo_info 0, demo_info 1], g_pty_epollfd = 5,
     p_epoll = [(20, event_data 0 False), (10, event_data 0 True),
                (21, event_data 1 False), (11, event_data 1 True)],
     tty_out = (\<lambda>_. []), tty_in = (\<lambda>_. []), hung = (\<lambda>_. False), uds_in = (\<lambda>_. []),
     uds_sent = [], peer_up = (\<lambda>_. True), uds_name = (\<lambda>_. None)\<rparr>"

definition demo_labels :: "pty_label list" where
  "demo_labels = [Sends 21 ''c'' ''ls'', Prints 11 ''ok'', Handles (event_data 1 False),
                  Handles (event_data 1 True)]"

definition demo_after :: ptys where
  "demo_after = demo_pty\<lparr>
     p_info := [demo_info 0, (demo_info 1)\<lparr>peer := ''c'', peerlen := 4\<rparr>],
     tty_out := (\<lambda>_. [])(11 := []), tty_in := (\<lambda>_. [])(11 := ''ls''), uds_in := (\<lambda>_. [])(21 := []),
     uds_sent := [(21, ''c'', ''ok'')]\<rparr>"

lemma demo_events [simp]:
  "event_node (event_data 1 b) = 1" "event_master (event_data 1 b) = b"
  "event_node (event_data 0 b) = 0" "event_master (event_data 0 b) = b"
  using event_data_roundtrip [of 1 b] event_data_roundtrip [of 0 b] by simp_all

lemma demo_run: "pty_run demo_pty demo_labels demo_after"
proof -
  let ?s1 = "demo_pty\<lparr>uds_in := (uds_in demo_pty)(21 := uds_in demo_pty 21 @ [(''c'', ''ls'')])\<rparr>"
  let ?s2 = "?s1\<lparr>tty_out := (tty_out ?s1)(11 := tty_out ?s1 11 @ ''ok'')\<rparr>"
  let ?s3 = "?s2\<lparr>p_info := [demo_info 0, (demo_info 1)\<lparr>peer := ''c'', peerlen := 4\<rparr>],
                 tty_in := (\<lambda>_. [])(11 := ''ls''), uds_in := (\<lambda>_. [])(21 := [])\<rparr>"
  have "pty_event (event_data 1 False) ?s2 = Ret (SUCCESS, ?s3)"
    by (simp add: pty_event_def handle_pty_event_def uds_recvfrom_def tty_write_def sockaddr_len_def
        demo_pty_def demo_info_def PTY_BUF_def)
  from pty_step.handles [OF _ this] have h1: "pty_step ?s2 (Handles (event_data 1 False)) ?s3"
    by (simp add: demo_pty_def)
  have "pty_event (event_data 1 True) ?s3 = Ret (SUCCESS, demo_after)"
    by (simp add: pty_event_def handle_pty_event_def tty_read_def uds_sendto_def
        demo_pty_def demo_info_def demo_after_def PTY_BUF_def)
  from pty_step.handles [OF _ this] have h2: "pty_step ?s3 (Handles (event_data 1 True)) demo_after"
    by (simp add: demo_pty_def)
  have "pty_run demo_pty (((([] @ [Sends 21 ''c'' ''ls'']) @ [Prints 11 ''ok''])
      @ [Handles (event_data 1 False)]) @ [Handles (event_data 1 True)]) demo_after"
    by (rule pty_run.step [OF pty_run.step [OF pty_run.step [OF pty_run.step [OF pty_run.idle
          pty_step.sends] pty_step.prints] h1] h2])
  then show ?thesis by (simp add: demo_labels_def)
qed

lemma demo_own: "own_fds demo_pty 1"
  by (auto simp: own_fds_def demo_pty_def demo_info_def)

lemma terminal_input_in_order_witness:
  "\<exists>n \<le> length [(''c'', ''ls'')]. uds_in demo_after 21 = drop n [(''c'', ''ls'')] \<and>
    tty_in demo_after 11 = concat (List.map (\<lambda>(p, d). if length d \<le> 1024 then d else take 1024 d) (take n [(''c'', ''ls'')]))"
proof -
  have "[(''c'', ''ls'')] = uds_in demo_pty (node_uds demo_pty 1) @ sent_to (node_uds demo_pty 1) demo_labels"
    "node_uds demo_pty 1 = 21" "node_tty demo_pty 1 = 11" "tty_in demo_pty 11 = []"
    by (simp_all add: demo_pty_def demo_info_def demo_labels_def)
  with terminal_input_in_order [OF demo_run demo_own this(1)] show ?thesis by (simp only: append_Nil)
qed

lemma terminal_output_to_own_peers_witness:
  "fst (snd (uds_sent demo_after ! 0)) \<in> {''c''}
   \<and> (\<exists>used. ''ok'' = used @ tty_out demo_after 11 \<and> subseq (sent_from 21 (uds_sent demo_after)) used)"
proof -
  have "uds_sent demo_pty = []" "peerlen (p_info demo_pty ! 1) = 0" "uds_in demo_pty (node_uds demo_pty 1) = []"
    by (simp_all add: demo_pty_def demo_info_def)
  from terminal_output_to_own_peers [OF demo_run demo_own this] show ?thesis
    by (simp add: demo_pty_def demo_info_def demo_after_def demo_labels_def)
qed

section \<open>The sockets' names\<close>

lemma length_hex4: "0 \<le> i \<Longrightarrow> i < 2 ^ 16 \<Longrightarrow> length (hex_pad 4 (nat (i mod 2 ^ 32))) = 4"
  using length_to_base [of 16 "nat i" 4] by (simp add: hex_pad_def pad0_def nat_less_iff)

lemma uds_path_eq:
  "uds_get_path (Some d) (Some p) i SUN_PATH
   = take 107 ((d @ ''/'' @ p @ ''_'') @ hex_pad 4 (nat (i mod 2 ^ 32)) @ ''.unixsock'')"
  by (simp add: uds_get_path_def snprintf_text_def SUN_PATH_def)

lemma uds_path_prefix:
  assumes "length d + length p + 2 \<ge> 107"
  shows "uds_get_path (Some d) (Some p) i SUN_PATH = take 107 (d @ ''/'' @ p @ ''_'')"
proof -
  have "107 \<le> length xs \<Longrightarrow> take 107 (xs @ ys) = take 107 xs" for xs ys :: "char list" by simp
  note cut = this
  show ?thesis unfolding uds_path_eq by (rule cut) (use assms in simp)
qed

lemma uds_path_inject:
  assumes "length d + length p + 6 \<le> 107" "0 \<le> i" "i < 2 ^ 16" "0 \<le> j" "j < 2 ^ 16"
  shows "uds_get_path (Some d) (Some p) i SUN_PATH = uds_get_path (Some d) (Some p) j SUN_PATH \<longleftrightarrow> i = j"
proof
  let ?h = "\<lambda>i. hex_pad 4 (nat (i mod 2 ^ 32))"
  assume eq: "uds_get_path (Some d) (Some p) i SUN_PATH = uds_get_path (Some d) (Some p) j SUN_PATH"
  have pre: "take (length d + length p + 6) (uds_get_path (Some d) (Some p) k SUN_PATH)
      = d @ ''/'' @ p @ ''_'' @ ?h k" if "0 \<le> k" "k < 2 ^ 16" for k
  proof -
    have "take (length xs + 4) (take 107 (xs @ ys @ zs)) = xs @ ys"
      if "length ys = 4" "length xs + 4 \<le> 107" for xs ys zs :: "char list"
      using that by (simp add: min_def)
    from this [OF length_hex4 [OF that], of "d @ ''/'' @ p @ ''_''" "''.unixsock''"] assms(1)
    show ?thesis unfolding uds_path_eq by (simp add: add.commute)
  qed
  with eq pre [OF assms(2,3)] pre [OF assms(4,5)] have "?h i = ?h j" by simp
  with assms show "i = j" by (simp add: hex_pad_inject)
qed simp

text \<open>
  The sockets of two nodes have different names, and both stay bound, as long as log
  directory and port leave room for the four digits of the node id in the 108 bytes of
  the address; when they do not, all nodes get the same cut-off name, and opening a second
  node's socket takes the name away from the first.
\<close>

theorem node_sockets_named_apart:
  assumes "0 \<le> i" "i < 2 ^ 16" "0 \<le> j" "j < 2 ^ 16" "i \<noteq> j" "fi \<noteq> -1" "fj \<noteq> -1" "\<forall>p. dir_ok p"
    and "uds_open (Some d) (Some port) dir_ok fi i s = (ri, s1)"
    and "uds_open (Some d) (Some port) dir_ok fj j s1 = (rj, s2)"
    and "path = (\<lambda>i. uds_get_path (Some d) (Some port) i SUN_PATH)"
  shows "ri = fi \<and> rj = fj \<and> uds_name s2 (path j) = Some fj
    \<and> (length d + length port \<le> 101 \<longrightarrow> path i \<noteq> path j \<and> uds_name s2 (path i) = Some fi)
    \<and> (length d + length port \<ge> 105 \<longrightarrow> path i = path j \<and> uds_name s2 (path i) = Some fj)"
proof -
  have s: "ri = fi" "rj = fj" "uds_name s2 = (uds_name s)(path i := Some fi, path j := Some fj)"
    using assms(6-11) by (auto simp: uds_open_def Let_def)
  moreover have "length d + length port \<le> 101 \<Longrightarrow> path i \<noteq> path j"
    using uds_path_inject [of d port i j] assms(1-5) unfolding assms(11) by simp
  moreover have "length d + length port \<ge> 105 \<Longrightarrow> path i = path j"
    by (simp add: assms(11) uds_path_prefix)
  ultimately show ?thesis by auto
qed

lemma node_sockets_named_apart_witness:
  "uds_name (snd (uds_open (Some ''log'') (Some ''24377'') (\<lambda>_. True) 21 1
     (snd (uds_open (Some ''log'') (Some ''24377'') (\<lambda>_. True) 20 0 demo_pty))))
     ''log/24377_0000.unixsock'' = Some 20"
proof -
  let ?o = "uds_open (Some ''log'') (Some ''24377'') (\<lambda>_. True)"
  have p: "uds_get_path (Some ''log'') (Some ''24377'') 0 SUN_PATH = ''log/24377_0000.unixsock''"
    by code_simp
  have "?o 20 0 demo_pty = (fst (?o 20 0 demo_pty), snd (?o 20 0 demo_pty))"
    "?o 21 1 (snd (?o 20 0 demo_pty)) = (fst (?o 21 1 (snd (?o 20 0 demo_pty))), snd (?o 21 1 (snd (?o 20 0 demo_pty))))"
    by simp_all
  from node_sockets_named_apart [OF _ _ _ _ _ _ _ _ this refl] p show ?thesis by simp
qed

text \<open>
  The 32 bits registered with a descriptor give back the node and the kind of descriptor
  for every node id below \<open>2 ^ 31\<close>, and a second registration of a descriptor is refused.
\<close>

theorem registered_event_decodes:
  assumes "0 \<le> i" "i < 2 ^ 31" "pty_add_fd i fd b s = (SUCCESS, s')"
  shows "(\<exists>ev. p_epoll s' = p_epoll s @ [(fd, ev)] \<and> event_node ev = nat i \<and> event_master ev = b)
    \<and> pty_add_fd j fd b' s' = (FAILURE, s')"
  using assms event_data_roundtrip [OF assms(1,2)]
  by (auto simp: pty_add_fd_def split: if_splits)

end
