(* ===== verification/Process_Start.thy ===== *)
theory Process_Start
  imports Monitor Pty_Handler
begin

text \<open>
  How the processes come up: \<open>main\<close> of \<open>airline/main.cc\<close> with the forker it forks, \<open>main\<close> of
  \<open>utils/forker.c\<close>, the UDP socket and the thread of \<open>utils/monitor.c\<close>, and the client
  \<open>utils/udp_cmd.c\<close>.  The results of \<open>fork\<close>, \<open>execv\<close>, \<open>epoll_create1\<close> and \<open>pthread_create\<close> are
  parameters, and so is the environment.
\<close>

section \<open>The port of the monitor\<close>

text \<open>UDP sockets are sockets of the kernel with the name of a port; \<open>bind\<close> to port 0 picks one.\<close>

record net =
  free_port :: nat
  may_bind :: "nat \<Rightarrow> bool"

definition udp_name :: "nat \<Rightarrow> string" where "udp_name p = ''udp:'' @ dec_nat p"

definition bind_port :: "net \<Rightarrow> int \<Rightarrow> int \<Rightarrow> kernel \<Rightarrow> int \<times> kernel" where
  "bind_port net fd portno k =
     (let p = nat (portno mod 65536); q = (if p = 0 then free_port net else p)
      in if may_bind net q then sys_bind fd (udp_name q) k else (-1, k))"

definition start_udp_server :: "net \<Rightarrow> int \<Rightarrow> kernel \<Rightarrow> int \<times> kernel" where
  "start_udp_server net portno k =
     (let (fd, k1) = sys_socket k
      in if fd < 0 then (FAILURE, k1)
         else let (r, k2) = bind_port net fd portno k1
              in if r < 0 then (FAILURE, if fd > 0 then sys_close fd k2 else k2) else (fd, k2))"

record monitor =
  gMonitorFD :: int
  m_serves :: bool

definition monitor_start :: monitor where "monitor_start = \<lparr>gMonitorFD = -1, m_serves = False\<rparr>"

text \<open>\<open>created\<close> is what \<open>pthread_create\<close> returns: 0, or a positive error number.\<close>

definition start_monitor_thread :: "net \<Rightarrow> string option \<Rightarrow> int \<Rightarrow> monitor \<Rightarrow> kernel \<Rightarrow> int \<times> monitor \<times> kernel" where
  "start_monitor_thread net port created m k = (case port of
     None \<Rightarrow> (FAILURE, m, k)
   | Some p \<Rightarrow>
       let (fd, k1) = start_udp_server net (atoi p) k; m1 = m\<lparr>gMonitorFD := fd\<rparr>
       in if fd < 0 then (FAILURE, m1, k1)
          else if created < 0 then let (fd1, k2) = CLOSE fd k1 in (FAILURE, m1\<lparr>gMonitorFD := fd1\<rparr>, k2)
          else (SUCCESS, m1\<lparr>m_serves := (created = 0)\<rparr>, k1))"

section \<open>The forker\<close>

record forker_env =
  f_os :: os
  f_net :: net
  f_port :: "string option"
  f_epoll :: int
  f_pty_created :: int
  f_mon_created :: int

record forker_proc =
  f_usock :: usock
  f_ptys :: ptys
  f_monitor :: monitor

text \<open>\<open>main\<close> up to the loop: the status it returns with, or the state the loop starts in.\<close>

definition forker_setup :: "u32 \<Rightarrow> forker_env \<Rightarrow> ptys \<Rightarrow> kernel \<Rightarrow> (int + forker_proc) \<times> kernel" where
  "forker_setup uid e ps k =
     (let (r, u, k1) = cl_init uid (MTYPE FORKER CL_MGR_ID) usock_start k
      in if r \<noteq> SUCCESS then (Inl 1, k1)
         else let (r, u1, k2) = cl_bind uid (MTYPE MONITOR CL_MGR_ID) u k1
         in if r \<noteq> SUCCESS then (Inl 1, k2)
         else let (r, ps1) = start_pty_thread (f_epoll e) (f_pty_created e) ps
         in if r \<noteq> SUCCESS then (Inl 1, k2)
         else let (r, m, k3) = start_monitor_thread (f_net e) (f_port e) (f_mon_created e) monitor_start k2
         in if r \<noteq> SUCCESS then (Inl 1, k3)
            else (Inr \<lparr>f_usock = u1, f_ptys = ps1, f_monitor = m\<rparr>, k3))"

text \<open>
  The log file of the forker, and its exit status and children when it has ended, or its children
  while it runs; \<open>stk\<close> is the uninitialised buffer.
\<close>

definition forker_main ::
  "nat \<Rightarrow> u32 \<Rightarrow> forker_env \<Rightarrow> ptys \<Rightarrow> msg_buf \<Rightarrow> kernel
   \<Rightarrow> (string \<times> (int \<times> forker \<times> kernel, forker \<times> kernel) loop) outcome" where
  "forker_main n uid e ps stk k =
     (let log = redirect_stdout_to_log (f_os e) (-1)
      in case forker_setup uid e ps k of
           (Inl status, k1) \<Rightarrow> Ret (log, Done (status, forker_start, k1))
         | (Inr p, k1) \<Rightarrow>
             bindo (wait_on_q n (f_os e) (f_usock p) stk forker_start k1) (\<lambda>l. Ret (log, map_loop (Pair 0) id l)))"

section \<open>The airline process\<close>

definition sig_handler :: "int \<Rightarrow> usock \<Rightarrow> kernel \<Rightarrow> int \<times> kernel" where
  \<comment> \<open>the exit status\<close>
  "sig_handler signum u k = (signum, snd (cl_cleanup u k))"

text \<open>\<open>frk\<close> is what \<open>fork\<close> returns to the airline; the child is asked to die with its parent.\<close>

datatype child = No_Child | Runs string | Dies int

definition exec_forker :: "string option \<Rightarrow> int \<Rightarrow> (string \<Rightarrow> bool) \<Rightarrow> int + child" where
  "exec_forker var frk exec_ok = (case var of
     None \<Rightarrow> Inl 1
   | Some cmd \<Rightarrow> Inr (if frk < 0 then No_Child else if exec_ok cmd then Runs cmd else Dies 1))"

text \<open>
  The whole \<open>main\<close>: it has exited, or the simulator runs.  What the network set-up throws is
  caught by \<open>startManager\<close>, whose result nobody looks at; nothing is sent before it.  \<open>sigchld\<close> says
  that the child, if there is one, ends while the network is set up; the signal is taken at the start
  of the set-up, so start messages that a set-up may send before a later signal are not represented.
\<close>

datatype airline_run = Stopped int kernel | Simulating child airline usock kernel

definition airline_process ::
  "world \<Rightarrow> (string \<Rightarrow> string option) \<Rightarrow> nat \<Rightarrow> string list \<Rightarrow> int + child \<Rightarrow> bool \<Rightarrow> (config \<Rightarrow> airline) \<Rightarrow> msg_buf \<Rightarrow> kernel
   \<Rightarrow> airline_run outcome" where
  "airline_process w fs n args forked sigchld fresh stk k =
     bindo (airline_main (w_uid w) fs n args (\<not> isl forked) k) (\<lambda>st. case st of
       Exited status k1 \<Rightarrow> Ret (Stopped status k1)
     | Running c u k1 \<Rightarrow>
         let leave = (\<lambda>signum k2. case sig_handler signum u k2 of (status, k3) \<Rightarrow> Ret (Stopped status k3))
         in if sigchld \<and> projr forked \<noteq> No_Child then leave 17 k1
            else (case startNetwork w stk u (fresh c) k1 of
               Ret (r, s, k2) \<Rightarrow> if r = SUCCESS then Ret (Simulating (projr forked) s u k2) else leave 0 k2
             | Fault Exception \<Rightarrow> leave 0 k1
             | Fault e \<Rightarrow> Fault e
             | Blocked \<Rightarrow> Blocked))"

text \<open>\<open>SIGCHLD\<close> is handled later, too: a forker that ends takes the airline with it.\<close>

definition child_ended :: "airline_run \<Rightarrow> airline_run" where
  "child_ended a = (case a of Stopped status k \<Rightarrow> Stopped status k
     | Simulating c s u k \<Rightarrow> (case sig_handler 17 u k of (status, k1) \<Rightarrow> Stopped status k1))"

section \<open>The client\<close>

text \<open>
  The exit status and the output.  \<open>send\<close> takes a host, a port and a text to the datagrams that
  come back before the time-out, or to an error of \<open>socket\<close> or \<open>sendto\<close>.
\<close>

definition udp_cmd_main ::
  "(string \<Rightarrow> bool) \<Rightarrow> (string \<Rightarrow> nat \<Rightarrow> string \<Rightarrow> char list list option) \<Rightarrow> string list \<Rightarrow> int \<times> string" where
  "udp_cmd_main host_known send argv =
     (if length argv < 4 then (1, [])
      else if \<not> host_known (argv ! 1) then (1, [])
      else case send (argv ! 1) (nat (atoi (argv ! 2) mod 65536)) (argv ! 3) of
             None \<Rightarrow> (1, [])
           | Some ds \<Rightarrow> (0, client_output ds))"

section \<open>The sockets at the end of the start\<close>

definition free_address :: "u32 \<Rightarrow> kernel \<Rightarrow> address \<Rightarrow> bool" where
  "free_address uid k a \<longleftrightarrow> (\<forall>fd. k_name k fd \<noteq> Some (usock_setabsaddr uid (mt a)))"

text \<open>A new socket with a name.\<close>

definition new_socket :: "string \<Rightarrow> kernel \<Rightarrow> kernel" where
  "new_socket nm k = k\<lparr>k_open := k_next k # k_open k, k_next := k_next k + 1, k_queue := (k_queue k)(k_next k := []),
     k_name := (k_name k)(k_next k := Some nm)\<rparr>"

lemma new_socket_fields [simp]:
  "k_open (new_socket nm k) = k_next k # k_open k" "k_next (new_socket nm k) = k_next k + 1"
  "k_queue (new_socket nm k) = (k_queue k)(k_next k := [])" "k_limit (new_socket nm k) = k_limit k"
  "k_name (new_socket nm k) fd = (if fd = k_next k then Some nm else k_name k fd)"
  by (simp_all add: new_socket_def)

lemma new_socket_ok: "kernel_ok k \<Longrightarrow> \<forall>fd. k_name k fd \<noteq> Some nm \<Longrightarrow> kernel_ok (new_socket nm k)"
  by (auto simp: kernel_ok_def split: if_splits)

lemma udp_name_apart: "udp_name q \<noteq> usock_setabsaddr uid (mt a)"
proof -
  have "mt a mod 18446744073709551616 = mt a" "0 \<le> mt a" "mt a < 16 ^ 8"
    using MTYPE_range [of "fst a" "snd a"] by simp_all
  then show ?thesis by (simp add: udp_name_def usock_name)
qed

text \<open>A process takes one more address that is free.\<close>

lemma take_address:
  assumes "kernel_ok k" "k_next k < k_limit k" "free_address uid k a"
    and "u1 = (let v = u\<lparr>g_usock_fd := (g_usock_fd u)[nat (line_no (fst a)) := k_next k]\<rparr>
        in if g_def_line u < 0 then v\<lparr>g_def_line := line_no (fst a)\<rparr> else v)"
    and "k1 = new_socket (usock_setabsaddr uid (mt a)) k"
  shows "cl_init uid (mt a) u k = (SUCCESS, u1, k1)" "cl_bind uid (mt a) u k = (SUCCESS, u1, k1)"
    "kernel_ok k1" "b \<noteq> a \<Longrightarrow> free_address uid k1 b = free_address uid k b"
    "k_next k1 = k_next k + 1" "k_limit k1 = k_limit k"
proof -
  show i: "cl_init uid (mt a) u k = (SUCCESS, u1, k1)" "cl_bind uid (mt a) u k = (SUCCESS, u1, k1)"
    unfolding cl_init_def cl_bind_def assms(4,5) new_socket_def
    by (rule init_free_name [OF assms(1,2) assms(3) [unfolded free_address_def]])+
  show "kernel_ok k1" using kernel_ok_init [OF assms(1), of uid "mt a" u] i(1) by (simp add: cl_init_def)
  have "k_name k (k_next k) = None" using kernel_ok_named [OF assms(1), of "k_next k"] by (cases "k_name k (k_next k)") auto
  moreover have "k_name k1 fd = (if fd = k_next k then Some (usock_setabsaddr uid (mt a)) else k_name k fd)" for fd
    unfolding assms(5) by simp
  moreover have "b \<noteq> a \<Longrightarrow> usock_setabsaddr uid (mt a) \<noteq> usock_setabsaddr uid (mt b)"
    by (auto simp: usock_name_inject prod_eq_iff)
  ultimately show "b \<noteq> a \<Longrightarrow> free_address uid k1 b = free_address uid k b"
    unfolding free_address_def by (metis option.distinct(1) option.inject)
qed (simp_all add: assms(5))

lemma udp_server_started:
  assumes "kernel_ok k" "k_next k < k_limit k" "q = nat (portno mod 65536)" "0 < q" "may_bind net q"
    and "\<forall>fd. k_name k fd \<noteq> Some (udp_name q)"
  shows "start_udp_server net portno k = (k_next k, new_socket (udp_name q) k)"
proof -
  let ?k1 = "snd (sys_socket k)"
  have k1: "kernel_ok ?k1" "k_name ?k1 = k_name k"
    using kernel_ok_socket [OF assms(1)] by (auto simp: sys_socket_def)
  with assms(6) have "name_fd ?k1 (udp_name q) = None" by (simp add: name_fd_None)
  moreover have "k_name k (k_next k) = None" "3 \<le> k_next k"
    using assms(1) kernel_ok_named [of k "k_next k"] by (auto simp: kernel_ok_def)
  ultimately show ?thesis
    using assms(2-5) by (simp add: start_udp_server_def bind_port_def Let_def sys_socket_def sys_bind_def new_socket_def)
qed

text \<open>The forker on a machine where its addresses and the port are free.\<close>

definition port_free :: "forker_env \<Rightarrow> kernel \<Rightarrow> nat \<Rightarrow> bool" where
  "port_free e k q \<longleftrightarrow> (\<exists>p. f_port e = Some p \<and> q = nat (atoi p mod 65536)) \<and> 0 < q \<and> may_bind (f_net e) q \<and>
     (\<forall>fd. k_name k fd \<noteq> Some (udp_name q))"

definition threads_start :: "forker_env \<Rightarrow> bool" where
  "threads_start e \<longleftrightarrow> 0 \<le> f_epoll e \<and> f_pty_created e = 0 \<and> f_mon_created e = 0"

lemma forker_up:
  assumes "kernel_ok k" "k_next k + 2 < k_limit k" "free_address uid k forker_q" "free_address uid k monitor_q"
    and "port_free e k q" "threads_start e"
    and "u = \<lparr>g_usock_fd = [-1, 0, 0, k_next k, k_next k + 1], g_def_line = 3\<rparr>"
    and "k2 = new_socket (usock_setabsaddr uid (mt monitor_q)) (new_socket (usock_setabsaddr uid (mt forker_q)) k)"
  shows "forker_setup uid e ps k = (Inr \<lparr>f_usock = u, f_ptys = ps\<lparr>g_pty_epollfd := f_epoll e\<rparr>,
      f_monitor = \<lparr>gMonitorFD = k_next k + 2, m_serves = True\<rparr>\<rparr>, new_socket (udp_name q) k2)"
    and "kernel_ok (new_socket (udp_name q) k2)"
proof -
  obtain p where p: "f_port e = Some p" "q = nat (atoi p mod 65536)" "0 < q" "may_bind (f_net e) q"
    "\<forall>fd. k_name k fd \<noteq> Some (udp_name q)" using assms(5) by (auto simp: port_free_def)
  define u1 where "u1 = \<lparr>g_usock_fd = [-1, 0, 0, k_next k, 0], g_def_line = 3\<rparr>"
  define k1 where "k1 = new_socket (usock_setabsaddr uid (mt forker_q)) k"
  have a1: "cl_init uid (mt forker_q) usock_start k = (SUCCESS, u1, k1)" "kernel_ok k1" "free_address uid k1 monitor_q"
    using take_address [where ?u1.0 = u1 and u = usock_start and ?k1.0 = k1, OF assms(1) _ assms(3)] assms(2,4)
    by (simp_all add: u1_def usock_start_eq k1_def)
  have a2: "cl_bind uid (mt monitor_q) u1 k1 = (SUCCESS, u, k2)" "kernel_ok k2"
    using take_address [where ?u1.0 = u and u = u1 and ?k1.0 = k2, OF a1(2) _ a1(3)] assms(2)
    by (simp_all add: u1_def assms(7,8) k1_def)
  have nm: "\<forall>fd. k_name k2 fd \<noteq> Some (udp_name q)"
    using p(5) udp_name_apart [of q uid forker_q] udp_name_apart [of q uid monitor_q] by (auto simp: assms(8))
  then have "start_udp_server (f_net e) (atoi p) k2 = (k_next k + 2, new_socket (udp_name q) k2)"
    using udp_server_started [OF a2(2) _ p(2-4)] assms(2) by (simp add: assms(8))
  moreover have "3 \<le> k_next k" using assms(1) by (simp add: kernel_ok_def)
  ultimately show "forker_setup uid e ps k = (Inr \<lparr>f_usock = u, f_ptys = ps\<lparr>g_pty_epollfd := f_epoll e\<rparr>,
      f_monitor = \<lparr>gMonitorFD = k_next k + 2, m_serves = True\<rparr>\<rparr>, new_socket (udp_name q) k2)"
    using a1(1) a2(1) p(1) assms(6)
    by (simp add: forker_setup_def start_pty_thread_def start_monitor_thread_def monitor_start_def threads_start_def Let_def)
  show "kernel_ok (new_socket (udp_name q) k2)" using new_socket_ok [OF a2(2) nm] .
qed

text \<open>
  C11: The start connects the processes: on a machine where the addresses of the user and the
  monitor's port are free, the airline and then the forker come up, and after that every socket
  the commands and the node starts travel over is open, bound, empty and reachable from the
  process that writes to it, and the monitor serves its port.
\<close>

theorem processes_connected:
  assumes "kernel_ok k" "k_next k + 3 < k_limit k" "\<forall>a. free_address uid k a" "port_free e k q" "threads_start e"
    and "2 \<le> length args" "setConfigurationFromFile n fs (args ! 1) new_config = Ret (SUCCESS, c)"
  shows "\<exists>ua k1 f k2 rcv. airline_main uid fs n args True k = Ret (Running c ua k1) \<and> forker_setup uid e ps k1 = (Inr f, k2) \<and>
    rcv = (\<lambda>a. if fst a = AIRLINE then ua else f_usock f) \<and>
    uopen uid (f_usock f) 2048 rcv k2 airline_q \<and> uopen uid ua 4096 rcv k2 monitor_q \<and> uopen uid ua 2048 rcv k2 forker_q \<and>
    k_queue k2 (rfd rcv airline_q) = [] \<and> k_queue k2 (rfd rcv monitor_q) = [] \<and> k_queue k2 (rfd rcv forker_q) = [] \<and>
    k_name k2 (gMonitorFD (f_monitor f)) = Some (udp_name q) \<and> m_serves (f_monitor f)"
proof -
  define ua where "ua = \<lparr>g_usock_fd = [-1, 0, k_next k, 0, 0], g_def_line = 2\<rparr>"
  define k1 where "k1 = new_socket (usock_setabsaddr uid (mt airline_q)) k"
  define um where "um = \<lparr>g_usock_fd = [-1, 0, 0, k_next k1, k_next k1 + 1], g_def_line = 3\<rparr>"
  define k3 where "k3 = new_socket (usock_setabsaddr uid (mt monitor_q)) (new_socket (usock_setabsaddr uid (mt forker_q)) k1)"
  have a1: "cl_init uid (mt airline_q) usock_start k = (SUCCESS, ua, k1)" "kernel_ok k1"
    "free_address uid k1 forker_q" "free_address uid k1 monitor_q"
    using take_address [where a = airline_q and ?u1.0 = ua and u = usock_start and ?k1.0 = k1, OF assms(1) _ assms(3) [rule_format]]
      assms(2,3) by (simp_all add: ua_def usock_start_eq k1_def)
  have "port_free e k1 q" using assms(4) udp_name_apart [of q uid airline_q] by (auto simp: port_free_def k1_def)
  note f = forker_up [OF a1(2) _ a1(3,4) this assms(5) um_def k3_def]
  let ?k4 = "new_socket (udp_name q) k3"
  let ?f = "\<lparr>f_usock = um, f_ptys = ps\<lparr>g_pty_epollfd := f_epoll e\<rparr>, f_monitor = \<lparr>gMonitorFD = k_next k1 + 2, m_serves = True\<rparr>\<rparr>"
  have "forker_setup uid e ps k1 = (Inr ?f, ?k4)" "kernel_ok ?k4" using f assms(2) by (simp_all add: k1_def)
  moreover have "airline_main uid fs n args True k = Ret (Running c ua k1)"
    using a1(1) assms(6,7) by (simp add: airline_main_def Let_def)
  moreover have "3 \<le> k_next k" using assms(1) by (simp add: kernel_ok_def)
  ultimately show ?thesis
    by - (rule exI [of _ ua], rule exI [of _ k1], rule exI [of _ ?f], rule exI [of _ ?k4],
        simp add: uopen_def ua_def um_def rfd_def usock_fd_def k3_def k1_def)
qed

definition demo_env :: forker_env where
  "demo_env = \<lparr>f_os = demo_os, f_net = \<lparr>free_port = 40000, may_bind = (\<lambda>_. True)\<rparr>, f_port = Some ''90'',
     f_epoll = 9, f_pty_created = 0, f_mon_created = 0\<rparr>"

lemma empty_file_loads: "setConfigurationFromFile 1 (\<lambda>_. Some []) f new_config = Ret (SUCCESS, new_config)"
  by (simp add: split_tokens.simps)

lemma free_start: "free_address uid (kernel_start l) a"
  by (simp add: free_address_def kernel_start_def)

lemma processes_connected_witness:
  "\<exists>ua k1 f k2 rcv. airline_main 0 (\<lambda>_. Some []) 1 [''airline'', ''config''] True (kernel_start 100) = Ret (Running new_config ua k1) \<and>
    forker_setup 0 demo_env demo_pty k1 = (Inr f, k2) \<and> rcv = (\<lambda>a. if fst a = AIRLINE then ua else f_usock f) \<and>
    uopen 0 (f_usock f) 2048 rcv k2 airline_q \<and> uopen 0 ua 4096 rcv k2 monitor_q \<and> uopen 0 ua 2048 rcv k2 forker_q \<and>
    k_name k2 (gMonitorFD (f_monitor f)) = Some ''udp:90''"
proof -
  have a: "atoi ''90'' = 90" by code_simp
  have u: "udp_name 90 = ''udp:90''" by code_simp
  have k: "k_next (kernel_start 100) + 3 < k_limit (kernel_start 100)" by (simp add: kernel_start_def)
  have e: "port_free demo_env (kernel_start 100) 90" "threads_start demo_env"
    by (simp_all add: port_free_def threads_start_def demo_env_def a kernel_start_def)
  have l: "setConfigurationFromFile 1 (\<lambda>_. Some []) ([''airline'', ''config''] ! 1) new_config = Ret (SUCCESS, new_config)"
    by (rule empty_file_loads)
  show ?thesis
    using processes_connected [OF kernel_ok_start k _ e _ l, of 0 demo_pty] free_start by (auto simp: u)
qed

section \<open>The order of the start\<close>

lemma send_unbound:
  assumes "uopen uid su cap rcv k b" "fits_buf m" "free_address uid k a"
  shows "cl_sendto_q uid (mt a) (Some m) (send_len m) su k = Ret (FAILURE, Some (m\<lparr>mb_mtype := word_of_int (mt a)\<rparr>), k)"
proof -
  have len: "16 + unat (mb_len m) \<le> length (mem m)" using assms(2) by (auto simp: fits_buf_def length_mem)
  have "name_fd k (usock_setabsaddr uid (mt a)) = None"
    using name_fd_None assms(1,3) by (auto simp: uopen_def free_address_def)
  moreover have "17 + uint (mb_len m) \<noteq> 0" using uint_u16_range(1) [of "mb_len m"] by linarith
  ultimately show ?thesis
    using assms(1,2) len by (auto simp: cl_sendto_q_def usock_sendto_def send_len_nonzero unat_send_len uopen_def sys_sendto_def Let_def)
qed

lemma spawns_unheard:
  assumes "length (buf stk) = 2049" "uopen uid su cap rcv k b" "free_address uid k forker_q"
  shows "\<forall>(i, ws) \<in> set ns. node_cmds c i ws \<and> valid_cmd i ws \<Longrightarrow> start_applications uid stk (List.map fst ns) c su k = Ret k"
proof (induction ns)
  case (Cons n ns)
  obtain i ws where n: "n = (i, ws)" by (cases n)
  have v: "node_cmds c i ws" "valid_cmd i ws" using Cons.prems by (auto simp: n)
  have "send_len (spawn_msg i (piped i ws) stk) = of_nat (length (piped i ws) + sizeof_msg_buf)"
    by (simp add: send_len_def spawn_msg_def add.commute)
  with send_unbound [OF assms(2) spawn_msg_fields(2) [OF v(2) assms(1)] assms(3)] v
  have "spawnStackline uid stk i c su k = Ret k"
    by (simp add: spawnStackline_def node_cmds_def cmdParser_words Let_def not_less)
  with Cons show ?case by (simp add: n)
qed simp

text \<open>What the later sockets leave of the earlier ones.\<close>

lemma init_success:
  assumes "usock_init uid (mt a) u k = (SUCCESS, u1, k1)" "kernel_ok k"
  shows "k_next k < k_limit k \<and> free_address uid k a"
proof -
  have l: "k_next k < k_limit k"
    using assms(1) by (auto simp: usock_init_def sys_socket_def Let_def split: if_splits)
  let ?k = "k\<lparr>k_open := k_next k # k_open k, k_next := k_next k + 1, k_queue := (k_queue k)(k_next k := [])\<rparr>"
  have "kernel_ok ?k" using kernel_ok_socket [OF assms(2)] l by (simp add: sys_socket_def)
  moreover have "name_fd ?k (usock_setabsaddr uid (mt a)) = None"
    using assms(1) l by (auto simp: usock_init_def sys_socket_def sys_bind_def Let_def split: if_splits prod.splits)
  ultimately have "\<forall>fd. k_name ?k fd \<noteq> Some (usock_setabsaddr uid (mt a))" by (simp only: name_fd_None) simp
  with l show ?thesis by (simp add: free_address_def)
qed

lemma udp_server_keeps:
  assumes "start_udp_server net portno k = (fd, k1)" "kernel_ok k" "x \<in> set (k_open k)"
  shows "x \<in> set (k_open k1) \<and> k_queue k1 x = k_queue k x"
proof -
  have "x \<noteq> k_next k" using assms(2,3) by (auto simp: kernel_ok_def)
  with assms(1,3) show ?thesis
    by (auto simp: start_udp_server_def sys_socket_def bind_port_def sys_bind_def sys_close_def Let_def
        split: if_splits prod.splits)
qed

text \<open>The forker's socket right after its start.\<close>

lemma setup_forker_queue:
  assumes "forker_setup uid e ps k = (Inr f, k1)" "kernel_ok k" "3 \<le> k_next k"
  shows "3 \<le> usock_fd (f_usock f) (mt forker_q) \<and> usock_fd (f_usock f) (mt forker_q) \<in> set (k_open k1) \<and>
    k_queue k1 (usock_fd (f_usock f) (mt forker_q)) = []"
proof -
  obtain u2 k2 where i: "cl_init uid (mt forker_q) usock_start k = (SUCCESS, u2, k2)"
    using assms(1) by (auto simp: forker_setup_def Let_def split: prod.splits if_splits)
  obtain u3 k3 where b: "cl_bind uid (mt monitor_q) u2 k2 = (SUCCESS, u3, k3)"
    using assms(1) i by (auto simp: forker_setup_def Let_def split: prod.splits if_splits)
  obtain r m where m: "start_monitor_thread (f_net e) (f_port e) (f_mon_created e) monitor_start k3 = (SUCCESS, m, k1)" "f_usock f = u3"
    using assms(1) i b by (auto simp: forker_setup_def Let_def split: prod.splits if_splits)
  note fi = init_success [OF i [unfolded cl_init_def] assms(2)]
  note ti = take_address [where u = usock_start, OF assms(2) fi [THEN conjunct1] fi [THEN conjunct2] refl refl]
  note fb = init_success [OF b [unfolded cl_bind_def]]
  have k2: "u2 = \<lparr>g_usock_fd = [-1, 0, 0, k_next k, 0], g_def_line = 3\<rparr>" "kernel_ok k2" "k_next k2 = k_next k + 1"
    "k_next k \<in> set (k_open k2)" "k_queue k2 (k_next k) = []"
    using ti(1,3,5) i by (auto simp: usock_start_eq)
  note fb = fb [OF k2(2)]
  note tb = take_address [where u = u2, OF k2(2) fb [THEN conjunct1] fb [THEN conjunct2] refl refl]
  have k3: "usock_fd u3 (mt forker_q) = k_next k" "kernel_ok k3" "k_next k \<in> set (k_open k3)" "k_queue k3 (k_next k) = []"
    using tb(2,3) b k2 by (auto simp: usock_fd_def)
  obtain p fd where fd: "start_udp_server (f_net e) (atoi p) k3 = (fd, k1)"
    using m(1) by (auto simp: start_monitor_thread_def Let_def split: option.splits prod.splits if_splits)
  from udp_server_keeps [OF fd k3(2,3)] k3 assms(3) m(2) show ?thesis by simp
qed

text \<open>
  C32: Nothing makes the airline wait for the forker: when its nodes start before the forker has bound
  its address, every start message is lost without an error.  The forker that comes up after that
  reads its queue in the first round, finds it empty and waits there, no process having been executed:
  none of the nodes is started by the messages of the set-up.
\<close>

theorem early_start_loses_nodes:
  assumes "length (buf stk) = 2049" "uopen uid su cap rcv k b" "free_address uid k forker_q"
    and "\<forall>(i, ws) \<in> set ns. node_cmds c i ws \<and> valid_cmd i ws"
    and "forker_setup uid e ps k = (Inr f, k1)"
  shows "start_applications uid stk (List.map fst ns) c su k = Ret k \<and>
    forker_main (Suc n) uid e ps DEFINE_MBUF k = Ret (redirect_stdout_to_log (f_os e) (-1), Waits (forker_start, k1)) \<and>
    k_queue k1 (usock_fd (f_usock f) (mt forker_q)) = [] \<and> execs forker_start = []"
proof -
  have k: "kernel_ok k" using assms(2) by (simp add: uopen_def)
  then have "3 \<le> k_next k" by (simp add: kernel_ok_def)
  note q = setup_forker_queue [OF assms(5) k this]
  have "sys_recvfrom (usock_fd (f_usock f) (mt forker_q)) j False k1 = Blocked" for j
    using q by (auto simp: sys_recvfrom_def)
  then have "wait_round (f_os e) (f_usock f) DEFINE_MBUF forker_start k1 = Blocked"
    by (simp add: wait_round_def cl_recvfrom_q_def usock_recvfrom_def sizeof_msg_buf_def COMMLINE_MAX_BUF_def)
  then have "wait_on_q (Suc n) (f_os e) (f_usock f) DEFINE_MBUF forker_start k1 = Ret (Waits (forker_start, k1))" by simp
  then show ?thesis
    using spawns_unheard [OF assms(1-4)] q by (simp add: forker_main_def assms(5) Let_def) (simp add: forker_start_def)
qed

lemma demo_forker_up: "\<exists>f k1. forker_setup 0 demo_env demo_pty demo_k = (Inr f, k1)"
proof -
  have fr: "free_address 0 demo_k forker_q" "free_address 0 demo_k monitor_q"
    by (auto simp: free_address_def demo_k_def usock_name_inject)
  have ok: "kernel_ok demo_k" using demo_open by (simp add: uopen_def)
  have "atoi ''90'' = 90" by code_simp
  then have "port_free demo_env demo_k 90" "threads_start demo_env" "k_next demo_k + 2 < k_limit demo_k"
    using udp_name_apart [of 90 0 airline_q]
    by (auto simp: port_free_def threads_start_def demo_env_def demo_k_def kernel_start_def)
  from forker_up(1) [OF ok this(3) fr this(1,2) refl refl] show ?thesis by blast
qed

lemma early_start_loses_nodes_witness:
  "\<exists>k1. start_applications 0 DEFINE_MBUF [7] demo_cfg demo_u demo_k = Ret demo_k \<and>
   forker_main 5 0 demo_env demo_pty DEFINE_MBUF demo_k = Ret (''log/forker.log'', Waits (forker_start, k1))"
proof -
  have fr: "free_address 0 demo_k forker_q" by (auto simp: free_address_def demo_k_def usock_name_inject)
  obtain f k1 where "forker_setup 0 demo_env demo_pty demo_k = (Inr f, k1)" using demo_forker_up by blast
  note l = early_start_loses_nodes [OF _ demo_open fr _ this, of DEFINE_MBUF "[(7, demo_words)]" demo_cfg 4]
  have "redirect_stdout_to_log (f_os demo_env) (-1) = ''log/forker.log''"
    by (simp add: redirect_stdout_to_log_def demo_env_def demo_os_def snprintf_text_def)
  then show ?thesis using l demo_node_cmds demo_words_valid [of 7] by simp
qed

section \<open>Failures of the start\<close>

text \<open>
  A monitor thread that cannot be created goes unnoticed: \<open>pthread_create\<close> returns a positive
  error number, the code tests for a negative one, so the forker goes on exactly as if the thread
  served the port, with the port bound and nobody reading it; the same failure of the other thread
  ends the forker with status 1.
\<close>

theorem monitor_thread_failure_unnoticed:
  assumes "0 < err" "forker_setup uid (e\<lparr>f_mon_created := 0\<rparr>) ps k = (Inr f, k1)"
  shows "forker_setup uid (e\<lparr>f_mon_created := err\<rparr>) ps k = (Inr (f\<lparr>f_monitor := (f_monitor f)\<lparr>m_serves := False\<rparr>\<rparr>), k1) \<and>
    fst (forker_setup uid (e\<lparr>f_pty_created := err\<rparr>) ps k) = Inl 1"
  using assms
  by (auto simp: forker_setup_def start_pty_thread_def start_monitor_thread_def monitor_start_def Let_def
      split: prod.splits if_splits option.splits)

lemma monitor_thread_failure_unnoticed_witness:
  "\<exists>f k1. forker_setup 0 (demo_env\<lparr>f_mon_created := 11\<rparr>) demo_pty demo_k = (Inr f, k1) \<and> \<not> m_serves (f_monitor f) \<and>
    fst (forker_setup 0 (demo_env\<lparr>f_pty_created := 11\<rparr>) demo_pty demo_k) = Inl 1"
proof -
  have "demo_env\<lparr>f_mon_created := 0\<rparr> = demo_env" by (simp add: demo_env_def)
  then obtain f k1 where "forker_setup 0 (demo_env\<lparr>f_mon_created := 0\<rparr>) demo_pty demo_k = (Inr f, k1)"
    using demo_forker_up by metis
  from monitor_thread_failure_unnoticed [OF _ this, of 11] show ?thesis by auto
qed

text \<open>
  C34: A network that cannot be set up ends the program with status 0: an unknown \<open>topologyType\<close> makes
  \<open>startNetwork\<close> fail after the forker was started, the constructor of the manager drops the result
  and \<open>main\<close> exits as after a normal run, its names released.  Only when the forker's process ends
  before that (it could not be executed, say) the status is the number 17 of \<open>SIGCHLD\<close>; without the
  forker variable it is 1.
\<close>

theorem unknown_topology_exits_0:
  assumes "kernel_ok k" "k_next k < k_limit k" "free_address (w_uid w) k airline_q"
    and "2 \<le> length args" "setConfigurationFromFile n fs (args ! 1) new_config = Ret (SUCCESS, c)"
    and "config_ok c" "numOfNodes c < 65536" "al_cfg (fresh c) = c"
    and "CFG_INT c ''macChecksumEnabled'' ''1'' = Ret cs" "CFG_INT c ''randSeed'' ''0xbabe'' = Ret seed"
    and "cfg_get c ''topologyType'' \<noteq> ''grid''" "cfg_get c ''topologyType'' \<noteq> ''randrect''"
  shows "\<exists>k1. airline_process w fs n args (exec_forker (Some cmd) frk exec_ok) False fresh stk k = Ret (Stopped 0 k1) \<and>
      airline_process w fs n args (exec_forker (Some cmd) frk exec_ok) True fresh stk k
        = Ret (Stopped (if frk < 0 then 0 else 17) k1) \<and>
      airline_process w fs n args (exec_forker None frk exec_ok) sigchld fresh stk k = Ret (Stopped 1 k1) \<and> k_name k1 = k_name k"
proof -
  define ua where "ua = \<lparr>g_usock_fd = [-1, 0, k_next k, 0, 0], g_def_line = 2\<rparr>"
  define k1 where "k1 = new_socket (usock_setabsaddr (w_uid w) (mt airline_q)) k"
  have a1: "cl_init (w_uid w) (mt airline_q) usock_start k = (SUCCESS, ua, k1)" "kernel_ok k1"
    using take_address [where a = airline_q and ?u1.0 = ua and u = usock_start and ?k1.0 = k1, OF assms(1-3)]
    by (simp_all add: ua_def usock_start_eq k1_def)
  let ?k2 = "snd (cl_cleanup ua k1)"
  have "k_name k fd = None" if "fd \<in> {0, k_next k}" for fd
    using that assms(1) kernel_ok_named [OF assms(1), of "k_next k"] by (cases "k_name k (k_next k)") (auto simp: kernel_ok_def)
  moreover have "3 \<le> k_next k" using assms(1) by (simp add: kernel_ok_def)
  ultimately have nm: "k_name ?k2 = k_name k"
    by (auto simp: cl_cleanup_def usock_cleanup_def CLOSE_def sys_close_def ua_def k1_def fun_eq_iff)
  note cl = cleared_same [OF assms(6)]
  let ?s = "(fresh c)\<lparr>al_ms := (al_ms (fresh c))\<lparr>g_tv := w_now w, cfg := cleared c\<rparr>,
      al_ctx := (al_ctx (fresh c))\<lparr>c_ns3 := (c_ns3 (al_ctx (fresh c)))\<lparr>n_nodes := nat (numOfNodes (cleared c))\<rparr>\<rparr>\<rparr>"
  have clr: "clear (w_now w) (al_ms (fresh c)) = Ret ((al_ms (fresh c))\<lparr>g_tv := w_now w, cfg := cleared c\<rparr>)"
    using clear_eq [of "al_ms (fresh c)"] assms(6-8) by simp
  have "setPositionAllocator w ?s = Ret None"
    using assms(11,12) by (simp add: setPositionAllocator_def cfg_get_keyval [OF cl(1)] Let_def)
  then have "startNetwork w stk ua (fresh c) k1 = Ret (FAILURE, ?s, k1)"
    unfolding startNetwork_def assms(8-10) bindo.simps clr Let_def by simp
  with a1(1) assms(4,5) nm show ?thesis
    by (intro exI [of _ ?k2]) (simp add: airline_process_def airline_main_def exec_forker_def sig_handler_def Let_def)
qed

lemma unknown_topology_exits_0_witness:
  "\<exists>k1. airline_process demo_world (\<lambda>_. Some []) 1 [''airline'', ''config''] (exec_forker (Some ''forker'') 7 (\<lambda>_. True)) False
      (\<lambda>c. demo_al c 0 (0, 0, 0)) DEFINE_MBUF (kernel_start 100) = Ret (Stopped 0 k1) \<and> k_name k1 = (\<lambda>_. None)"
proof -
  have l: "setConfigurationFromFile 1 (\<lambda>_. Some []) ([''airline'', ''config''] ! 1) new_config = Ret (SUCCESS, new_config)"
    by (rule empty_file_loads)
  have g: "cfg_get new_config x = []" for x by (simp add: cfg_get_def new_config_def kv_find_def)
  have b: "stoi0 ''0xbabe'' = Some 0xbabe" "stoi0 ''1'' = Some 1" by (simp_all add: stoi0_eval)
  have c: "CFG_INT new_config ''macChecksumEnabled'' ''1'' = Ret 1" "CFG_INT new_config ''randSeed'' ''0xbabe'' = Ret 0xbabe"
    using b by (simp_all add: CFG_INT_def cfg_get_def_val_def g)
  have k: "k_next (kernel_start 100) < k_limit (kernel_start 100)" by (simp add: kernel_start_def)
  have f: "free_address (w_uid demo_world) (kernel_start 100) airline_q" by (rule free_start)
  have n: "config_ok new_config" "numOfNodes new_config < 65536" by (simp_all add: config_ok_def new_config_def)
  have "k_name (kernel_start 100) = (\<lambda>_. None)" by (simp add: kernel_start_def)
  then show ?thesis
    using unknown_topology_exits_0 [where fresh = "\<lambda>c. demo_al c 0 (0, 0, 0)" and cmd = "''forker''" and frk = 7
        and exec_ok = "\<lambda>_. True" and stk = DEFINE_MBUF, OF kernel_ok_start k f _ l n _ c] by (auto simp: g)
qed

end
