(* ===== verification/Spec2Isabelle.thy ===== *)
theory Spec2Isabelle
  imports Canvas_App Pcap_Util Cl_Msgq Canvas_System Process_Start
begin

text \<open>
  Whitefield runs real network stacks as processes (\<^emph>\<open>stacklines\<close>) and connects them through a
  simulated physical and MAC layer (the \<^emph>\<open>airline\<close>, on ns-3).  This development models the code of
  the framework itself and proves what its components promise each other.

  \<^bold>\<open>The parts and how they interact.\<close>  The airline process reads a configuration file, installs an
  interface (IEEE 802.15.4 or power line) and asks the \<^emph>\<open>forker\<close> process to start one stackline per
  node.  All processes exchange packed \<open>msg_buf_t\<close> structures over \<^emph>\<open>commline\<close>, one datagram queue
  per address (line, node id).  A stackline's packet goes to the airline's queue, from there to ns-3;
  ns-3 calls back with indications and confirmations, which go to the queue of a stackline.  A user
  command goes by UDP to the \<^emph>\<open>monitor\<close> thread of the forker, as a message to the airline or a
  stackline, and its reply back.  The canvas page polls a web server for the graph of the nodes.

  \<^bold>\<open>Theories and the code they model\<close> (paths under \<open>src/\<close>; every definition keeps the name of the
  function or type it models, and each theory imports those it builds on):

  \<^item> \<open>WF_Prelude\<close>: integer types, little-endian bytes, the outcome of a call (\<open>Ret\<close>, \<open>Blocked\<close>,
    \<open>Fault\<close>), the locale \<open>step_system\<close> with runs and invariants.
  \<^item> \<open>C_String\<close>, \<open>Double_Text\<close>, \<open>Py_Text\<close>: the part of the C, C++ and Python libraries the code
    uses on text, numbers and buffers; \<open>Double_Text\<close> has the six digits a C++ stream writes of a
    \<open>double\<close>, \<open>Py_Text\<close> how \<open>float\<close> reads them back (\<open>float_reads_stream\<close>).
  \<^item> \<open>Canvas_App\<close>: \<open>canvas/assets/cytoscape_app.js\<close>, the state of the page and its event handlers
    (timer, clicks, \<open>onreadystatechange\<close>) as a step system over admissible event sequences.
  \<^item> \<open>Msg_Buf\<close>, \<open>Cl_Usock\<close>, \<open>Commline_API\<close>: \<open>src/commline/commline.h\<close>, \<open>cl_usock.c\<close>,
    \<open>commline.c\<close>.  The message with its byte layout, the socket arrays of a process, an explicit kernel
    (open descriptors, bound names, queues); the locale \<open>transport\<close> states what callers rely on (a
    first-in-first-out queue per address, no effect on the others) and is interpreted on the sockets.
  \<^item> \<open>Cl_Msgq\<close>: \<open>src/commline/cl_msgq.c\<close>, the transport of the build without
    \<open>USE_UNIX_SOCKETS\<close>, over an explicit System V queue; a second interpretation of \<open>transport\<close>.
  \<^item> \<open>Pcap_Util\<close>: \<open>src/commline/pcap_util.c\<close>, capture files and their checksum.
  \<^item> \<open>Airline_Common\<close>, \<open>Node_Config\<close>, \<open>Cmd_Parser\<close>: \<open>src/airline/common.cc\<close>, \<open>Config.cc\<close>,
    \<open>Config.h\<close>, \<open>Nodeinfo.h\<close>.  Key=value maps (locale \<open>kv_store\<close>, interpreted on the global and the
    per-node keys), node records, the configuration reader with ranges and inclusion, and the parser of
    stackline commands with \<open>$NODEID\<close>.
  \<^item> \<open>Forker\<close>: \<open>src/utils/forker.c\<close>, the loop that turns start messages into processes.
  \<^item> \<open>Pty_Handler\<close>: \<open>src/utils/pty_handler.c\<close>, the relay between a node's terminal and its socket;
    the thread with its surroundings is an inductive step relation with runs.
  \<^item> \<open>Mac_Stats\<close>: \<open>src/airline/mac_stats.cc\<close>, counters, summary text, and the two functions of
    \<open>common.cc\<close> that send to a stackline.
  \<^item> \<open>Addr_Codec\<close>: the address encodings of \<open>cl_stackline_helpers.c\<close>, \<open>LrwpanIface.cc\<close> and
    \<open>PowerLineCommHandler.cc\<close> (locale \<open>addr_codec\<close>).
  \<^item> \<open>Propagation\<close>, \<open>Lrwpan_Iface\<close>, \<open>Plc_Iface\<close>, \<open>Iface_Handler\<close>: \<open>src/airline/NS3/\<close>, the two
    interfaces and their dispatch.  ns-3 is the log of the calls made to it; the locale
    \<open>packet_iface\<close> (a send makes exactly one request or has no effect) is interpreted on both
    interfaces and on the dispatcher.
  \<^item> \<open>Airline_Cmds\<close>, \<open>Airline_Manager\<close>: \<open>AirlineManager.cc\<close>, \<open>Command.cc\<close>, \<open>Manager.cc\<close>,
    \<open>main.cc\<close>.  The commands with their buffer arithmetic, the queue reader, the order of set-up.
  \<^item> \<open>Stackline_Cmds\<close>, \<open>Monitor\<close>: \<open>sl_handle_cmd\<close> of \<open>cl_stackline_helpers.c\<close>, the commands of
    \<open>monitor.c\<close> and the output of the client \<open>udp_cmd.c\<close>.
  \<^item> \<open>Process_Start\<close>: how the processes come up, \<open>main\<close> of \<open>main.cc\<close>, \<open>forker.c\<close> and
    \<open>udp_cmd.c\<close>, the UDP server and the thread of \<open>monitor.c\<close>.
  \<^item> \<open>Canvas_Server\<close>: \<open>canvas/canvas.py\<close>, the web server of the page.  The service behind its UDP
    socket is a parameter with the laws of the locale \<open>monitor_service\<close>.
  \<^item> \<open>Canvas_System\<close>: that locale interpreted on the running system, where a request goes through the
    monitor to the airline and the stacklines.  This theory, the last one, joins it with the page.

  \<^bold>\<open>What the lemmas show.\<close>  Each component theory proves its invariant and the effect of each
  operation on every branch, then the properties, numbered C1 to C40 in order of importance.  End to
  end: a configured node becomes an executed process (\<open>nodes_launched_in_order\<close>), a packet crosses
  the air with its payload and ids (\<open>packet_crosses_the_air\<close>), packets leave in order
  (\<open>queued_packets_sent_in_order\<close>), a query goes from the client to the airline and back
  (\<open>node_exec_query\<close>), the network is set up in a fixed order (\<open>network_started\<close>), the start
  connects the processes (\<open>processes_connected\<close>) so that the assumptions of the other theorems hold, a
  request of the page returns the network (\<open>graph_shows_network\<close>) and the page draws it
  (\<open>page_draws_network\<close>), a propagation model gets its parameters (\<open>model_gets_its_parameters\<close>),
  both transports deliver the same messages (\<open>transports_agree\<close>).  Refinements:
  reading a file has the effect of its directives (\<open>load_refines_directives\<close>), the counters count the
  events (\<open>counters_count\<close>), the checksum is the CCITT polynomial (\<open>crc16_is_ccitt\<close>).  Several
  properties state behaviour the code should not have, for the inputs on which it has it: writes
  outside an array, lost or misdirected replies, nodes lost at the start, leaked descriptors.

  \<^bold>\<open>Conventions, bounds and fuel.\<close>  A fault stands for everything that leaves the defined behaviour
  of C (an access outside an object, a null call), for a thrown exception and for the end of the
  process; the code's own error values are values.  Machine integers are words where they wrap;
  an \<open>int\<close> that cannot overflow for the stated sizes is an integer.  A \<open>double\<close> is the rational
  number its literal names; its output as text is rounded as the code's, its arithmetic is exact.  Unbounded loops have fuel: the inclusion depth of
  \<open>setConfigurationFromFile\<close> (\<open>load_returns\<close>: one more than the rank of the file is enough),
  the rounds of \<open>wait_on_q\<close> (its result tells a loop that has ended, one that waits for a message and
  one cut off by the fuel apart, each with its state), the messages of
  \<open>msgReader\<close> (\<open>queued_packets_sent_in_order\<close>: one more than the queue holds is enough).  The relay
  thread runs for ever; its properties hold of every finite run.  The message queue's limits are part of
  its state: \<open>transport\<close> is interpreted on a queue that is never full, \<open>transports_agree\<close> carries it
  over to any byte limit as long as the messages fit, and \<open>one_reader_blocks_all\<close> says what happens
  when they do not.  The other
  loops are structural recursions or have a termination proof.

  \<^bold>\<open>Not modelled.\<close>  Third-party code (ns-3, its PLC module, cytoscape, dagre, bottle) is a log of
  calls or a parameter.  The results of \<open>fork\<close>, \<open>execv\<close>, \<open>pthread_create\<close> and of time-outs are
  parameters; threads take turns at the points where they wait.  A reply with bytes beyond ASCII is an
  error of its own in the web server, and numbers it reads with underscores, \<open>inf\<close> and \<open>nan\<close> have no
  value.  \<open>stod\<close> knows decimal literals only (no \<open>inf\<close>, \<open>nan\<close>, hexadecimal literals or \<open>out_of_range\<close>).
  The receive queues of sockets are unbounded, so a send never waits for the reader of a full queue;
  a terminal takes all bytes it is given; the length of a captured packet is an unbounded integer, a C
  \<open>int\<close> only below \<open>2 ^ 31\<close>.  When the forker ends while the airline sets up its network, the signal
  is taken before the set-up begins.  The shell scripts only start, query and filter.  Log output is omitted everywhere.
\<close>

section \<open>From the network to the page\<close>

text \<open>Once a request is complete, its text stays.\<close>

definition complete_with :: "string \<Rightarrow> 'g app \<Rightarrow> bool" where
  "complete_with t s \<longleftrightarrow> (\<forall>x \<in> set (xhrs s). ready x = 4 \<longrightarrow> response_text x = t)"

lemma complete_query: "complete_with t s \<Longrightarrow> complete_with t (query_graph s)"
  by (auto simp: complete_with_def query_graph_eq new_request_def)

lemma complete_step:
  assumes "complete_with t s" "enabled s e" "\<forall>i u. e = Net i 4 u \<longrightarrow> u = t"
  shows "complete_with t (app_step parse s e)"
proof (cases e)
  case (Net i k u)
  have "ready x = 4 \<longrightarrow> response_text x = t"
    if "x \<in> set ((xhrs s)[i := (xhrs s ! i)\<lparr>ready := k, response_text := u\<rparr>])" for x
  proof -
    have "x = (xhrs s ! i)\<lparr>ready := k, response_text := u\<rparr> \<or> x \<in> set (xhrs s)"
      using subsetD [OF set_update_subset_insert that] by auto
    then show ?thesis using assms Net by (auto simp: complete_with_def)
  qed
  then show ?thesis by (auto simp: complete_with_def Net)
next
  case Tick
  then show ?thesis using assms complete_query by simp
next
  case ClickPosition
  then show ?thesis using assms complete_query [of t "s\<lparr>layout_name := ''preset'', first_run := True\<rparr>"]
    by (simp add: view_position_def complete_with_def)
next
  case ClickTree
  then show ?thesis using assms complete_query [of t "s\<lparr>layout_name := ''dagre'', first_run := True\<rparr>"]
    by (simp add: view_tree_def complete_with_def)
qed

lemma newest_in: "app_inv s \<Longrightarrow> newest s \<in> set (xhrs s)"
  by (simp add: app_inv_def newest_def)

definition draws_only :: "'g \<Rightarrow> 'g app \<Rightarrow> bool" where
  "draws_only g s \<longleftrightarrow> (\<forall>h. Json h \<in> set (calls s) \<longrightarrow> h = g)"

lemma draws_step:
  assumes "app_inv s" "complete_with t s" "draws_only g s" "enabled s e" "\<forall>i u. e = Net i 4 u \<longrightarrow> u = t" "parse t = Some g"
  shows "draws_only g (app_step parse s e)"
proof (cases e)
  case (Net i k u)
  let ?s = "net_change parse i k u s"
  have "complete_with t ?s" using complete_step [OF assms(2,4,5), of parse] by (simp add: Net)
  moreover have "newest ?s \<in> set (xhrs ?s)" using app_inv_net [OF assms(1)] assms(4) Net by (intro newest_in) simp
  ultimately have "ready (newest ?s) = 4 \<longrightarrow> response_text (newest ?s) = t" unfolding complete_with_def by blast
  then show ?thesis
    using net_change_calls(1) [OF assms(1) assms(4) [unfolded Net] refl, of parse] assms(3,6)
    by (auto simp: Net draws_only_def)
qed (use assms(3) in \<open>simp_all add: draws_only_def\<close>)

text \<open>
  C1: The page draws what the server knows: in every run of the page in which the finished requests
  were answered with a graph by the server of a running network, every graph drawn is the same one:
  the positioned nodes, an edge for each node whose stackline answers with a route other than
  \<open>[NONE]\<close>, and an edge to node 1 for each node whose stackline does not answer (the server takes
  the monitor's error text for a route).  The answer to the newest request is drawn and laid out.
\<close>

theorem page_draws_network:
  assumes "page_trace parse es" "\<forall>i t. Net i 4 t \<in> set es \<longrightarrow> served p answer ps enc t"
    and "parse (enc (graph_elements answer ps)) = Some (graph_elements answer ps)"
    and "enabled (page_run parse es) (Net j 4 t)" "j = length (xhrs (page_run parse es)) - 1" "served p answer ps enc t"
  shows "draws_only (graph_elements answer ps) (page_run parse es) \<and>
    calls (page_run parse (es @ [Net j 4 t])) = calls (page_run parse es) @
      [Json (graph_elements answer ps), Layout (layout_name (page_run parse es)) (first_run (page_run parse es)) ''BT'']"
proof -
  let ?g = "graph_elements answer ps" and ?s = "page_run parse es"
  let ?t = "enc ?g"
  have "u = ?t" if "served p answer ps enc u" for u by (rule served_text [OF that])
  then have t: "\<forall>i u. Net i 4 u \<in> set es \<longrightarrow> u = ?t" "t = ?t" using assms(2,6) by blast+
  have "draws_only ?g (run (app_step parse) s es)"
    if "app_inv s" "complete_with ?t s" "draws_only ?g s" "admissible enabled (app_step parse) s es" for s
    using that t(1)
  proof (induction es arbitrary: s)
    case (Cons e es)
    then have "enabled s e" "admissible enabled (app_step parse) (app_step parse s e) es" "\<forall>i u. e = Net i 4 u \<longrightarrow> u = ?t"
      "\<forall>i u. Net i 4 u \<in> set es \<longrightarrow> u = ?t" by auto
    then show ?case
      using Cons.IH [OF app_inv_step [OF Cons.prems(1)] complete_step [OF Cons.prems(2)]
          draws_step [OF Cons.prems(1,2,3), of e parse]] assms(3) by simp
  qed simp
  moreover have "complete_with ?t app_start" "draws_only ?g app_start"
    by (simp_all add: app_start_def Let_def query_graph_eq complete_with_def draws_only_def new_request_def)
  ultimately have draws: "draws_only ?g ?s" using app_inv_start assms(1) by blast
  note inv = page_inv [OF assms(1)]
  have "xhrs ?s \<noteq> []" using inv by (simp add: app_inv_def)
  then have "newest (net_change parse j 4 t ?s) = (newest ?s)\<lparr>ready := 4, response_text := t\<rparr>"
    by (rule newest_net_self [OF _ assms(5)])
  then show ?thesis
    using draws net_change_calls(1) [OF inv assms(4) refl, of parse] assms(3) t(2) by (simp add: run_append)
qed

lemma demo_served: "served demo_parties demo_answer [(0, 3, -4, 0), (1, 3, -4, 0)] (\<lambda>_. ''g'') ''g''"
proof -
  obtain es w1 where "graph (sys_ask demo_parties) sys_file ''/tmp/x'' demo_web = (Inr (Elements es), w1)"
    using graph_of_system [OF demo_sys_ok demo_path _ demo_readable] by (auto simp: demo_positions)
  then show ?thesis using demo_sys_ok demo_path demo_positions unfolding served_def by blast
qed

lemma page_draws_network_witness:
  "calls (page_run (\<lambda>t. Some [Node ''0'' 3 (-4), Node ''1'' 3 (-4), Edge ''0-1'' ''0'' ''1'', Edge ''1-10'' ''1'' ''10''])
      ([Net 0 4 ''g'', Tick] @ [Net 1 4 ''g''])) = calls (page_run (\<lambda>t. Some [Node ''0'' 3 (-4), Node ''1'' 3 (-4),
        Edge ''0-1'' ''0'' ''1'', Edge ''1-10'' ''1'' ''10'']) [Net 0 4 ''g'', Tick]) @
    [Json [Node ''0'' 3 (-4), Node ''1'' 3 (-4), Edge ''0-1'' ''0'' ''1'', Edge ''1-10'' ''1'' ''10''], Layout ''preset'' False ''BT'']"
proof -
  let ?es = "[Node ''0'' 3 (-4), Node ''1'' 3 (-4), Edge ''0-1'' ''0'' ''1'', Edge ''1-10'' ''1'' ''10'']"
  let ?p = "\<lambda>t :: string. Some ?es" and ?ps = "[(0, 3, -4, 0), (1, 3, -4, 0)] :: (nat \<times> pos3) list"
  have tr: "page_trace ?p [Net 0 4 ''g'', Tick]"
    by (simp add: enabled_def app_start_def app_defs new_request_def)
  have sv: "\<forall>i t. Net i 4 t \<in> set [Net 0 4 ''g'', Tick] \<longrightarrow> served demo_parties demo_answer ?ps (\<lambda>_. ''g'') t"
    using demo_served by simp
  have en: "enabled (page_run ?p [Net 0 4 ''g'', Tick]) (Net 1 4 ''g'')"
    "1 = length (xhrs (page_run ?p [Net 0 4 ''g'', Tick])) - 1"
    by (simp_all add: enabled_def app_start_def app_defs new_request_def)
  have "?p ''g'' = Some (graph_elements demo_answer ?ps)" using demo_elements by simp
  from page_draws_network [OF tr sv this en demo_served] demo_elements
  show ?thesis by (simp add: app_start_def app_defs new_request_def)
qed

end
